(* ===== verification/Prelude.thy ===== *)
theory Prelude
  imports Complex_Main "HOL-Library.Sublist"
begin

text \<open>
  Shared ground of the development: Go strings as byte lists, the functions of the Go
  packages \<open>strings\<close> and \<open>strconv\<close> the source calls, 64-bit wrap-around, association
  lists used as Go maps with string keys, and the collections of rewrite rules the
  component theories extend.

  A Go \<open>string\<close> or \<open>[]byte\<close> is a byte sequence; it is modelled as an Isabelle
  \<open>string\<close>, a list of 8-bit characters. Where Go distinguishes a nil slice from an empty
  one and the source tests it, the model uses an option.
\<close>

named_theorems model_defs \<open>definitions to unfold when evaluating the model on a concrete input\<close>
named_theorems step_simps \<open>one-step equations of the operations of a component\<close>

subsection \<open>Results\<close>

type_synonym 'a result = "string + 'a"

subsection \<open>64-bit integers\<close>

text \<open>Go's \<open>int64\<close> (and \<open>int\<close> on the 64-bit targets of the build): values are mathematical
  integers in range, results of arithmetic are wrapped by \<open>wrap64\<close>.\<close>

definition max_int64 :: int where "max_int64 = 9223372036854775807"
definition min_int64 :: int where "min_int64 = - 9223372036854775808"

definition wrap64 :: "int \<Rightarrow> int" where
  "wrap64 x = (x + 9223372036854775808) mod 18446744073709551616 - 9223372036854775808"

definition in_int64 :: "int \<Rightarrow> bool" where
  "in_int64 x \<longleftrightarrow> min_int64 \<le> x \<and> x \<le> max_int64"

lemma wrap64_id [simp]: "in_int64 x \<Longrightarrow> wrap64 x = x"
  by (simp add: in_int64_def wrap64_def min_int64_def max_int64_def)

lemma wrap64_range [simp]: "in_int64 (wrap64 x)"
proof -
  have "0 \<le> (x + 9223372036854775808) mod 18446744073709551616"
    and "(x + 9223372036854775808) mod 18446744073709551616 < 18446744073709551616"
    by simp_all
  then show ?thesis
    unfolding in_int64_def wrap64_def min_int64_def max_int64_def by linarith
qed

subsection \<open>Byte strings: package strings\<close>

text \<open>\<open>strings.HasPrefix\<close>, \<open>HasSuffix\<close> and \<open>Contains\<close> are \<open>prefix\<close>, \<open>suffix\<close> and
  \<open>sublist\<close> of the library; note the order of their arguments.\<close>

definition trim_prefix :: "string \<Rightarrow> string \<Rightarrow> string" where
  "trim_prefix s p = (if prefix p s then drop (length p) s else s)"

definition trim_suffix :: "string \<Rightarrow> string \<Rightarrow> string" where
  "trim_suffix s p = (if suffix p s then take (length s - length p) s else s)"

text \<open>\<open>strings.IndexByte\<close>; \<open>None\<close> where Go returns -1.\<close>

fun index_byte :: "string \<Rightarrow> char \<Rightarrow> nat option" where
  "index_byte [] c = None"
| "index_byte (x # xs) c = (if x = c then Some 0 else map_option Suc (index_byte xs c))"

text \<open>\<open>strings.Split\<close> with a one-byte separator, and \<open>strings.Join\<close>.\<close>

fun split_on :: "char \<Rightarrow> string \<Rightarrow> string list" where
  "split_on c [] = [[]]"
| "split_on c (x # xs) =
     (if x = c then [] # split_on c xs
      else (case split_on c xs of [] \<Rightarrow> [[x]] | w # ws \<Rightarrow> (x # w) # ws))"

fun join_with :: "string \<Rightarrow> string list \<Rightarrow> string" where
  "join_with sep [] = []"
| "join_with sep [w] = w"
| "join_with sep (w # ws) = w @ sep @ join_with sep ws"

text \<open>
  \<open>strings.TrimSpace\<close> removes, at both ends, the code points with the Unicode property
  White\_Space; on UTF-8 bytes these are the six ASCII blanks and the encodings of U+0085,
  U+00A0, U+1680, U+2000 to U+200A, U+2028, U+2029, U+202F, U+205F and U+3000.
\<close>

definition space_encodings :: "string list" where
  "space_encodings =
     [[CHR 0x20], [CHR 0x09], [CHR 0x0A], [CHR 0x0B], [CHR 0x0C], [CHR 0x0D],
      [CHR 0xC2, CHR 0x85], [CHR 0xC2, CHR 0xA0], [CHR 0xE1, CHR 0x9A, CHR 0x80],
      [CHR 0xE2, CHR 0x80, CHR 0x80], [CHR 0xE2, CHR 0x80, CHR 0x81],
      [CHR 0xE2, CHR 0x80, CHR 0x82], [CHR 0xE2, CHR 0x80, CHR 0x83],
      [CHR 0xE2, CHR 0x80, CHR 0x84], [CHR 0xE2, CHR 0x80, CHR 0x85],
      [CHR 0xE2, CHR 0x80, CHR 0x86], [CHR 0xE2, CHR 0x80, CHR 0x87],
      [CHR 0xE2, CHR 0x80, CHR 0x88], [CHR 0xE2, CHR 0x80, CHR 0x89],
      [CHR 0xE2, CHR 0x80, CHR 0x8A], [CHR 0xE2, CHR 0x80, CHR 0xA8],
      [CHR 0xE2, CHR 0x80, CHR 0xA9], [CHR 0xE2, CHR 0x80, CHR 0xAF],
      [CHR 0xE2, CHR 0x81, CHR 0x9F], [CHR 0xE3, CHR 0x80, CHR 0x80]]"

lemma space_encodings_nonempty: "p \<in> set space_encodings \<Longrightarrow> p \<noteq> []"
  by (auto simp: space_encodings_def)

function trim_left :: "string \<Rightarrow> string" where
  "trim_left s = (case find (\<lambda>p. prefix p s) space_encodings of
       None \<Rightarrow> s
     | Some p \<Rightarrow> trim_left (drop (length p) s))"
  by pat_completeness auto
termination
proof (relation "measure length", simp)
  fix s p
  assume "find (\<lambda>p. prefix p s) space_encodings = Some p"
  then have "p \<in> set space_encodings" and "prefix p s"
    by (metis find_Some_iff nth_mem)+
  then have "p \<noteq> []" and "s \<noteq> []"
    using space_encodings_nonempty by fastforce+
  then show "(drop (length p) s, s) \<in> measure length" by simp
qed

function trim_right :: "string \<Rightarrow> string" where
  "trim_right s = (case find (\<lambda>p. suffix p s) space_encodings of
       None \<Rightarrow> s
     | Some p \<Rightarrow> trim_right (take (length s - length p) s))"
  by pat_completeness auto
termination
proof (relation "measure length", simp)
  fix s p
  assume "find (\<lambda>p. suffix p s) space_encodings = Some p"
  then have "p \<in> set space_encodings" and "suffix p s"
    by (metis find_Some_iff nth_mem)+
  then have "p \<noteq> []" and "s \<noteq> []"
    using space_encodings_nonempty by fastforce+
  then show "(take (length s - length p) s, s) \<in> measure length" by simp
qed

declare trim_left.simps [simp del] trim_right.simps [simp del]

definition trim_space :: "string \<Rightarrow> string" where
  "trim_space s = trim_right (trim_left s)"

subsection \<open>Numbers: package strconv\<close>

definition is_digit :: "char \<Rightarrow> bool" where
  "is_digit c \<longleftrightarrow> 48 \<le> (of_char c :: nat) \<and> (of_char c :: nat) \<le> 57"

definition digit_val :: "char \<Rightarrow> nat" where
  "digit_val c = of_char c - 48"

definition digits_val :: "string \<Rightarrow> nat" where
  "digits_val s = foldl (\<lambda>n c. 10 * n + digit_val c) 0 s"

text \<open>
  \<open>strconv.ParseInt(s, 10, 64)\<close> with its two kinds of error kept apart: a syntax error
  carries the value 0, a range error the nearest bound.
\<close>

datatype parse_outcome = ParseOk int | ParseSyntax | ParseRange int

definition parse_int64 :: "string \<Rightarrow> parse_outcome" where
  "parse_int64 s =
     (case s of
        [] \<Rightarrow> ParseSyntax
      | c # cs \<Rightarrow>
          (let neg = (c = CHR ''-'');
               ds = (if c = CHR ''-'' \<or> c = CHR ''+'' then cs else s)
           in if ds = [] \<or> \<not> list_all is_digit ds then ParseSyntax
              else let v = (if neg then - int (digits_val ds) else int (digits_val ds))
                   in if v < min_int64 then ParseRange min_int64
                      else if max_int64 < v then ParseRange max_int64
                      else ParseOk v))"

text \<open>\<open>parse_int_opt\<close> is the value for callers that give up on any error;
  \<open>atoi_or_clamp\<close> for those that drop the error and keep the value (\<open>v, _ := Atoi(s)\<close>).\<close>

definition parse_int_opt :: "string \<Rightarrow> int option" where
  "parse_int_opt s = (case parse_int64 s of ParseOk v \<Rightarrow> Some v | _ \<Rightarrow> None)"

definition atoi_or_clamp :: "string \<Rightarrow> int" where
  "atoi_or_clamp s = (case parse_int64 s of ParseOk v \<Rightarrow> v | ParseSyntax \<Rightarrow> 0 | ParseRange v \<Rightarrow> v)"

text \<open>Decimal rendering: \<open>strconv.Itoa\<close> and the verb \<open>%d\<close>.\<close>

definition digit_char :: "nat \<Rightarrow> char" where
  "digit_char d = char_of (48 + d)"

fun show_nat :: "nat \<Rightarrow> string" where
  "show_nat n = (if n < 10 then [digit_char n] else show_nat (n div 10) @ [digit_char (n mod 10)])"

declare show_nat.simps [simp del]

definition show_int :: "int \<Rightarrow> string" where
  "show_int i = (if i < 0 then CHR ''-'' # show_nat (nat (- i)) else show_nat (nat i))"

lemma digit_char_props [simp]:
  assumes "d < 10"
  shows "is_digit (digit_char d)" "digit_val (digit_char d) = d"
  using assms by (simp_all add: is_digit_def digit_val_def digit_char_def)

lemma show_nat_nonempty [simp]: "show_nat n \<noteq> []"
  by (subst show_nat.simps) simp

lemma show_nat_digits [simp]: "list_all is_digit (show_nat n)"
proof (induction n rule: show_nat.induct)
  case (1 n)
  then show ?case by (subst show_nat.simps) (simp add: list_all_iff)
qed

lemma digits_val_snoc: "digits_val (s @ [c]) = 10 * digits_val s + digit_val c"
  by (simp add: digits_val_def)

lemma digits_val_show_nat [simp]: "digits_val (show_nat n) = n"
proof (induction n rule: show_nat.induct)
  case (1 n)
  show ?case
  proof (cases "n < 10")
    case True
    then show ?thesis by (subst show_nat.simps) (simp add: digits_val_def)
  next
    case False
    with "1.IH" show ?thesis by (subst show_nat.simps) (simp add: digits_val_snoc)
  qed
qed

lemma show_nat_inject [simp]: "show_nat m = show_nat n \<longleftrightarrow> m = n"
  by (metis digits_val_show_nat)

lemma digit_not_sign: "is_digit c \<Longrightarrow> c \<noteq> CHR ''-'' \<and> c \<noteq> CHR ''+''"
  by (auto simp: is_digit_def)

lemma show_nat_Cons: "\<exists>c cs. show_nat n = c # cs \<and> is_digit c"
  using show_nat_digits [of n] by (cases "show_nat n") auto

text \<open>Rendering then parsing gives the number back.\<close>

lemma parse_show_int:
  assumes "in_int64 i"
  shows "parse_int64 (show_int i) = ParseOk i"
proof (cases "i < 0")
  case True
  with assms show ?thesis
    by (simp add: parse_int64_def show_int_def Let_def in_int64_def)
next
  case False
  obtain c cs where c: "show_nat (nat i) = c # cs" "is_digit c"
    using show_nat_Cons by blast
  have "list_all is_digit (c # cs)" "digits_val (c # cs) = nat i"
    by (simp_all flip: c(1))
  with False assms c show ?thesis
    by (simp add: parse_int64_def show_int_def Let_def in_int64_def digit_not_sign)
qed

lemma show_int_inject [simp]: "show_int i = show_int j \<longleftrightarrow> i = j"
proof
  assume eq: "show_int i = show_int j"
  have sgn: "hd (show_int k) = CHR ''-'' \<longleftrightarrow> k < 0" for k
    using show_nat_Cons [of "nat k"] digit_not_sign by (auto simp: show_int_def)
  from eq sgn [of i] sgn [of j] have "i < 0 \<longleftrightarrow> j < 0" by simp
  with eq show "i = j" by (auto simp: show_int_def split: if_splits)
qed simp

lemma parse_int64_in_range: "parse_int64 s = ParseOk v \<Longrightarrow> in_int64 v"
  by (auto simp: parse_int64_def Let_def in_int64_def split: list.splits if_splits)

subsection \<open>Splitting and joining\<close>

lemma split_on_nonempty [simp]: "split_on c s \<noteq> []"
  by (induction s) (auto split: list.splits)

lemma split_on_no_sep: "c \<notin> set s \<Longrightarrow> split_on c s = [s]"
  by (induction s) auto

lemma split_on_append_sep:
  "c \<notin> set w \<Longrightarrow> split_on c (w @ c # s) = w # split_on c s"
  by (induction w) auto

text \<open>\<open>Split (Join ws)\<close> is \<open>ws\<close> when no word holds the separator and there is a word.\<close>

lemma split_join:
  "ws \<noteq> [] \<Longrightarrow> \<forall>w \<in> set ws. c \<notin> set w \<Longrightarrow> split_on c (join_with [c] ws) = ws"
proof (induction ws)
  case Nil
  then show ?case by simp
next
  case (Cons w ws)
  then show ?case
    by (cases ws) (simp_all add: split_on_no_sep split_on_append_sep)
qed

lemma join_with_empty: "join_with [c] ws = [] \<longleftrightarrow> ws = [] \<or> ws = [[]]"
  by (cases "([c], ws)" rule: join_with.cases) auto

text \<open>Joining is undone by splitting: the separator never survives in a piece.\<close>

lemma split_on_no_sep_inside: "w \<in> set (split_on c s) \<Longrightarrow> c \<notin> set w"
proof (induction s arbitrary: w)
  case Nil
  then show ?case by simp
next
  case (Cons x s)
  then show ?case by (auto split: if_splits list.splits)
qed

lemma join_split: "join_with [c] (split_on c s) = s"
proof (induction s)
  case Nil
  then show ?case by simp
next
  case (Cons x s)
  then show ?case
    by (cases "([c], split_on c s)" rule: join_with.cases) auto
qed

subsection \<open>Finding a byte\<close>

lemma index_byte_None: "index_byte s c = None \<longleftrightarrow> c \<notin> set s"
  by (induction s) auto

lemma index_byte_append: "c \<notin> set s \<Longrightarrow> index_byte (s @ c # t) c = Some (length s)"
  by (induction s) auto

lemma index_byte_Some:
  "index_byte s c = Some i \<Longrightarrow> i < length s \<and> s ! i = c \<and> c \<notin> set (take i s)"
  by (induction s arbitrary: i) (auto split: if_splits)

lemma index_byte_split:
  "index_byte s c = Some i \<Longrightarrow> s = take i s @ c # drop (Suc i) s"
  using index_byte_Some id_take_nth_drop by metis

subsection \<open>Letter case\<close>

text \<open>
  \<open>strings.ToLower\<close> and \<open>strings.ToUpper\<close> as far as ASCII text can tell: ASCII letters are
  mapped, and so are the four other code points whose image is an ASCII letter (the Kelvin
  sign and dotted capital I below, dotless i and long s above). Every other code point has
  an image outside ASCII; its bytes are kept, so searching the result for ASCII text gives
  Go's answer.
\<close>

definition lower_byte :: "char \<Rightarrow> char" where
  "lower_byte c = (if 65 \<le> (of_char c :: nat) \<and> (of_char c :: nat) \<le> 90
                   then char_of ((of_char c :: nat) + 32) else c)"

definition upper_byte :: "char \<Rightarrow> char" where
  "upper_byte c = (if 97 \<le> (of_char c :: nat) \<and> (of_char c :: nat) \<le> 122
                   then char_of ((of_char c :: nat) - 32) else c)"

function to_lower :: "string \<Rightarrow> string" where
  "to_lower s =
     (case s of
        [] \<Rightarrow> []
      | c # cs \<Rightarrow>
          if prefix [CHR 0xE2, CHR 0x84, CHR 0xAA] s then CHR ''k'' # to_lower (drop 3 s)
          else if prefix [CHR 0xC4, CHR 0xB0] s then CHR ''i'' # to_lower (drop 2 s)
          else lower_byte c # to_lower cs)"
  by pat_completeness auto
termination by (relation "measure length") auto

function to_upper :: "string \<Rightarrow> string" where
  "to_upper s =
     (case s of
        [] \<Rightarrow> []
      | c # cs \<Rightarrow>
          if prefix [CHR 0xC4, CHR 0xB1] s then CHR ''I'' # to_upper (drop 2 s)
          else if prefix [CHR 0xC5, CHR 0xBF] s then CHR ''S'' # to_upper (drop 2 s)
          else upper_byte c # to_upper cs)"
  by pat_completeness auto
termination by (relation "measure length") auto

declare to_lower.simps [simp del] to_upper.simps [simp del]

definition ascii :: "string \<Rightarrow> bool" where
  "ascii s \<longleftrightarrow> list_all (\<lambda>c. (of_char c :: nat) < 128) s"

lemma to_lower_ascii: "ascii s \<Longrightarrow> to_lower s = map lower_byte s"
proof (induction s)
  case Nil
  then show ?case by (simp add: to_lower.simps)
next
  case (Cons c s)
  then show ?case by (subst to_lower.simps) (auto simp: ascii_def)
qed

lemma to_upper_ascii: "ascii s \<Longrightarrow> to_upper s = map upper_byte s"
proof (induction s)
  case Nil
  then show ?case by (simp add: to_upper.simps)
next
  case (Cons c s)
  then show ?case by (subst to_upper.simps) (auto simp: ascii_def)
qed

subsection \<open>Trimming\<close>

text \<open>Text whose first and last bytes are printable ASCII is already trimmed.\<close>

definition solid :: "char \<Rightarrow> bool" where
  "solid c \<longleftrightarrow> 33 \<le> (of_char c :: nat) \<and> (of_char c :: nat) < 127"

lemma space_encodings_hd: "p \<in> set space_encodings \<Longrightarrow> \<not> solid (hd p) \<and> \<not> solid (last p)"
  by (auto simp: space_encodings_def solid_def)

lemma trim_left_solid: "solid c \<Longrightarrow> trim_left (c # s) = c # s"
proof -
  assume c: "solid c"
  have "\<not> prefix p (c # s)" if "p \<in> set space_encodings" for p
    using space_encodings_hd [OF that] space_encodings_nonempty [OF that] c by (cases p) auto
  then have "find (\<lambda>p. prefix p (c # s)) space_encodings = None" by (simp add: find_None_iff)
  then show ?thesis by (simp add: trim_left.simps [of "c # s"])
qed

lemma trim_right_solid: "solid c \<Longrightarrow> trim_right (s @ [c]) = s @ [c]"
proof -
  assume c: "solid c"
  have "\<not> suffix p (s @ [c])" if "p \<in> set space_encodings" for p
    using space_encodings_hd [OF that] space_encodings_nonempty [OF that] c
    by (cases p rule: rev_cases) auto
  then have "find (\<lambda>p. suffix p (s @ [c])) space_encodings = None" by (simp add: find_None_iff)
  then show ?thesis by (simp add: trim_right.simps [of "s @ [c]"])
qed

lemma trim_nil [simp]: "trim_space [] = []"
proof -
  have "find (\<lambda>p. prefix p []) space_encodings = None" "find (\<lambda>p. suffix p []) space_encodings = None"
    using space_encodings_nonempty by (auto simp: find_None_iff)
  then show ?thesis by (simp add: trim_space_def trim_left.simps [of "[]"] trim_right.simps [of "[]"])
qed

lemma trim_space_solid:
  assumes "s \<noteq> []" "solid (hd s)" "solid (last s)"
  shows "trim_space s = s"
  using assms trim_left_solid [of "hd s" "tl s"] trim_right_solid [of "last s" "butlast s"]
  by (simp add: trim_space_def)

lemma solid_digit: "is_digit c \<Longrightarrow> solid c"
  by (simp add: solid_def is_digit_def)

lemma trim_space_show_nat [simp]: "trim_space (show_nat n) = show_nat n"
  using show_nat_digits [of n]
  by (intro trim_space_solid) (auto simp: list_all_iff intro: solid_digit)

subsection \<open>Opening a database\<close>

text \<open>Which calls succeed: \<open>sql.Open\<close>, \<open>Ping\<close>, and the statement that creates the tables.\<close>

record db_open =
  do_Open :: bool
  do_Ping :: bool
  do_Tables :: bool

definition opens :: db_open where
  "opens = \<lparr>do_Open = True, do_Ping = True, do_Tables = True\<rparr>"

subsection \<open>How a piece of Go code ends\<close>

text \<open>With a result, not (it waits for something that has not come), or with a panic.\<close>

datatype 'a outcome = Done 'a | Blocked | Panic

lemma map_outcome_Done: "map_outcome f x = Done y \<longleftrightarrow> (\<exists>z. x = Done z \<and> y = f z)"
  by (cases x) auto

lemma map_outcome_Panic [simp]: "map_outcome f x = Panic \<longleftrightarrow> x = Panic"
  by (cases x) auto

end
