(* ===== verification/Float64.thy ===== *)
theory Float64
  imports Complex_Main "HOL-Library.Log_Nat"
begin

text \<open>
  Go's \<open>float64\<close>: IEEE 754 binary64 with round-to-nearest-even, on rational numbers. A
  finite double is the rational it denotes; \<open>f64_round\<close> rounds an exact result to the
  nearest double (53 significant bits, exponents down to the subnormals), and the four
  operations round the exact operation. Infinities, NaN and the sign of zero are left out:
  the values of this program are latencies in milliseconds, bounded by \<open>2^63 / 10^6\<close>.
\<close>

type_synonym f64 = rat

definition floor_log2 :: "rat \<Rightarrow> int" where
  "floor_log2 x =
     (let (p, q) = quotient_of x; e = bitlen p - bitlen q
      in if 2 powi e \<le> x then e else e - 1)"

definition round_even :: "rat \<Rightarrow> int" where
  "round_even y =
     (let n = \<lfloor>y\<rfloor>; d = y - of_int n
      in if d < 1 / 2 then n else if 1 / 2 < d then n + 1 else if even n then n else n + 1)"

definition ulp_exp :: "rat \<Rightarrow> int" where
  "ulp_exp x = max (floor_log2 x - 52) (- 1074)"

definition round_pos :: "rat \<Rightarrow> f64" where
  "round_pos x = of_int (round_even (x / 2 powi ulp_exp x)) * 2 powi ulp_exp x"

definition f64_round :: "rat \<Rightarrow> f64" where
  "f64_round x = (if x = 0 then 0 else if x < 0 then - round_pos (- x) else round_pos x)"

definition f64_add :: "f64 \<Rightarrow> f64 \<Rightarrow> f64" where "f64_add a b = f64_round (a + b)"
definition f64_sub :: "f64 \<Rightarrow> f64 \<Rightarrow> f64" where "f64_sub a b = f64_round (a - b)"
definition f64_mul :: "f64 \<Rightarrow> f64 \<Rightarrow> f64" where "f64_mul a b = f64_round (a * b)"
definition f64_div :: "f64 \<Rightarrow> f64 \<Rightarrow> f64" where "f64_div a b = f64_round (a / b)"

text \<open>Conversion from \<open>int64\<close>.\<close>

definition f64_of_int :: "int \<Rightarrow> f64" where "f64_of_int i = f64_round (of_int i)"

subsection \<open>The binade of a number\<close>

lemma floor_log2_bounds:
  assumes "0 < x"
  shows "2 powi floor_log2 x \<le> x" and "x < 2 powi (floor_log2 x + 1)"
proof -
  obtain p q where pq: "quotient_of x = (p, q)" by (cases "quotient_of x")
  then have q: "0 < q" and x: "x = of_int p / of_int q"
    by (auto simp: quotient_of_denom_pos quotient_of_div)
  with assms have p: "0 < p" by (simp add: zero_less_divide_iff)
  have bp: "2 ^ nat (bitlen p - 1) \<le> p" "p < 2 ^ nat (bitlen p)" using bitlen_bounds [OF p] by auto
  have bq: "2 ^ nat (bitlen q - 1) \<le> q" "q < 2 ^ nat (bitlen q)" using bitlen_bounds [OF q] by auto
  have pos: "1 \<le> bitlen p" "1 \<le> bitlen q" using p q by (simp_all add: bitlen_def Suc_leI floorlog_def)
  have pw: "(2::rat) powi (e) = of_int (2 ^ nat e)" if "0 \<le> e" for e
    using that by (simp add: power_int_def)
  have lo: "2 powi (bitlen p - bitlen q - 1) \<le> x"
  proof -
    have "(2::rat) powi (bitlen p - bitlen q - 1) = 2 powi (bitlen p - 1) / 2 powi bitlen q"
      by (simp add: power_int_diff)
    also have "\<dots> \<le> of_int p / of_int q"
      using bp bq p q pos by (intro frac_le) (simp_all add: pw del: of_int_power)
    finally show ?thesis by (simp add: x)
  qed
  have hi: "x < 2 powi (bitlen p - bitlen q + 1)"
  proof -
    have "of_int p / of_int q < 2 powi bitlen p / (2::rat) powi (bitlen q - 1)"
      using bp bq p q pos by (intro frac_less) (simp_all add: pw del: of_int_power)
    also have "\<dots> = 2 powi (bitlen p - bitlen q + 1)"
      by (simp add: power_int_diff power_int_add)
    finally show ?thesis by (simp add: x)
  qed
  show "2 powi floor_log2 x \<le> x" and "x < 2 powi (floor_log2 x + 1)"
    using lo hi by (auto simp: floor_log2_def pq Let_def add.commute)
qed

lemma powi2_less: "(2::rat) powi a < 2 powi b \<longleftrightarrow> a < b"
proof -
  have less: "(2::rat) powi a < 2 powi b" if "a < b" for a b :: int
    using that by (intro power_int_strict_increasing) auto
  show ?thesis using less [of a b] less [of b a] by (cases a b rule: linorder_cases) auto
qed

lemma floor_log2_unique:
  assumes "2 powi e \<le> x" "x < 2 powi (e + 1)"
  shows "floor_log2 x = e"
proof -
  have "(0::rat) < 2 powi e" by simp
  with assms(1) have x: "0 < x" by linarith
  from floor_log2_bounds [OF x] assms
  have "(2::rat) powi floor_log2 x < 2 powi (e + 1)" "(2::rat) powi e < 2 powi (floor_log2 x + 1)"
    by linarith+
  then have "floor_log2 x < e + 1" "e < floor_log2 x + 1"
    by (simp_all add: powi2_less)
  then show ?thesis by simp
qed

lemma floor_log2_mono:
  assumes "0 < x" "x \<le> y"
  shows "floor_log2 x \<le> floor_log2 y"
proof -
  from floor_log2_bounds [of x] floor_log2_bounds [of y] assms
  have "(2::rat) powi floor_log2 x < 2 powi (floor_log2 y + 1)" by linarith
  then have "floor_log2 x < floor_log2 y + 1" by (simp add: powi2_less)
  then show ?thesis by simp
qed

lemma ulp_exp_mono: "0 < x \<Longrightarrow> x \<le> y \<Longrightarrow> ulp_exp x \<le> ulp_exp y"
  using floor_log2_mono [of x y] by (simp add: ulp_exp_def)

subsection \<open>Rounding to an integer\<close>

lemma round_even_of_int [simp]: "round_even (of_int n) = n"
  by (simp add: round_even_def)

lemma round_even_error: "\<bar>of_int (round_even y) - y\<bar> \<le> 1 / 2"
proof -
  have "of_int \<lfloor>y\<rfloor> \<le> y" "y < of_int \<lfloor>y\<rfloor> + 1" by linarith+
  then show ?thesis by (auto simp: round_even_def Let_def abs_le_iff)
qed

lemma round_even_eq:
  assumes "of_int n - 1 / 2 < y" "y < of_int n + 1 / 2"
  shows "round_even y = n"
  using round_even_error [of y] assms by linarith

lemma round_even_mono:
  assumes "x \<le> y"
  shows "round_even x \<le> round_even y"
proof (cases "\<lfloor>x\<rfloor> = \<lfloor>y\<rfloor>")
  case True
  with assms show ?thesis by (auto simp: round_even_def Let_def)
next
  case False
  with assms have "\<lfloor>x\<rfloor> + 1 \<le> \<lfloor>y\<rfloor>" using floor_mono [OF assms] by linarith
  moreover have "round_even x \<le> \<lfloor>x\<rfloor> + 1" "\<lfloor>y\<rfloor> \<le> round_even y"
    by (auto simp: round_even_def Let_def)
  ultimately show ?thesis by linarith
qed

subsection \<open>Rounding to a double\<close>

lemma power_int_quotient: "e \<le> k \<Longrightarrow> (2::rat) powi k / 2 powi e = of_int (2 ^ nat (k - e))"
  using power_int_diff [of "2::rat" k e] by (simp add: power_int_def)

lemma round_pos_ge_power:
  assumes "2 powi k \<le> x" "ulp_exp x \<le> k"
  shows "2 powi k \<le> round_pos x"
proof -
  have "(2::rat) powi k / 2 powi ulp_exp x \<le> x / 2 powi ulp_exp x"
    using assms(1) by (simp add: divide_right_mono)
  then have "2 ^ nat (k - ulp_exp x) \<le> round_even (x / 2 powi ulp_exp x)"
    using round_even_mono round_even_of_int power_int_quotient [OF assms(2)] by metis
  then have "(of_int (2 ^ nat (k - ulp_exp x)) :: rat) \<le> of_int (round_even (x / 2 powi ulp_exp x))"
    by (simp only: of_int_le_iff)
  then have "2 powi k / 2 powi ulp_exp x \<le> (of_int (round_even (x / 2 powi ulp_exp x)) :: rat)"
    by (simp only: power_int_quotient [OF assms(2)])
  then show ?thesis by (simp add: round_pos_def field_simps)
qed

lemma round_pos_le_power:
  assumes "x \<le> 2 powi k" "ulp_exp x \<le> k"
  shows "round_pos x \<le> 2 powi k"
proof -
  have "x / 2 powi ulp_exp x \<le> 2 powi k / 2 powi ulp_exp x"
    using assms(1) by (simp add: divide_right_mono)
  then have "round_even (x / 2 powi ulp_exp x) \<le> 2 ^ nat (k - ulp_exp x)"
    using round_even_mono round_even_of_int power_int_quotient [OF assms(2)] by metis
  then have "(of_int (round_even (x / 2 powi ulp_exp x)) :: rat) \<le> of_int (2 ^ nat (k - ulp_exp x))"
    by (simp only: of_int_le_iff)
  then have "(of_int (round_even (x / 2 powi ulp_exp x)) :: rat) \<le> 2 powi k / 2 powi ulp_exp x"
    by (simp only: power_int_quotient [OF assms(2)])
  then show ?thesis by (simp add: round_pos_def field_simps)
qed

lemma round_pos_mono:
  assumes "0 < x" "x \<le> y"
  shows "round_pos x \<le> round_pos y"
proof (cases "ulp_exp x = ulp_exp y")
  case True
  have "x / 2 powi ulp_exp y \<le> y / 2 powi ulp_exp y"
    using assms(2) by (simp add: divide_right_mono)
  then have "round_even (x / 2 powi ulp_exp y) \<le> round_even (y / 2 powi ulp_exp y)"
    by (rule round_even_mono)
  then show ?thesis by (simp add: round_pos_def True mult_right_mono)
next
  case False
  with ulp_exp_mono [OF assms] have lt: "ulp_exp x < ulp_exp y" by simp
  let ?k = "floor_log2 y"
  from lt have y: "ulp_exp y = ?k - 52" and x: "floor_log2 x + 1 \<le> ?k"
    by (auto simp: ulp_exp_def)
  have "x \<le> 2 powi ?k"
  proof -
    have "(2::rat) powi (floor_log2 x + 1) \<le> 2 powi ?k" using x by (intro power_int_increasing) auto
    with floor_log2_bounds(2) [OF assms(1)] show ?thesis by linarith
  qed
  then have "round_pos x \<le> 2 powi ?k" using lt y by (intro round_pos_le_power) auto
  also have "\<dots> \<le> round_pos y"
    using floor_log2_bounds(1) [of y] assms y by (intro round_pos_ge_power) auto
  finally show ?thesis .
qed

lemma round_pos_nonneg: "0 < x \<Longrightarrow> 0 \<le> round_pos x"
  using round_even_mono [of 0 "x / 2 powi ulp_exp x"] round_even_of_int [of 0]
  by (simp add: round_pos_def)

theorem f64_round_mono:
  assumes "x \<le> y"
  shows "f64_round x \<le> f64_round y"
proof -
  have "f64_round z \<le> 0" if "z \<le> 0" for z
    using that round_pos_nonneg [of "- z"] by (auto simp: f64_round_def)
  moreover have "0 \<le> f64_round z" if "0 \<le> z" for z
    using that round_pos_nonneg [of z] by (auto simp: f64_round_def)
  moreover have "f64_round x \<le> f64_round y" if "0 < x"
    using that assms round_pos_mono [of x y] by (simp add: f64_round_def)
  moreover have "f64_round x \<le> f64_round y" if "y < 0"
    using that assms round_pos_mono [of "- y" "- x"] by (simp add: f64_round_def)
  ultimately show ?thesis by (metis le_less_linear linorder_not_less order_trans)
qed

lemma f64_round_0 [simp]: "f64_round 0 = 0"
  by (simp add: f64_round_def)

lemma f64_round_nonneg: "0 \<le> x \<Longrightarrow> 0 \<le> f64_round x"
  using f64_round_mono [of 0 x] by simp

lemma powi2_shift: "(2::rat) powi k = 2 ^ 52 * 2 powi (k - 52)"
proof -
  have "(2::rat) powi 52 = 2 ^ 52" using power_int_of_nat [of "2::rat" 52] by simp
  moreover have "(2::rat) powi k = 2 powi 52 * 2 powi (k - 52)"
    using power_int_add [of "2::rat" 52 "k - 52"] by simp
  ultimately show ?thesis by simp
qed

definition min_normal :: rat where "min_normal = 2 powi (- 1022)"

lemma min_normal_pos: "0 < min_normal"
  by (simp add: min_normal_def)

lemma min_normal_binade:
  assumes "min_normal \<le> x"
  shows "- 1022 \<le> floor_log2 x"
proof -
  have x: "0 < x" using assms min_normal_pos by linarith
  from assms floor_log2_bounds(2) [OF x] have "(2::rat) powi (- 1022) < 2 powi (floor_log2 x + 1)"
    unfolding min_normal_def by linarith
  then show ?thesis unfolding powi2_less by linarith
qed

text \<open>Relative error of half an ulp on the normal range.\<close>

lemma f64_round_upper:
  assumes "min_normal \<le> x"
  shows "f64_round x \<le> x * (1 + 1 / 2 ^ 53)"
proof -
  have x: "0 < x" using assms min_normal_pos by linarith
  let ?k = "floor_log2 x"
  have "- 1022 \<le> ?k" using assms by (intro min_normal_binade) simp_all
  then have u: "ulp_exp x = ?k - 52" by (simp add: ulp_exp_def)
  have "of_int (round_even (x / 2 powi ulp_exp x)) \<le> x / 2 powi ulp_exp x + 1 / 2"
    using round_even_error [of "x / 2 powi ulp_exp x"] by linarith
  then have "round_pos x \<le> (x / 2 powi ulp_exp x + 1 / 2) * 2 powi ulp_exp x"
    by (simp add: round_pos_def mult_right_mono)
  also have "\<dots> = x + 2 powi ulp_exp x / 2" by (simp add: field_simps)
  also have "(2::rat) powi ulp_exp x / 2 = 2 powi ?k / 2 ^ 53"
    using powi2_shift [of ?k] by (simp add: u)
  also have "\<dots> \<le> x / 2 ^ 53" using floor_log2_bounds(1) [OF x] by (simp add: divide_right_mono)
  finally show ?thesis using x by (simp add: f64_round_def field_simps)
qed

text \<open>A double is its own rounding, and a value less than half an ulp above it rounds down.\<close>

definition is_f64 :: "rat \<Rightarrow> bool" where
  "is_f64 x \<longleftrightarrow> f64_round x = x"

lemma f64_round_below_half_ulp:
  assumes "is_f64 m" "min_normal \<le> m" "x < m + m / 2 ^ 54"
  shows "f64_round x \<le> m"
proof (cases "x \<le> m")
  case True
  then show ?thesis using f64_round_mono [of x m] assms(1) by (simp add: is_f64_def)
next
  case False
  have m: "0 < m" using assms min_normal_pos by linarith
  let ?k = "floor_log2 m" and ?e = "ulp_exp m"
  have "- 1022 \<le> ?k" using assms by (intro min_normal_binade) simp_all
  then have u: "?e = ?k - 52" by (simp add: ulp_exp_def)
  obtain n where n: "n = round_even (m / 2 powi ?e)" by simp
  from assms(1) m have mn: "m = of_int n * 2 powi ?e"
    by (simp add: is_f64_def f64_round_def round_pos_def n)
  have ku: "(2::rat) powi (?k + 1) = 2 ^ 53 * 2 powi ?e"
    using powi2_shift [of ?k] by (simp add: u power_int_add)
  from floor_log2_bounds(2) [OF m] have "of_int n * 2 powi ?e < 2 ^ 53 * (2::rat) powi ?e"
    by (simp only: mn [symmetric] ku)
  then have "(of_int n :: rat) < 2 ^ 53" by simp
  then have n53: "n < 2 ^ 53" by (metis of_int_less_iff of_int_numeral of_int_power)
  have half: "m / 2 ^ 54 < 2 powi ?e / 2"
    using floor_log2_bounds(2) [OF m] by (simp add: ku)
  with assms(3) have x_lt: "x < m + 2 powi ?e / 2" by linarith
  have "(of_int n + 1 :: rat) \<le> 2 ^ 53"
    using n53 by (metis add1_zle_eq of_int_1 of_int_add of_int_le_iff of_int_numeral of_int_power)
  then have "(of_int n + 1) * 2 powi ?e \<le> 2 ^ 53 * (2::rat) powi ?e" by (simp add: mult_right_mono)
  then have "m + 2 powi ?e \<le> 2 ^ 53 * (2::rat) powi ?e"
    by (simp only: distrib_right mn [symmetric] mult_1)
  moreover have "(0::rat) < 2 powi ?e" by simp
  ultimately have "x < 2 powi (?k + 1)" using x_lt unfolding ku by linarith
  moreover have "2 powi ?k \<le> x" using floor_log2_bounds(1) [OF m] False by linarith
  ultimately have "floor_log2 x = ?k" by (intro floor_log2_unique)
  then have ux: "ulp_exp x = ?e" by (simp add: ulp_exp_def)
  have "of_int n < x / 2 powi ?e" "x / 2 powi ?e < of_int n + 1 / 2"
    using False x_lt mn by (simp_all add: field_simps)
  then have "round_even (x / 2 powi ?e) = n" by (intro round_even_eq) simp_all
  then have "f64_round x = m" using m False by (simp add: f64_round_def round_pos_def ux mn [symmetric])
  then show ?thesis by simp
qed

lemma f64_round_exact:
  assumes "0 \<le> n" "n < 2 ^ 53" "- 1074 \<le> k"
  shows "f64_round (of_int n * 2 powi k) = of_int n * 2 powi k"
proof (cases "n = 0")
  case False
  let ?x = "of_int n * 2 powi k :: rat"
  from False assms(1) have x: "0 < ?x" by simp
  have n53: "(of_int n :: rat) < 2 ^ 53"
    using assms(2) by (metis of_int_less_iff of_int_numeral of_int_power)
  have "(2::rat) powi (53 + k) = 2 ^ 53 * 2 powi k"
    using power_int_of_nat [of "2::rat" 53] by (simp add: power_int_add)
  with n53 have "?x < 2 powi (53 + k)" by simp
  with floor_log2_bounds(1) [OF x] have "(2::rat) powi floor_log2 ?x < 2 powi (53 + k)" by linarith
  then have e: "ulp_exp ?x \<le> k" using assms(3) unfolding powi2_less by (simp add: ulp_exp_def)
  have "?x / 2 powi ulp_exp ?x = of_int (n * 2 ^ nat (k - ulp_exp ?x))"
    by (simp only: of_int_mult power_int_quotient [OF e, symmetric]) simp
  then have "round_even (?x / 2 powi ulp_exp ?x) = n * 2 ^ nat (k - ulp_exp ?x)"
    by (simp only: round_even_of_int)
  then have "round_pos ?x = of_int n * (of_int (2 ^ nat (k - ulp_exp ?x)) * 2 powi ulp_exp ?x)"
    by (simp add: round_pos_def)
  also have "\<dots> = ?x" by (simp only: power_int_quotient [OF e, symmetric]) simp
  finally show ?thesis using x by (simp add: f64_round_def)
qed simp

lemma round_pos_is_f64: "0 < x \<Longrightarrow> is_f64 (round_pos x)"
proof -
  assume x: "0 < x"
  let ?e = "ulp_exp x" and ?n = "round_even (x / 2 powi ulp_exp x)"
  have e: "- 1074 \<le> ?e" "floor_log2 x - 52 \<le> ?e" by (simp_all add: ulp_exp_def)
  have n0: "0 \<le> ?n" using round_even_mono [of 0 "x / 2 powi ?e"] round_even_of_int [of 0] x by simp
  have "(2::rat) powi (floor_log2 x + 1) \<le> 2 powi (53 + ?e)"
    using e by (intro power_int_increasing) auto
  also have "\<dots> = 2 ^ 53 * 2 powi ?e"
    using power_int_of_nat [of "2::rat" 53] by (simp add: power_int_add)
  finally have "x / 2 powi ?e \<le> of_int (2 ^ 53)"
    using floor_log2_bounds(2) [OF x] by (simp add: field_simps)
  then have n53: "?n \<le> 2 ^ 53" using round_even_mono round_even_of_int by metis
  show "is_f64 (round_pos x)"
  proof (cases "?n = 2 ^ 53")
    case False
    with n0 n53 e show ?thesis
      using f64_round_exact [of ?n ?e] by (simp add: is_f64_def round_pos_def)
  next
    case True
    then have "round_pos x = of_int (2 ^ 52) * 2 powi (?e + 1)"
      by (simp add: round_pos_def power_int_add)
    then show ?thesis using f64_round_exact [of "2 ^ 52" "?e + 1"] e by (simp add: is_f64_def)
  qed
qed

lemma is_f64_uminus: "is_f64 (- x) \<longleftrightarrow> is_f64 x"
  by (auto simp: is_f64_def f64_round_def)

theorem f64_round_idem [simp]: "is_f64 (f64_round x)"
  using round_pos_is_f64 [of x] round_pos_is_f64 [of "- x"]
  by (auto simp: f64_round_def is_f64_uminus) (simp add: is_f64_def)

lemma f64_of_int_exact [simp]: "0 \<le> n \<Longrightarrow> n < 2 ^ 53 \<Longrightarrow> f64_of_int n = of_int n"
  using f64_round_exact [of n 0] by (simp add: f64_of_int_def)

lemma f64_mul_power2:
  assumes "0 \<le> n" "n < 2 ^ 53"
  shows "f64_mul (of_int n) (2 ^ k) = of_int n * 2 ^ k"
  using f64_round_exact [of n "int k"] assms by (simp add: f64_mul_def power_int_of_nat)

end
