(* ===== verification/Config.thy ===== *)
theory Config
  imports Prelude Float64
begin

text \<open>
  \<open>internal/config/config.go\<close>: the configuration tree, the defaults, the validation and the
  size parser. Reading the file and decoding YAML are arguments of \<open>load\<close>. Durations are
  \<open>int64\<close> nanoseconds. \<open>strconv.ParseFloat\<close> is the argument \<open>pf\<close> of the size parser;
  \<open>parses_decimals\<close> states its documented behaviour on plain decimal integers.
\<close>

type_synonym endpoints = "string list"

record tracing_config =
  trc_Enabled :: bool
  trc_Endpoint :: string
  trc_SampleRate :: f64

record storage_config =
  LogDriver :: string
  PostgresDSN :: string
  sto_RedisURL :: string

record cache_config =
  cch_Enabled :: bool
  cch_RedisURL :: string
  cch_TTL :: int
  MaxEntrySize :: string

record server_config =
  srv_Listen :: string
  GRPCListen :: string
  P2PListen :: string
  TLSCert :: string
  TLSKey :: string
  ReadTimeout :: int
  WriteTimeout :: int
  MaxBodySize :: string

record backends_config =
  CelestiaAppRPC :: endpoints
  CelestiaNodeRPC :: endpoints
  CelestiaNodeArchivalRPC :: endpoints
  CelestiaAppArchivalRPC :: endpoints
  CelestiaAppGRPC :: endpoints
  CelestiaAppP2P :: endpoints
  PruningWindow :: int
  HealthCheckInterval :: int

record token_config =
  tkc_Token :: string
  tkc_Name :: string
  tkc_Enabled :: bool
  tkc_RateLimit :: int
  tkc_AllowedMethods :: "string list"

record admin_config =
  adm_Listen :: string
  Username :: string
  PasswordHash :: string
  CORSOrigins :: "string list"
  LogBufferSize :: int
  LogRetentionDays :: int
  LogDBPath :: string

record logging_config =
  Level :: string
  Format :: string

record metrics_config =
  met_Listen :: string
  met_Enabled :: "bool option"

record config =
  Server :: server_config
  Backends :: backends_config
  Tokens :: "token_config list"
  Admin :: admin_config
  Logging :: logging_config
  Metrics :: metrics_config
  CacheCfg :: cache_config
  Storage :: storage_config
  Tracing :: tracing_config

definition endpoints_First :: "endpoints \<Rightarrow> string" where
  "endpoints_First e = (if length e = 0 then [] else e ! 0)"

text \<open>\<open>UnmarshalYAML\<close>: a scalar is a one-element list; the two decoders are the YAML library's.\<close>

definition endpoints_UnmarshalYAML ::
  "string result \<Rightarrow> string list result \<Rightarrow> endpoints result" where
  "endpoints_UnmarshalYAML as_string as_list =
     (case as_string of
        Inr single \<Rightarrow> Inr [single]
      | Inl _ \<Rightarrow> (case as_list of Inl e \<Rightarrow> Inl e | Inr xs \<Rightarrow> Inr xs))"

definition metrics_IsEnabled :: "metrics_config \<Rightarrow> bool" where
  "metrics_IsEnabled m = (case met_Enabled m of None \<Rightarrow> True | Some b \<Rightarrow> b)"

subsection \<open>Sizes\<close>

text \<open>\<open>int64(x)\<close> truncates towards zero; out of range the result is the processor's
  indefinite integer.\<close>

definition f64_to_int64 :: "f64 \<Rightarrow> int" where
  "f64_to_int64 x =
     (let t = (if x < 0 then - \<lfloor>- x\<rfloor> else \<lfloor>x\<rfloor>)
      in if in_int64 t then t else min_int64)"

definition orderedSuffixes :: "(string \<times> int) list" where
  "orderedSuffixes = [(''GB'', 1073741824), (''MB'', 1048576), (''KB'', 1024), (''B'', 1)]"

fun parse_with_suffix ::
  "(string \<Rightarrow> f64 option) \<Rightarrow> string \<Rightarrow> (string \<times> int) list \<Rightarrow> int result option" where
  "parse_with_suffix pf s [] = None"
| "parse_with_suffix pf s ((suf, mult) # rest) =
     (if suffix suf s then
        (let numStr = trim_space (trim_suffix s suf)
         in case pf numStr of
              None \<Rightarrow> Some (Inl ''invalid size number'')
            | Some num \<Rightarrow> Some (Inr (f64_to_int64 (f64_mul num (f64_of_int mult)))))
      else parse_with_suffix pf s rest)"

definition parseSize :: "(string \<Rightarrow> f64 option) \<Rightarrow> string \<Rightarrow> int result" where
  "parseSize pf s0 =
     (let s1 = trim_space s0
      in if s1 = [] then Inl ''empty size string''
         else
           (let s = to_upper s1
            in case parse_with_suffix pf s orderedSuffixes of
                 Some r \<Rightarrow> r
               | None \<Rightarrow>
                   (case parse_int_opt s of
                      None \<Rightarrow> Inl ''invalid size: must end with B, KB, MB, or GB''
                    | Some num \<Rightarrow> Inr num)))"

definition MaxEntrySizeBytes :: "(string \<Rightarrow> f64 option) \<Rightarrow> cache_config \<Rightarrow> int result" where
  "MaxEntrySizeBytes pf c =
     (if MaxEntrySize c = [] then Inr (5 * 1024 * 1024) else parseSize pf (MaxEntrySize c))"

definition MaxBodySizeBytes :: "(string \<Rightarrow> f64 option) \<Rightarrow> server_config \<Rightarrow> int result" where
  "MaxBodySizeBytes pf s = parseSize pf (MaxBodySize s)"

subsection \<open>Validation, defaults, loading\<close>

fun validate_tokens :: "nat \<Rightarrow> token_config list \<Rightarrow> string option" where
  "validate_tokens i [] = None"
| "validate_tokens i (t # ts) =
     (if tkc_Token t = [] then Some (''token['' @ show_nat i @ '']: token value is required'')
      else if tkc_Name t = [] then Some (''token['' @ show_nat i @ '']: name is required'')
      else validate_tokens (Suc i) ts)"

definition validLevels :: "string list" where
  "validLevels = [''debug'', ''info'', ''warn'', ''error'']"

definition validFormats :: "string list" where
  "validFormats = [''json'', ''console'']"

text \<open>\<open>None\<close> is Go's nil error.\<close>

definition config_Validate :: "(string \<Rightarrow> f64 option) \<Rightarrow> config \<Rightarrow> string option" where
  "config_Validate pf c =
     (if length (Tokens c) = 0 then Some ''at least one token must be configured''
      else case validate_tokens 0 (Tokens c) of
        Some e \<Rightarrow> Some e
      | None \<Rightarrow>
          (if srv_Listen (Server c) = [] then Some ''server.listen is required''
           else if length (CelestiaAppRPC (Backends c)) = 0
             then Some ''backends.celestia_app_rpc is required''
           else if length (CelestiaNodeRPC (Backends c)) = 0
             then Some ''backends.celestia_node_rpc is required''
           else case MaxBodySizeBytes pf (Server c) of
             Inl e \<Rightarrow> Some (''server.max_body_size: '' @ e)
           | Inr _ \<Rightarrow>
               (if Level (Logging c) \<notin> set validLevels
                then Some ''logging.level must be one of: debug, info, warn, error''
                else if Format (Logging c) \<notin> set validFormats
                then Some ''logging.format must be one of: json, console''
                else None)))"

definition second :: int where "second = 1000000000"

definition default_str :: "string \<Rightarrow> string \<Rightarrow> string" where
  "default_str d s = (if s = [] then d else s)"

definition default_int :: "int \<Rightarrow> int \<Rightarrow> int" where
  "default_int d i = (if i = 0 then d else i)"

definition applyDefaults :: "config \<Rightarrow> config" where
  "applyDefaults c =
     c\<lparr>Server := (Server c)
         \<lparr>srv_Listen := default_str '':443'' (srv_Listen (Server c)),
          ReadTimeout := default_int (30 * second) (ReadTimeout (Server c)),
          WriteTimeout := default_int (30 * second) (WriteTimeout (Server c)),
          MaxBodySize := default_str ''10MB'' (MaxBodySize (Server c)),
          GRPCListen := default_str '':9090'' (GRPCListen (Server c)),
          P2PListen := default_str '':26656'' (P2PListen (Server c))\<rparr>,
       Backends := (Backends c)
         \<lparr>CelestiaAppRPC := (if length (CelestiaAppRPC (Backends c)) = 0
             then [''http://127.0.0.1:26657''] else CelestiaAppRPC (Backends c)),
          CelestiaNodeRPC := (if length (CelestiaNodeRPC (Backends c)) = 0
             then [''http://127.0.0.1:26658''] else CelestiaNodeRPC (Backends c)),
          HealthCheckInterval := default_int (30 * second) (HealthCheckInterval (Backends c))\<rparr>,
       Admin := (Admin c)
         \<lparr>adm_Listen := default_str '':8080'' (adm_Listen (Admin c)),
          LogBufferSize := default_int 100000 (LogBufferSize (Admin c)),
          LogRetentionDays := default_int 30 (LogRetentionDays (Admin c)),
          LogDBPath := default_str ''data/logs.db'' (LogDBPath (Admin c))\<rparr>,
       Logging := (Logging c)
         \<lparr>Level := default_str ''info'' (Level (Logging c)),
          Format := default_str ''json'' (Format (Logging c))\<rparr>,
       Metrics := (Metrics c)\<lparr>met_Listen := default_str '':9191'' (met_Listen (Metrics c))\<rparr>\<rparr>"

definition load ::
  "(string \<Rightarrow> f64 option) \<Rightarrow> (string \<Rightarrow> string result) \<Rightarrow> (string \<Rightarrow> config result) \<Rightarrow> string \<Rightarrow> config result" where
  "load pf read_file yaml_unmarshal path =
     (case read_file path of
        Inl e \<Rightarrow> Inl (''reading config file: '' @ e)
      | Inr data \<Rightarrow>
          (case yaml_unmarshal data of
             Inl e \<Rightarrow> Inl (''parsing config file: '' @ e)
           | Inr cfg0 \<Rightarrow>
               (let cfg = applyDefaults cfg0
                in case config_Validate pf cfg of
                     Some e \<Rightarrow> Inl (''validating config: '' @ e)
                   | None \<Rightarrow> Inr cfg)))"

definition ResolveConfigPath :: "(string \<Rightarrow> string) \<Rightarrow> string \<Rightarrow> string" where
  "ResolveConfigPath getenv flagValue =
     (if flagValue \<noteq> [] then flagValue
      else let envVal = getenv ''DA_PROXY_CONFIG''
           in if envVal \<noteq> [] then envVal else ''/etc/da-proxy/config.yaml'')"

subsection \<open>Lemmas\<close>

lemma default_str_simps [simp]:
  "default_str d (default_str d s) = default_str d s" "default_str d [] = d"
  "s \<noteq> [] \<Longrightarrow> default_str d s = s" "d \<noteq> [] \<Longrightarrow> default_str d s \<noteq> []"
  by (auto simp: default_str_def)

lemma default_int_simps [simp]:
  "default_int d (default_int d i) = default_int d i" "default_int d 0 = d" "i \<noteq> 0 \<Longrightarrow> default_int d i = i"
  by (auto simp: default_int_def)

lemma applyDefaults_fields [simp]:
  "Tokens (applyDefaults c) = Tokens c"
  "srv_Listen (Server (applyDefaults c)) \<noteq> []"
  "CelestiaAppRPC (Backends (applyDefaults c)) \<noteq> []"
  "CelestiaNodeRPC (Backends (applyDefaults c)) \<noteq> []"
  "MaxBodySize (Server (applyDefaults c)) = default_str ''10MB'' (MaxBodySize (Server c))"
  "Level (Logging (applyDefaults c)) = default_str ''info'' (Level (Logging c))"
  "Format (Logging (applyDefaults c)) = default_str ''json'' (Format (Logging c))"
  by (simp_all add: applyDefaults_def)

lemma validate_tokens_None:
  "validate_tokens i ts = None \<longleftrightarrow> (\<forall>t \<in> set ts. tkc_Token t \<noteq> [] \<and> tkc_Name t \<noteq> [])"
  by (induction ts arbitrary: i) auto

definition parses_decimals :: "(string \<Rightarrow> f64 option) \<Rightarrow> bool" where
  "parses_decimals pf \<longleftrightarrow> (\<forall>n. n < 2 ^ 53 \<longrightarrow> pf (show_nat n) = Some (of_nat n))"

text \<open>A concrete reader with this behaviour, for the witnesses.\<close>

definition decimal_reader :: "string \<Rightarrow> f64 option" where
  "decimal_reader s = (if s \<noteq> [] \<and> list_all is_digit s then Some (of_nat (digits_val s)) else None)"

lemma decimal_reader_ok: "parses_decimals decimal_reader"
  by (simp add: parses_decimals_def decimal_reader_def)

lemma f64_to_int64_nat: "int n \<le> max_int64 \<Longrightarrow> f64_to_int64 (of_nat n) = int n"
  by (simp add: f64_to_int64_def in_int64_def min_int64_def)

definition upper_letter :: "char \<Rightarrow> bool" where
  "upper_letter c \<longleftrightarrow> 65 \<le> (of_char c :: nat) \<and> (of_char c :: nat) \<le> 90"

lemma upper_digits_letters:
  assumes "list_all upper_letter u"
  shows "to_upper (show_nat n @ u) = show_nat n @ u"
proof -
  have "upper_byte c = c" if "is_digit c \<or> upper_letter c" for c
    using that by (auto simp: upper_byte_def is_digit_def upper_letter_def)
  moreover have "ascii (show_nat n @ u)"
    using assms show_nat_digits [of n]
    by (auto simp: ascii_def list_all_iff is_digit_def upper_letter_def)
  ultimately show ?thesis
    using assms show_nat_digits [of n]
    by (simp add: to_upper_ascii map_idI list_all_iff)
qed

lemma trim_digits_letters:
  assumes "list_all upper_letter u"
  shows "trim_space (show_nat n @ u) = show_nat n @ u"
proof (rule trim_space_solid)
  have "solid c" if "is_digit c \<or> upper_letter c" for c
    using that by (auto simp: solid_def is_digit_def upper_letter_def)
  moreover have "c \<in> set (show_nat n @ u) \<Longrightarrow> is_digit c \<or> upper_letter c" for c
    using assms show_nat_digits [of n] by (auto simp: list_all_iff)
  ultimately have all: "c \<in> set (show_nat n @ u) \<Longrightarrow> solid c" for c by blast
  show "show_nat n @ u \<noteq> []" by simp
  then show "solid (hd (show_nat n @ u))" "solid (last (show_nat n @ u))"
    using all hd_in_set last_in_set by blast+
qed

lemma digits_not_suffix:
  "\<not> suffix (a @ [c]) (show_nat n)" if "\<not> is_digit c"
  using that show_nat_digits [of n]
  by (auto simp: suffix_def list_all_iff dest!: arg_cong [where f = set])

lemma suffix_same_length: "length a = length b \<Longrightarrow> suffix a (s @ b) \<longleftrightarrow> a = b"
  by (auto simp: suffix_def)

definition unit_mult :: "string \<Rightarrow> int \<Rightarrow> bool" where
  "unit_mult u m \<longleftrightarrow> (u, m) \<in> set orderedSuffixes"

lemma unit_cases:
  "unit_mult u m \<Longrightarrow>
     (u = ''GB'' \<and> m = 2 ^ 30) \<or> (u = ''MB'' \<and> m = 2 ^ 20) \<or> (u = ''KB'' \<and> m = 2 ^ 10) \<or> (u = ''B'' \<and> m = 2 ^ 0)"
  by (auto simp: unit_mult_def orderedSuffixes_def)

lemma suffix_single: "suffix [a, b] (s @ [c]) \<longleftrightarrow> b = c \<and> suffix [a] s"
  by (auto simp: suffix_def Cons_eq_append_conv append_eq_append_conv2 append_eq_Cons_conv)

lemma parse_with_suffix_unit:
  assumes "unit_mult u m"
  shows "parse_with_suffix pf (show_nat n @ u) orderedSuffixes =
    Some (case pf (show_nat n) of
            None \<Rightarrow> Inl ''invalid size number''
          | Some num \<Rightarrow> Inr (f64_to_int64 (f64_mul num (f64_of_int m))))"
proof -
  have d: "\<not> suffix [c] (show_nat n)" if "\<not> is_digit c" for c
    using digits_not_suffix [OF that, of "[]"] by simp
  have nd: "\<not> is_digit (CHR ''G'')" "\<not> is_digit (CHR ''M'')" "\<not> is_digit (CHR ''K'')"
    by (simp_all add: is_digit_def)
  have t: "trim_suffix (show_nat n @ v) v = show_nat n" for v by (simp add: trim_suffix_def suffix_def)
  from unit_cases [OF assms] show ?thesis
    by (elim disjE) (auto simp: orderedSuffixes_def suffix_same_length suffix_single d nd t Let_def
        split: option.splits)
qed

text \<open>A size written as a decimal number and a unit denotes the number times the unit's
  power of 1024, in every notation the configuration accepts, as long as it fits 53 bits and
  the product fits \<open>int64\<close>; the longest-suffix-first order of the table is what makes "KB",
  "MB" and "GB" not be read as bytes.\<close>

theorem parseSize_units:
  assumes "parses_decimals pf" "unit_mult u m" "n < 2 ^ 53" "int n * m \<le> max_int64"
  shows "parseSize pf (show_nat n @ u) = Inr (int n * m)"
proof -
  have up: "list_all upper_letter u" and m: "f64_of_int m = of_int m"
    using unit_cases [OF assms(2)] by (auto simp: upper_letter_def)
  obtain k where mk: "m = 2 ^ k" using unit_cases [OF assms(2)] by blast
  have "pf (show_nat n) = Some (of_nat n)" using assms(1,3) by (simp add: parses_decimals_def)
  moreover have "f64_mul (of_nat n) (f64_of_int m) = of_nat (n * 2 ^ k)"
    using f64_mul_power2 [of "int n" k] assms(3) m mk by simp
  moreover have "f64_to_int64 (of_nat (n * 2 ^ k)) = int (n * 2 ^ k)"
    using assms(4) mk by (intro f64_to_int64_nat) simp
  ultimately show ?thesis
    using trim_digits_letters [OF up] upper_digits_letters [OF up]
      parse_with_suffix_unit [OF assms(2)] mk
    by (simp add: parseSize_def Let_def)
qed

theorem parseSize_units_witness: "parseSize decimal_reader (show_nat 10 @ ''MB'') = Inr 10485760"
  using parseSize_units [OF decimal_reader_ok, of "''MB''" 1048576 10]
  by (simp add: unit_mult_def orderedSuffixes_def max_int64_def)

text \<open>After the defaults, validation accepts exactly the configurations with at least one
  token, a value and a name for each, a readable body limit, and a known log level and
  format; the listen address and the two mandatory backends can no longer be what fails.\<close>

theorem validate_after_defaults:
  "config_Validate pf (applyDefaults c) = None \<longleftrightarrow>
     Tokens c \<noteq> [] \<and> list_all (\<lambda>t. tkc_Token t \<noteq> [] \<and> tkc_Name t \<noteq> []) (Tokens c) \<and>
     (\<exists>n. parseSize pf (default_str ''10MB'' (MaxBodySize (Server c))) = Inr n) \<and>
     default_str ''info'' (Level (Logging c)) \<in> set validLevels \<and>
     default_str ''json'' (Format (Logging c)) \<in> set validFormats"
proof -
  let ?size = "parseSize pf (default_str ''10MB'' (MaxBodySize (Server c)))"
  have "config_Validate pf (applyDefaults c) =
      (if Tokens c = [] then Some ''at least one token must be configured''
       else case validate_tokens 0 (Tokens c) of
         Some e \<Rightarrow> Some e
       | None \<Rightarrow> (case ?size of
           Inl e \<Rightarrow> Some (''server.max_body_size: '' @ e)
         | Inr _ \<Rightarrow>
             (if default_str ''info'' (Level (Logging c)) \<notin> set validLevels
              then Some ''logging.level must be one of: debug, info, warn, error''
              else if default_str ''json'' (Format (Logging c)) \<notin> set validFormats
              then Some ''logging.format must be one of: json, console'' else None)))"
    by (simp add: config_Validate_def MaxBodySizeBytes_def cong: if_cong option.case_cong sum.case_cong)
  then show ?thesis
    using validate_tokens_None [of 0 "Tokens c"]
    by (cases "validate_tokens 0 (Tokens c)"; cases ?size) (simp_all add: list_all_iff)
qed

lemma applyDefaults_idem: "applyDefaults (applyDefaults c) = applyDefaults c"
  by (simp add: applyDefaults_def)

end
