(* ===== verification/Token.thy ===== *)
theory Token
  imports Config
begin

text \<open>
  \<open>internal/auth/token.go\<close>: token metadata, expiry, the method check of a token (scope, then
  allowlist), the \<open>TokenStore\<close> interface as a locale, and the store filled from the
  configuration. Times are nanoseconds on the wall clock, read once per operation and passed in.
\<close>

record token_info =
  ti_Name :: string
  ti_Enabled :: bool
  ti_RateLimit :: int
  ti_Scope :: string
  ti_AllowedMethods :: "string list"
  ti_ExpiresAt :: "int option"

definition IsExpired :: "int \<Rightarrow> token_info \<Rightarrow> bool" where
  "IsExpired now t = (case ti_ExpiresAt t of None \<Rightarrow> False | Some e \<Rightarrow> e < now)"

definition writeMethods :: "string list" where
  "writeMethods =
     [''broadcast_tx_sync'', ''broadcast_tx_async'', ''broadcast_tx_commit'', ''blob.Submit'',
      ''state.SubmitTx'', ''state.Transfer'', ''state.SubmitPayForBlob'',
      ''state.CancelUnbondingDelegation'', ''state.BeginRedelegate'', ''state.Undelegate'',
      ''state.Delegate'']"

definition isScopeAllowed :: "string \<Rightarrow> string \<Rightarrow> bool" where
  "isScopeAllowed scope method =
     (if scope = ''read-only'' then method \<notin> set writeMethods else True)"

text \<open>The loop over the allowlist.\<close>

fun method_listed :: "string list \<Rightarrow> string \<Rightarrow> bool" where
  "method_listed [] method = False"
| "method_listed (m # ms) method =
     (if m = method then True
      else if suffix ''.*'' m \<and> prefix (trim_suffix m ''*'') method then True
      else method_listed ms method)"

definition IsMethodAllowed :: "token_info \<Rightarrow> string \<Rightarrow> bool" where
  "IsMethodAllowed t method =
     (if \<not> isScopeAllowed (ti_Scope t) method then False
      else if length (ti_AllowedMethods t) = 0 then True
      else method_listed (ti_AllowedMethods t) method)"

type_synonym memory_store = "string \<rightharpoonup> token_info"

definition token_of_config :: "token_config \<Rightarrow> token_info" where
  "token_of_config t =
     \<lparr>ti_Name = tkc_Name t, ti_Enabled = tkc_Enabled t, ti_RateLimit = tkc_RateLimit t, ti_Scope = [],
      ti_AllowedMethods = tkc_AllowedMethods t, ti_ExpiresAt = None\<rparr>"

definition NewMemoryTokenStore :: "token_config list \<Rightarrow> memory_store" where
  "NewMemoryTokenStore tokens = fold (\<lambda>t m. m(tkc_Token t \<mapsto> token_of_config t)) tokens Map.empty"

definition memory_Lookup :: "memory_store \<Rightarrow> string \<Rightarrow> token_info option" where
  "memory_Lookup s token = s token"

subsection \<open>The method check\<close>

lemma wildcard_iff:
  "suffix ''.*'' m \<and> prefix (trim_suffix m ''*'') method \<longleftrightarrow>
     (\<exists>ns. m = ns @ ''.*'' \<and> prefix (ns @ ''.'') method)"
proof
  assume l: "suffix ''.*'' m \<and> prefix (trim_suffix m ''*'') method"
  then obtain ns where m: "m = ns @ ''.*''" by (auto simp: suffix_def)
  moreover have "suffix ''*'' m" unfolding m suffix_def by (rule exI [of _ "ns @ ''.''"]) simp
  ultimately have "trim_suffix m ''*'' = ns @ ''.''" by (simp add: trim_suffix_def)
  with l m show "\<exists>ns. m = ns @ ''.*'' \<and> prefix (ns @ ''.'') method" by auto
next
  assume "\<exists>ns. m = ns @ ''.*'' \<and> prefix (ns @ ''.'') method"
  then obtain ns where m: "m = ns @ ''.*''" "prefix (ns @ ''.'') method" by blast
  have "suffix ''*'' m" unfolding m suffix_def by (rule exI [of _ "ns @ ''.''"]) simp
  with m show "suffix ''.*'' m \<and> prefix (trim_suffix m ''*'') method"
    by (simp add: trim_suffix_def suffix_def)
qed

lemma method_listed_iff:
  "method_listed ms method \<longleftrightarrow> method \<in> set ms \<or> (\<exists>ns. ns @ ''.*'' \<in> set ms \<and> prefix (ns @ ''.'') method)"
proof (induction ms)
  case (Cons m ms)
  then show ?case using wildcard_iff [of m] by (auto split: if_splits)
qed simp

text \<open>A method is allowed exactly when it is not a write method of a read-only token, and the
  allowlist is empty, names it, or holds a wildcard \<open>ns.*\<close> whose namespace and dot start it. A
  wildcard does not reach a namespace it is only a prefix of.\<close>

theorem method_allowed_iff:
  "IsMethodAllowed t method \<longleftrightarrow>
     \<not> (ti_Scope t = ''read-only'' \<and> method \<in> set writeMethods)
     \<and> (ti_AllowedMethods t = [] \<or> method \<in> set (ti_AllowedMethods t)
        \<or> (\<exists>ns. ns @ ''.*'' \<in> set (ti_AllowedMethods t) \<and> prefix (ns @ ''.'') method))"
  by (simp add: IsMethodAllowed_def isScopeAllowed_def method_listed_iff)

subsection \<open>The store of the configuration\<close>

lemma memory_store_lookup:
  "fold (\<lambda>t m. m(tkc_Token t \<mapsto> token_of_config t)) tokens m k =
     (case find (\<lambda>t. tkc_Token t = k) (rev tokens) of Some t \<Rightarrow> Some (token_of_config t) | None \<Rightarrow> m k)"
  by (induction tokens rule: rev_induct) simp_all

text \<open>
  The \<open>TokenStore\<close> interface: a lookup answers from the store's contents, which it does not
  change. The environment argument is what an implementation may depend on besides its state
  (the clock, whether the database answers).
\<close>

locale token_lookup =
  fixes ok :: "'s \<Rightarrow> bool"
    and lookup :: "'e \<Rightarrow> string \<Rightarrow> 's \<Rightarrow> token_info option \<times> 's"
    and known :: "'s \<Rightarrow> string \<Rightarrow> token_info option"
  assumes lookup_known: "ok s \<Longrightarrow> fst (lookup e t s) = known s t"
    and lookup_ok: "ok s \<Longrightarrow> ok (snd (lookup e t s))"
    and known_lookup: "ok s \<Longrightarrow> known (snd (lookup e t s)) t' = known s t'"
begin

lemma lookups_ok: "ok s \<Longrightarrow> ok (fold (\<lambda>(e, t) s. snd (lookup e t s)) qs s)"
  by (induction qs arbitrary: s) (auto simp: lookup_ok)

lemma lookups_known:
  "ok s \<Longrightarrow> fst (lookup e t (fold (\<lambda>(e, t) s. snd (lookup e t s)) qs s)) = known s t"
proof (induction qs arbitrary: s)
  case Nil
  then show ?case by (simp add: lookup_known)
next
  case (Cons q qs)
  then show ?case by (cases q) (simp add: lookup_ok known_lookup)
qed

end

definition memory_lookup :: "unit \<Rightarrow> string \<Rightarrow> memory_store \<Rightarrow> token_info option \<times> memory_store" where
  "memory_lookup e t s = (memory_Lookup s t, s)"

interpretation mem: token_lookup "\<lambda>_. True" memory_lookup memory_Lookup
  by unfold_locales (simp_all add: memory_lookup_def)

text \<open>With distinct token values every lookup in the store of the
  configuration returns exactly the entry configured for that value; config tokens carry no scope
  and never expire, so only their allowlist limits them.\<close>

theorem memory_store_exact:
  assumes "distinct (map tkc_Token tokens)"
  shows "fst (memory_lookup () k (NewMemoryTokenStore tokens)) =
      map_option token_of_config (find (\<lambda>t. tkc_Token t = k) tokens)
    \<and> (\<forall>t \<in> set tokens. \<not> IsExpired now (token_of_config t)
          \<and> (tkc_AllowedMethods t = [] \<longrightarrow> IsMethodAllowed (token_of_config t) m))"
proof -
  have "find (\<lambda>t. tkc_Token t = k) (rev tokens) = find (\<lambda>t. tkc_Token t = k) tokens"
    using assms
  proof (induction tokens)
    case (Cons t tokens)
    have "find (\<lambda>t. tkc_Token t = k) (xs @ [t]) =
        (case find (\<lambda>t. tkc_Token t = k) xs of None \<Rightarrow> if tkc_Token t = k then Some t else None | Some u \<Rightarrow> Some u)" for xs
      by (induction xs) auto
    moreover have "find (\<lambda>u. tkc_Token u = tkc_Token t) tokens = None"
      using Cons.prems by (simp add: find_None_iff image_iff) metis
    ultimately show ?case using Cons by (auto split: option.splits)
  qed simp
  then have "fst (memory_lookup () k (NewMemoryTokenStore tokens)) =
      map_option token_of_config (find (\<lambda>t. tkc_Token t = k) tokens)"
    by (simp add: memory_lookup_def memory_Lookup_def NewMemoryTokenStore_def memory_store_lookup split: option.split)
  then show ?thesis by (simp add: token_of_config_def IsExpired_def IsMethodAllowed_def isScopeAllowed_def)
qed

theorem memory_store_exact_witness:
  "fst (memory_lookup () ''s3cret'' (NewMemoryTokenStore
      [\<lparr>tkc_Token = ''abc'', tkc_Name = ''a'', tkc_Enabled = True, tkc_RateLimit = 0, tkc_AllowedMethods = []\<rparr>,
       \<lparr>tkc_Token = ''s3cret'', tkc_Name = ''b'', tkc_Enabled = False, tkc_RateLimit = 5, tkc_AllowedMethods = [''blob.*'']\<rparr>]))
   = Some \<lparr>ti_Name = ''b'', ti_Enabled = False, ti_RateLimit = 5, ti_Scope = [], ti_AllowedMethods = [''blob.*''], ti_ExpiresAt = None\<rparr>"
  by (subst memory_store_exact [THEN conjunct1]) (simp_all add: token_of_config_def)

end
