(* ===== verification/Http.thy ===== *)
theory Http
  imports Token
begin

text \<open>
  What the middleware and the handlers use of \<open>net/http\<close> and echo: headers under their canonical
  names, the request and response of one exchange with echo's context values, and handlers as
  functions on the shared state and that context. A nil request body is \<open>None\<close>. Header names are written the way
  \<open>textproto.CanonicalMIMEHeaderKey\<close> spells them. \<open>context_keys.go\<close>'s keys are the \<open>cv_\<close> fields.
\<close>

type_synonym headers = "string \<rightharpoonup> string list"

definition hdr_get :: "headers \<Rightarrow> string \<Rightarrow> string" where
  "hdr_get h k = (case h k of Some (v # _) \<Rightarrow> v | _ \<Rightarrow> [])"

definition hdr_set :: "headers \<Rightarrow> string \<Rightarrow> string \<Rightarrow> headers" where
  "hdr_set h k v = h(k \<mapsto> [v])"

definition hdr_add :: "headers \<Rightarrow> string \<Rightarrow> string \<Rightarrow> headers" where
  "hdr_add h k v = h(k \<mapsto> (case h k of Some vs \<Rightarrow> vs | None \<Rightarrow> []) @ [v])"

lemma hdr_get_set [simp]: "hdr_get (hdr_set h k v) k' = (if k' = k then v else hdr_get h k')"
  by (simp add: hdr_get_def hdr_set_def)

lemma hdr_set_apply [simp]: "hdr_set h k v k' = (if k' = k then Some [v] else h k')"
  by (simp add: hdr_set_def)

record ctx =
  rq_Path :: string
  rq_RawPath :: string
  rq_RawQuery :: string
  rq_Header :: headers
  rq_Body :: "string option"
  rq_BodyFails :: bool
  rq_ContentLength :: int
  rq_RealIP :: string
  cv_RequestID :: "string option"
  cv_TokenName :: "string option"
  cv_RateLimit :: "int option"
  cv_Backend :: "string option"
  cv_RPCMethod :: "string option"
  cv_TokenInfo :: "token_info option"
  rs_Header :: headers
  rs_Status :: int
  rs_Body :: string
  rs_Committed :: bool

datatype herror = HTTPError int string | PlainError string

type_synonym 's handler = "'s \<Rightarrow> ctx \<Rightarrow> herror option \<times> ctx \<times> 's"

text \<open>Echo's \<open>Response.WriteHeader\<close>, \<open>Write\<close> and \<open>Header().Set\<close>.\<close>

definition write_header :: "int \<Rightarrow> ctx \<Rightarrow> ctx" where
  "write_header code c = (if rs_Committed c then c else c\<lparr>rs_Status := code, rs_Committed := True\<rparr>)"

definition write_body :: "string \<Rightarrow> ctx \<Rightarrow> ctx" where
  "write_body b c =
     (let c' = (if rs_Committed c then c else write_header (if rs_Status c = 0 then 200 else rs_Status c) c)
      in c'\<lparr>rs_Body := rs_Body c' @ b\<rparr>)"

definition set_resp_header :: "string \<Rightarrow> string \<Rightarrow> ctx \<Rightarrow> ctx" where
  "set_resp_header k v c = c\<lparr>rs_Header := hdr_set (rs_Header c) k v\<rparr>"

definition rs_Size :: "ctx \<Rightarrow> int" where "rs_Size c = int (length (rs_Body c))"

text \<open>A fresh exchange: echo starts with status 200 and an empty response.\<close>

definition new_ctx :: "string \<Rightarrow> string \<Rightarrow> headers \<Rightarrow> string \<Rightarrow> string \<Rightarrow> ctx" where
  "new_ctx path query hdr body ip =
     \<lparr>rq_Path = path, rq_RawPath = [], rq_RawQuery = query, rq_Header = hdr, rq_Body = Some body, rq_BodyFails = False,
      rq_ContentLength = int (length body), rq_RealIP = ip, cv_RequestID = None, cv_TokenName = None,
      cv_RateLimit = None, cv_Backend = None, cv_RPCMethod = None, cv_TokenInfo = None,
      rs_Header = Map.empty, rs_Status = 200, rs_Body = [], rs_Committed = False\<rparr>"

text \<open>Echo's default error handler: the client sees the error's code unless a response has begun.\<close>

definition client_status :: "herror option \<times> ctx \<times> 's \<Rightarrow> int" where
  "client_status r =
     (case r of (err, c, _) \<Rightarrow>
        (case err of
           None \<Rightarrow> rs_Status c
         | Some (HTTPError code _) \<Rightarrow> if rs_Committed c then rs_Status c else code
         | Some (PlainError _) \<Rightarrow> if rs_Committed c then rs_Status c else 500))"

end
