(* ===== verification/TokenStore.thy ===== *)
theory TokenStore
  imports Token
begin

text \<open>
  \<open>internal/auth/store.go\<close>: the token table and its cache.

  The SQLite table is the list of its rows in rowid order with its AUTOINCREMENT counter; the
  statements the source issues are functions on it, the UNIQUE constraint on the hash included.
  SHA-256 is the argument \<open>H\<close>: the theorems hold for any function, and say where they need two
  hashes to differ. Each operation gets an \<open>env\<close>: the clock, the 20 random bytes (or the failure to
  get them), and whether its query, its statement and the reload of the cache succeed.
\<close>

record token_row =
  tr_id :: int
  tr_hash :: string
  tr_prefix :: string
  tr_name :: string
  tr_enabled :: bool
  tr_rate :: int
  tr_scope :: string
  tr_methods :: string
  tr_expires :: "int option"
  tr_created :: int
  tr_updated :: int

record token_db =
  db_rows :: "token_row list"
  db_seq :: int

record token_store =
  ts_db :: token_db
  ts_cache :: "string \<rightharpoonup> token_info"
  ts_cacheTTL :: int
  ts_lastLoad :: int

record env =
  env_now :: int
  env_random :: "string option"
  env_query :: bool
  env_exec :: bool
  env_load :: bool

record token =
  tk_ID :: int
  tk_Name :: string
  tk_Prefix :: string
  tk_Enabled :: bool
  tk_RateLimit :: int
  tk_Scope :: string
  tk_AllowedMethods :: "string list"
  tk_ExpiresAt :: "int option"
  tk_CreatedAt :: int
  tk_UpdatedAt :: int

record create_request =
  cr_Name :: string
  cr_Enabled :: "bool option"
  cr_RateLimit :: int
  cr_Scope :: string
  cr_AllowedMethods :: "string list"
  cr_ExpiresAt :: "int option"

text \<open>\<open>up_AllowedMethods\<close> is \<open>None\<close> for a nil slice; an empty slice is \<open>Some []\<close>.\<close>

record update_request =
  up_Name :: "string option"
  up_Enabled :: "bool option"
  up_RateLimit :: "int option"
  up_Scope :: "string option"
  up_AllowedMethods :: "string list option"
  up_ExpiresAt :: "int option"

definition ValidScopes :: "string list" where
  "ValidScopes = [''read-only'', ''write'', ''admin'', '''']"

subsection \<open>Token values\<close>

definition hex_digit :: "nat \<Rightarrow> char" where
  "hex_digit n = ''0123456789abcdef'' ! n"

definition hex_encode :: "string \<Rightarrow> string" where
  "hex_encode bs = concat (map (\<lambda>c. [hex_digit (of_char c div 16), hex_digit (of_char c mod 16)]) bs)"

definition hashToken :: "(string \<Rightarrow> string) \<Rightarrow> string \<Rightarrow> string" where
  "hashToken H token = hex_encode (H token)"

definition generateToken :: "env \<Rightarrow> string option" where
  "generateToken e = map_option hex_encode (env_random e)"

definition stored_methods :: "string \<Rightarrow> string list" where
  "stored_methods s = (if s \<noteq> [] then split_on (CHR '','') s else [])"

subsection \<open>Statements on the table\<close>

definition db_insert :: "token_row \<Rightarrow> token_db \<Rightarrow> token_db option" where
  "db_insert row db =
     (if list_ex (\<lambda>r. tr_hash r = tr_hash row) (db_rows db) then None
      else Some \<lparr>db_rows = db_rows db @ [row\<lparr>tr_id := db_seq db + 1\<rparr>], db_seq = db_seq db + 1\<rparr>)"

definition db_update :: "int \<Rightarrow> (token_row \<Rightarrow> token_row) \<Rightarrow> token_db \<Rightarrow> token_db" where
  "db_update i f db = db\<lparr>db_rows := map (\<lambda>r. if tr_id r = i then f r else r) (db_rows db)\<rparr>"

definition db_delete :: "int \<Rightarrow> token_db \<Rightarrow> token_db" where
  "db_delete i db = db\<lparr>db_rows := filter (\<lambda>r. tr_id r \<noteq> i) (db_rows db)\<rparr>"

definition db_get :: "int \<Rightarrow> token_db \<Rightarrow> token_row option" where
  "db_get i db = find (\<lambda>r. tr_id r = i) (db_rows db)"

text \<open>A new hash in a row must not be that of another row.\<close>

definition hash_clash :: "int \<Rightarrow> string \<Rightarrow> token_db \<Rightarrow> bool" where
  "hash_clash i h db = list_ex (\<lambda>r. tr_id r \<noteq> i \<and> tr_hash r = h) (db_rows db)"

subsection \<open>The store's operations\<close>

definition info_of_row :: "token_row \<Rightarrow> token_info" where
  "info_of_row r =
     \<lparr>ti_Name = tr_name r, ti_Enabled = tr_enabled r, ti_RateLimit = tr_rate r, ti_Scope = tr_scope r,
      ti_AllowedMethods = stored_methods (tr_methods r), ti_ExpiresAt = tr_expires r\<rparr>"

definition scanToken :: "token_row \<Rightarrow> token" where
  "scanToken r =
     \<lparr>tk_ID = tr_id r, tk_Name = tr_name r, tk_Prefix = tr_prefix r, tk_Enabled = tr_enabled r,
      tk_RateLimit = tr_rate r, tk_Scope = tr_scope r, tk_AllowedMethods = stored_methods (tr_methods r),
      tk_ExpiresAt = tr_expires r, tk_CreatedAt = tr_created r, tk_UpdatedAt = tr_updated r\<rparr>"

definition cache_of :: "token_db \<Rightarrow> string \<rightharpoonup> token_info" where
  "cache_of db = fold (\<lambda>r m. m(tr_hash r \<mapsto> info_of_row r)) (db_rows db) Map.empty"

definition loadCache :: "env \<Rightarrow> token_store \<Rightarrow> string option \<times> token_store" where
  "loadCache e s =
     (if env_load e then (None, s\<lparr>ts_cache := cache_of (ts_db s), ts_lastLoad := env_now e\<rparr>)
      else (Some ''loading token cache'', s))"

definition createTable :: "db_open \<Rightarrow> string option" where
  "createTable o1 = (if do_Tables o1 then None else Some ''exec'')"

text \<open>\<open>db\<close> is the table the file holds once it exists.\<close>

definition NewSQLiteTokenStore :: "db_open \<Rightarrow> env \<Rightarrow> token_db \<Rightarrow> int \<Rightarrow> token_store result" where
  "NewSQLiteTokenStore o1 e db ttl =
     (if \<not> do_Open o1 then Inl ''opening token database''
      else if \<not> do_Ping o1 then Inl ''connecting to token database''
      else case createTable o1 of
        Some err \<Rightarrow> Inl err
      | None \<Rightarrow>
          (case loadCache e \<lparr>ts_db = db, ts_cache = Map.empty, ts_cacheTTL = ttl, ts_lastLoad = 0\<rparr> of
             (Some err, _) \<Rightarrow> Inl err
           | (None, s) \<Rightarrow> Inr s))"

definition sqlite_Lookup :: "(string \<Rightarrow> string) \<Rightarrow> env \<Rightarrow> string \<Rightarrow> token_store \<Rightarrow> token_info option \<times> token_store" where
  "sqlite_Lookup H e token s =
     (let hash = hashToken H token;
          stale = (ts_cacheTTL s < env_now e - ts_lastLoad s);
          info = ts_cache s hash
      in if stale then (let s' = snd (loadCache e s) in (ts_cache s' hash, s'))
         else (info, s))"

definition store_Create ::
  "(string \<Rightarrow> string) \<Rightarrow> env \<Rightarrow> create_request \<Rightarrow> token_store \<Rightarrow> (token \<times> string) result \<times> token_store" where
  "store_Create H e req s =
     (case generateToken e of
        None \<Rightarrow> (Inl ''generating token'', s)
      | Some plaintext \<Rightarrow>
          (let hash = hashToken H plaintext;
               prefix = take 8 plaintext;
               enabled = (case cr_Enabled req of Some b \<Rightarrow> b | None \<Rightarrow> True);
               scope = (if cr_Scope req = [] then ''write'' else cr_Scope req);
               methods = join_with '','' (cr_AllowedMethods req);
               now = env_now e;
               row = \<lparr>tr_id = 0, tr_hash = hash, tr_prefix = prefix, tr_name = cr_Name req,
                      tr_enabled = enabled, tr_rate = cr_RateLimit req, tr_scope = scope,
                      tr_methods = methods, tr_expires = cr_ExpiresAt req, tr_created = now, tr_updated = now\<rparr>
           in case (if env_exec e then db_insert row (ts_db s) else None) of
                None \<Rightarrow> (Inl ''inserting token'', s)
              | Some db \<Rightarrow>
                  (Inr (\<lparr>tk_ID = db_seq db, tk_Name = cr_Name req, tk_Prefix = prefix, tk_Enabled = enabled,
                         tk_RateLimit = cr_RateLimit req, tk_Scope = scope,
                         tk_AllowedMethods = cr_AllowedMethods req, tk_ExpiresAt = cr_ExpiresAt req,
                         tk_CreatedAt = now, tk_UpdatedAt = now\<rparr>, plaintext),
                   snd (loadCache e (s\<lparr>ts_db := db\<rparr>)))))"

definition store_Get :: "env \<Rightarrow> int \<Rightarrow> token_store \<Rightarrow> token option result" where
  "store_Get e i s =
     (if \<not> env_query e then Inl ''query'' else Inr (map_option scanToken (db_get i (ts_db s))))"

text \<open>\<open>ORDER BY created_at DESC\<close>; rows of one instant in the order of the table.\<close>

definition store_List :: "env \<Rightarrow> token_store \<Rightarrow> token list result" where
  "store_List e s =
     (if \<not> env_query e then Inl ''query''
      else Inr (map scanToken (sort_key (\<lambda>r. - tr_created r) (db_rows (ts_db s)))))"

definition apply_update :: "update_request \<Rightarrow> token \<Rightarrow> token" where
  "apply_update req t =
     t\<lparr>tk_Name := (case up_Name req of Some n \<Rightarrow> n | None \<Rightarrow> tk_Name t),
       tk_Enabled := (case up_Enabled req of Some b \<Rightarrow> b | None \<Rightarrow> tk_Enabled t),
       tk_RateLimit := (case up_RateLimit req of Some l \<Rightarrow> l | None \<Rightarrow> tk_RateLimit t),
       tk_Scope := (case up_Scope req of Some c \<Rightarrow> c | None \<Rightarrow> tk_Scope t),
       tk_AllowedMethods := (case up_AllowedMethods req of Some ms \<Rightarrow> ms | None \<Rightarrow> tk_AllowedMethods t),
       tk_ExpiresAt := (case up_ExpiresAt req of Some x \<Rightarrow> Some x | None \<Rightarrow> tk_ExpiresAt t)\<rparr>"

definition store_Update :: "env \<Rightarrow> int \<Rightarrow> update_request \<Rightarrow> token_store \<Rightarrow> token option result \<times> token_store" where
  "store_Update e i req s =
     (case store_Get e i s of
        Inl err \<Rightarrow> (Inl err, s)
      | Inr None \<Rightarrow> (Inr None, s)
      | Inr (Some old) \<Rightarrow>
          (let existing = apply_update req old;
               methods = join_with '','' (tk_AllowedMethods existing);
               now = env_now e
           in if \<not> env_exec e then (Inl ''exec'', s)
              else
                (Inr (Some (existing\<lparr>tk_UpdatedAt := now\<rparr>)),
                 snd (loadCache e (s\<lparr>ts_db := db_update i (\<lambda>r. r\<lparr>tr_name := tk_Name existing,
                   tr_enabled := tk_Enabled existing, tr_rate := tk_RateLimit existing,
                   tr_scope := tk_Scope existing, tr_methods := methods,
                   tr_expires := tk_ExpiresAt existing, tr_updated := now\<rparr>) (ts_db s)\<rparr>)))))"

definition store_Delete :: "env \<Rightarrow> int \<Rightarrow> token_store \<Rightarrow> string option \<times> token_store" where
  "store_Delete e i s =
     (if \<not> env_exec e then (Some ''exec'', s)
      else let affected = length (filter (\<lambda>r. tr_id r = i) (db_rows (ts_db s)))
           in if affected = 0 then (Some ''token not found'', s)
              else (None, snd (loadCache e (s\<lparr>ts_db := db_delete i (ts_db s)\<rparr>))))"

definition store_Rotate ::
  "(string \<Rightarrow> string) \<Rightarrow> env \<Rightarrow> int \<Rightarrow> token_store \<Rightarrow> (token \<times> string) result \<times> token_store" where
  "store_Rotate H e i s =
     (case store_Get e i s of
        Inl err \<Rightarrow> (Inl err, s)
      | Inr None \<Rightarrow> (Inl ''token not found'', s)
      | Inr (Some existing) \<Rightarrow>
          (case generateToken e of
             None \<Rightarrow> (Inl ''generating new token'', s)
           | Some plaintext \<Rightarrow>
               (let hash = hashToken H plaintext;
                    prefix = take 8 plaintext;
                    now = env_now e
                in if \<not> env_exec e \<or> hash_clash i hash (ts_db s) then (Inl ''exec'', s)
                   else
                     (Inr (existing\<lparr>tk_Prefix := prefix, tk_UpdatedAt := now\<rparr>, plaintext),
                      snd (loadCache e (s\<lparr>ts_db := db_update i (\<lambda>r. r\<lparr>tr_hash := hash,
                        tr_prefix := prefix, tr_updated := now\<rparr>) (ts_db s)\<rparr>))))))"

text \<open>
  The loop of the migration: rows inserted so far, the table, and the error that stopped it. The
  query and the insertion of the \<open>k\<close>-th token succeed or not by the environment \<open>e k\<close>.
\<close>

definition migrated_row :: "(string \<Rightarrow> string) \<Rightarrow> int \<Rightarrow> token_config \<Rightarrow> token_row" where
  "migrated_row H now t =
     \<lparr>tr_id = 0, tr_hash = hashToken H (tkc_Token t), tr_prefix = take 8 (tkc_Token t),
      tr_name = tkc_Name t, tr_enabled = tkc_Enabled t, tr_rate = tkc_RateLimit t,
      tr_scope = [], tr_methods = join_with '','' (tkc_AllowedMethods t),
      tr_expires = None, tr_created = now, tr_updated = now\<rparr>"

fun migrate_loop ::
  "(string \<Rightarrow> string) \<Rightarrow> (nat \<Rightarrow> env) \<Rightarrow> nat \<Rightarrow> token_config list \<Rightarrow> nat \<Rightarrow> token_db \<Rightarrow> nat \<times> token_db \<times> string option" where
  "migrate_loop H e k [] imported db = (imported, db, None)"
| "migrate_loop H e k (t # ts) imported db =
     (if \<not> env_query (e k) then (imported, db, Some ''query'')
      else if 0 < length (filter (\<lambda>r. tr_name r = tkc_Name t) (db_rows db))
      then migrate_loop H e (Suc k) ts imported db
      else case (if env_exec (e k) then db_insert (migrated_row H (env_now (e k)) t) db else None) of
                None \<Rightarrow> (imported, db, Some ''exec'')
              | Some db' \<Rightarrow> migrate_loop H e (Suc k) ts (Suc imported) db')"

definition MigrateConfigTokens ::
  "(string \<Rightarrow> string) \<Rightarrow> (nat \<Rightarrow> env) \<Rightarrow> env \<Rightarrow> token_config list \<Rightarrow> token_store \<Rightarrow> (nat \<times> string option) \<times> token_store" where
  "MigrateConfigTokens H e el tokens s =
     (case migrate_loop H e 0 tokens 0 (ts_db s) of
        (imported, db, Some err) \<Rightarrow> ((imported, Some err), s\<lparr>ts_db := db\<rparr>)
      | (imported, db, None) \<Rightarrow>
          ((imported, None),
           if 0 < imported then snd (loadCache el (s\<lparr>ts_db := db\<rparr>)) else s\<lparr>ts_db := db\<rparr>))"

text \<open>The two counts; a query that fails leaves its variable 0.\<close>

definition TokenCount :: "env \<Rightarrow> token_store \<Rightarrow> nat \<times> nat" where
  "TokenCount e s =
     (if env_query e then
        (length (db_rows (ts_db s)), length (filter tr_enabled (db_rows (ts_db s))))
      else (0, 0))"

subsection \<open>The table's invariant and the coherence of the cache\<close>

definition db_wf :: "token_db \<Rightarrow> bool" where
  "db_wf db \<longleftrightarrow> distinct (map tr_id (db_rows db)) \<and> distinct (map tr_hash (db_rows db))
     \<and> (\<forall>r \<in> set (db_rows db). tr_id r \<le> db_seq db)"

definition row_with_hash :: "string \<Rightarrow> token_db \<Rightarrow> token_row option" where
  "row_with_hash h db = find (\<lambda>r. tr_hash r = h) (db_rows db)"

lemma find_cases:
  "find P xs = None \<longleftrightarrow> (\<forall>x \<in> set xs. \<not> P x)"
  "find P xs = Some y \<Longrightarrow> y \<in> set xs \<and> P y"
  by (auto simp: find_None_iff find_Some_iff)

lemma distinct_inj: "distinct (map f xs) \<Longrightarrow> x \<in> set xs \<Longrightarrow> y \<in> set xs \<Longrightarrow> f x = f y \<Longrightarrow> x = y"
  by (auto simp: distinct_map inj_on_def)

lemma db_wf_unique:
  assumes "db_wf db" "x \<in> set (db_rows db)" "y \<in> set (db_rows db)"
  shows "tr_id x = tr_id y \<Longrightarrow> x = y" "tr_hash x = tr_hash y \<Longrightarrow> x = y"
  using assms distinct_inj [of tr_id "db_rows db" x y] distinct_inj [of tr_hash "db_rows db" x y]
  by (simp_all add: db_wf_def)

lemma row_with_hash_iff:
  "db_wf db \<Longrightarrow> row_with_hash h db = Some r \<longleftrightarrow> r \<in> set (db_rows db) \<and> tr_hash r = h"
  unfolding row_with_hash_def db_wf_def
  by (cases "find (\<lambda>r. tr_hash r = h) (db_rows db)")
    (auto dest: find_cases(2) distinct_inj [of tr_hash] simp: find_cases(1))

lemma db_get_iff:
  "db_wf db \<Longrightarrow> db_get i db = Some r \<longleftrightarrow> r \<in> set (db_rows db) \<and> tr_id r = i"
  unfolding db_get_def db_wf_def
  by (cases "find (\<lambda>r. tr_id r = i) (db_rows db)")
    (auto dest: find_cases(2) distinct_inj [of tr_id] simp: find_cases(1))

lemma cache_fold:
  "fold (\<lambda>r m. m(tr_hash r \<mapsto> info_of_row r)) rows m h =
     (case find (\<lambda>r. tr_hash r = h) (rev rows) of Some r \<Rightarrow> Some (info_of_row r) | None \<Rightarrow> m h)"
  by (induction rows rule: rev_induct) simp_all

lemma cache_of_row: "db_wf db \<Longrightarrow> cache_of db h = map_option info_of_row (row_with_hash h db)"
proof -
  assume wf: "db_wf db"
  have "find (\<lambda>r. tr_hash r = h) (rev (db_rows db)) = row_with_hash h db"
  proof (cases "row_with_hash h db")
    case None
    then have "\<forall>r \<in> set (rev (db_rows db)). tr_hash r \<noteq> h" by (simp add: row_with_hash_def find_cases(1))
    then have "find (\<lambda>r. tr_hash r = h) (rev (db_rows db)) = None" by (simp only: find_cases(1))
    with None show ?thesis by simp
  next
    case (Some r)
    then have r: "r \<in> set (db_rows db)" "tr_hash r = h" using row_with_hash_iff [OF wf] by blast+
    then obtain r' where r': "find (\<lambda>r. tr_hash r = h) (rev (db_rows db)) = Some r'"
      using find_cases(1) [of "\<lambda>r. tr_hash r = h" "rev (db_rows db)"] by (cases "find (\<lambda>r. tr_hash r = h) (rev (db_rows db))") auto
    with r find_cases(2) [OF r'] wf distinct_inj [of tr_hash "db_rows db"] Some show ?thesis
      by (auto simp: db_wf_def)
  qed
  then show ?thesis by (simp add: cache_of_def cache_fold split: option.split)
qed

definition coherent :: "token_store \<Rightarrow> bool" where
  "coherent s \<longleftrightarrow> db_wf (ts_db s) \<and> ts_cache s = cache_of (ts_db s)"

text \<open>What the table says about a token value.\<close>

definition stored :: "(string \<Rightarrow> string) \<Rightarrow> token_store \<Rightarrow> string \<Rightarrow> token_info option" where
  "stored H s token = map_option info_of_row (row_with_hash (hashToken H token) (ts_db s))"

lemma loadCache_frame [simp]: "ts_db (snd (loadCache e s)) = ts_db s"
  by (simp add: loadCache_def)

lemma loadCache_coherent: "env_load e \<Longrightarrow> db_wf (ts_db s) \<Longrightarrow> coherent (snd (loadCache e s))"
  by (simp add: loadCache_def coherent_def)

lemma loadCache_keeps: "coherent s \<Longrightarrow> coherent (snd (loadCache e s))"
  by (simp add: loadCache_def coherent_def)

lemma Lookup_coherent:
  assumes "coherent s"
  shows "fst (sqlite_Lookup H e t s) = stored H s t" "coherent (snd (sqlite_Lookup H e t s))"
    "ts_db (snd (sqlite_Lookup H e t s)) = ts_db s"
proof -
  have c: "ts_cache s' = cache_of (ts_db s)" if "coherent s'" "ts_db s' = ts_db s" for s'
    using that by (simp add: coherent_def)
  show "fst (sqlite_Lookup H e t s) = stored H s t"
    using assms c [of "snd (loadCache e s)"] loadCache_keeps [OF assms, of e]
    by (auto simp: sqlite_Lookup_def Let_def stored_def coherent_def cache_of_row)
  show "coherent (snd (sqlite_Lookup H e t s))" "ts_db (snd (sqlite_Lookup H e t s)) = ts_db s"
    using assms loadCache_keeps [OF assms] by (auto simp: sqlite_Lookup_def Let_def)
qed

interpretation sql: token_lookup coherent "sqlite_Lookup H" "stored H" for H
  by unfold_locales (simp_all add: Lookup_coherent stored_def)

subsubsection \<open>Every operation keeps the table well formed\<close>

lemma db_insert_wf: "db_wf db \<Longrightarrow> db_insert row db = Some db' \<Longrightarrow> db_wf db'"
  by (fastforce simp: db_insert_def db_wf_def list_ex_iff split: if_splits)

lemma db_delete_wf: "db_wf db \<Longrightarrow> db_wf (db_delete i db)"
  by (auto simp: db_delete_def db_wf_def distinct_map_filter)

lemma db_update_wf:
  assumes "db_wf db" "\<And>r. tr_id (f r) = tr_id r"
    "\<And>r. r \<in> set (db_rows db) \<Longrightarrow> tr_id r = i \<Longrightarrow> \<not> hash_clash i (tr_hash (f r)) db"
  shows "db_wf (db_update i f db)"
proof -
  let ?g = "\<lambda>r. if tr_id r = i then f r else r"
  have ids: "tr_id \<circ> ?g = tr_id" using assms(2) by (intro ext) simp
  have "inj_on (\<lambda>r. tr_hash (?g r)) (set (db_rows db))"
  proof (rule inj_onI)
    fix x y assume xy: "x \<in> set (db_rows db)" "y \<in> set (db_rows db)" "tr_hash (?g x) = tr_hash (?g y)"
    have inj: "tr_id x = tr_id y \<Longrightarrow> x = y" "tr_hash x = tr_hash y \<Longrightarrow> x = y"
      using assms(1) xy(1,2) distinct_inj by (auto simp: db_wf_def)
    from xy assms(3) [of x] assms(3) [of y] inj show "x = y"
      by (cases "tr_id x = i"; cases "tr_id y = i") (auto simp: hash_clash_def list_ex_iff)
  qed
  moreover have "distinct (db_rows db)" using assms(1) by (auto simp: db_wf_def distinct_map)
  ultimately have "distinct (map tr_hash (map ?g (db_rows db)))" by (simp add: distinct_map o_def comp_inj_on)
  with assms(1,2) show ?thesis by (auto simp: db_wf_def db_update_def ids)
qed

lemma db_update_same_hash:
  "db_wf db \<Longrightarrow> (\<And>r. tr_id (f r) = tr_id r) \<Longrightarrow> (\<And>r. tr_hash (f r) = tr_hash r) \<Longrightarrow> db_wf (db_update i f db)"
  by (rule db_update_wf) (auto simp: hash_clash_def list_ex_iff db_wf_def dest: distinct_inj [of tr_hash])

lemma Get_Some:
  assumes "store_Get e i s = Inr (Some t)"
  obtains r where "db_get i (ts_db s) = Some r" "t = scanToken r"
  using assms by (auto simp: store_Get_def split: if_splits)

lemma Create_cases:
  assumes "store_Create H e req s = (Inr (tk, plaintext), s')"
  obtains db row where "generateToken e = Some plaintext" "db_insert row (ts_db s) = Some db"
    "tr_hash row = hashToken H plaintext" "tr_prefix row = take 8 plaintext" "tr_name row = cr_Name req"
    "tr_enabled row = (case cr_Enabled req of Some b \<Rightarrow> b | None \<Rightarrow> True)" "tr_rate row = cr_RateLimit req"
    "tr_scope row = (if cr_Scope req = [] then ''write'' else cr_Scope req)"
    "tr_methods row = join_with '','' (cr_AllowedMethods req)" "tr_expires row = cr_ExpiresAt req"
    "s' = snd (loadCache e (s\<lparr>ts_db := db\<rparr>))" "tk_ID tk = db_seq db"
  using assms by (fastforce simp: store_Create_def Let_def split: option.splits if_splits)

lemma Create_wf: "db_wf (ts_db s) \<Longrightarrow> db_wf (ts_db (snd (store_Create H e req s)))"
  by (auto simp: store_Create_def Let_def db_insert_wf split: option.splits)

lemma Update_wf: "db_wf (ts_db s) \<Longrightarrow> db_wf (ts_db (snd (store_Update e i req s)))"
  by (auto simp: store_Update_def Let_def db_update_same_hash split: sum.splits option.splits)

lemma Delete_wf: "db_wf (ts_db s) \<Longrightarrow> db_wf (ts_db (snd (store_Delete e i s)))"
  by (auto simp: store_Delete_def Let_def db_delete_wf)

lemma Rotate_wf: "db_wf (ts_db s) \<Longrightarrow> db_wf (ts_db (snd (store_Rotate H e i s)))"
  by (auto simp: store_Rotate_def Let_def split: sum.splits option.splits intro!: db_update_wf)

lemma migrate_wf: "db_wf db \<Longrightarrow> migrate_loop H e k ts n db = (n', db', err) \<Longrightarrow> db_wf db'"
  by (induction H e k ts n db rule: migrate_loop.induct)
    (auto simp: Let_def split: if_splits option.splits dest: db_insert_wf)

lemma Migrate_wf: "db_wf (ts_db s) \<Longrightarrow> db_wf (ts_db (snd (MigrateConfigTokens H e el ts s)))"
  by (auto simp: MigrateConfigTokens_def split: prod.splits option.splits dest: migrate_wf)

subsection \<open>Runs\<close>

datatype store_op =
    SoCreate env create_request
  | SoUpdate env int update_request
  | SoDelete env int
  | SoRotate env int
  | SoMigrate "nat \<Rightarrow> env" env "token_config list"
  | SoLookup env string

fun store_step :: "(string \<Rightarrow> string) \<Rightarrow> store_op \<Rightarrow> token_store \<Rightarrow> token_store" where
  "store_step H (SoCreate e req) s = snd (store_Create H e req s)"
| "store_step H (SoUpdate e i req) s = snd (store_Update e i req s)"
| "store_step H (SoDelete e i) s = snd (store_Delete e i s)"
| "store_step H (SoRotate e i) s = snd (store_Rotate H e i s)"
| "store_step H (SoMigrate e el ts) s = snd (MigrateConfigTokens H e el ts s)"
| "store_step H (SoLookup e t) s = snd (sqlite_Lookup H e t s)"

text \<open>The cache reloads after a change; a migration that stops at an error does not reload.\<close>

fun reloads :: "(string \<Rightarrow> string) \<Rightarrow> token_store \<Rightarrow> store_op \<Rightarrow> bool" where
  "reloads H s (SoCreate e req) = env_load e"
| "reloads H s (SoUpdate e i req) = env_load e"
| "reloads H s (SoDelete e i) = env_load e"
| "reloads H s (SoRotate e i) = env_load e"
| "reloads H s (SoMigrate e el ts) = (env_load el \<and> snd (fst (MigrateConfigTokens H e el ts s)) = None)"
| "reloads H s (SoLookup e t) = True"

fun reloads_all :: "(string \<Rightarrow> string) \<Rightarrow> store_op list \<Rightarrow> token_store \<Rightarrow> bool" where
  "reloads_all H [] s = True"
| "reloads_all H (op # ops) s = (reloads H s op \<and> reloads_all H ops (store_step H op s))"

lemma migrate_none_imported:
  "migrate_loop H e k ts n db = (n', db', err) \<Longrightarrow> n \<le> n' \<and> (n' = n \<longrightarrow> db' = db)"
  by (induction H e k ts n db rule: migrate_loop.induct)
    (fastforce split: if_splits option.splits)+

lemma store_step_coherent:
  assumes "coherent s" "reloads H s op"
  shows "coherent (store_step H op s)"
proof (cases op)
  case (SoMigrate e el ts)
  obtain n db err where m: "migrate_loop H e 0 ts 0 (ts_db s) = (n, db, err)" by (metis prod_cases3)
  have "err = None" using assms(2) SoMigrate m by (simp add: MigrateConfigTokens_def split: option.splits)
  moreover have "db_wf db" using migrate_wf [OF _ m] assms(1) by (simp add: coherent_def)
  moreover have "n = 0 \<longrightarrow> db = ts_db s" using migrate_none_imported [OF m] by simp
  ultimately show ?thesis using SoMigrate m assms
    by (auto simp: MigrateConfigTokens_def intro: loadCache_coherent)
next
  case (SoLookup e t)
  then show ?thesis using Lookup_coherent(2) [OF assms(1)] by simp
next
  case (SoCreate e req)
  then show ?thesis using assms Create_wf [of s H e req] loadCache_coherent [of e]
    by (auto simp: store_Create_def Let_def coherent_def split: option.splits)
next
  case (SoUpdate e i req)
  then show ?thesis using assms Update_wf [of s e i req] loadCache_coherent [of e]
    by (auto simp: store_Update_def Let_def coherent_def split: sum.splits option.splits)
next
  case (SoDelete e i)
  then show ?thesis using assms Delete_wf [of s e i] loadCache_coherent [of e]
    by (auto simp: store_Delete_def Let_def coherent_def split: if_splits)
next
  case (SoRotate e i)
  then show ?thesis using assms Rotate_wf [of s H e i] loadCache_coherent [of e]
    by (auto simp: store_Rotate_def Let_def coherent_def split: sum.splits option.splits if_splits)
qed

lemma store_run_coherent:
  "coherent s \<Longrightarrow> reloads_all H ops s \<Longrightarrow> coherent (fold (store_step H) ops s)"
  by (induction ops arbitrary: s) (simp_all add: store_step_coherent)

text \<open>C10: As long as only this process writes the table and its reloads succeed, a lookup after any
  sequence of operations answers exactly what the table holds at that moment, whatever the age of
  the cache: a created, changed, rotated or deleted token takes effect at once.\<close>

theorem lookup_is_table:
  assumes "coherent s" "reloads_all H ops s"
  shows "fst (sqlite_Lookup H e t (fold (store_step H) ops s)) = stored H (fold (store_step H) ops s) t"
  by (rule sql.lookup_known [OF store_run_coherent [OF assms]])

definition fresh_env :: "int \<Rightarrow> string \<Rightarrow> env" where
  "fresh_env now rnd = \<lparr>env_now = now, env_random = Some rnd, env_query = True, env_exec = True, env_load = True\<rparr>"

definition empty_store :: token_store where
  "empty_store = \<lparr>ts_db = \<lparr>db_rows = [], db_seq = 0\<rparr>, ts_cache = Map.empty, ts_cacheTTL = 30, ts_lastLoad = 0\<rparr>"

lemma empty_store_coherent: "coherent empty_store"
  by (simp add: coherent_def empty_store_def db_wf_def cache_of_def)

definition plain_request :: create_request where
  "plain_request = \<lparr>cr_Name = ''ci'', cr_Enabled = None, cr_RateLimit = 10, cr_Scope = [],
     cr_AllowedMethods = [''blob.*'', ''status''], cr_ExpiresAt = Some 500\<rparr>"

definition one_store :: token_store where
  "one_store = store_step id (SoCreate (fresh_env 5 ''AB'') plain_request) empty_store"

lemma hex_AB: "hex_encode ''AB'' = ''4142''" "hex_encode ''4142'' = ''34313432''"
  "hex_encode ''CD'' = ''4344''" "hex_encode ''4344'' = ''34333434''"
  by (simp_all add: hex_encode_def hex_digit_def)

definition one_row :: token_row where
  "one_row = \<lparr>tr_id = 1, tr_hash = ''34313432'', tr_prefix = ''4142'', tr_name = ''ci'', tr_enabled = True,
     tr_rate = 10, tr_scope = ''write'', tr_methods = ''blob.*,status'', tr_expires = Some 500,
     tr_created = 5, tr_updated = 5\<rparr>"

lemma one_store_eq:
  "one_store = \<lparr>ts_db = \<lparr>db_rows = [one_row], db_seq = 1\<rparr>, ts_cache = [''34313432'' \<mapsto> info_of_row one_row],
     ts_cacheTTL = 30, ts_lastLoad = 5\<rparr>"
  by (simp add: one_store_def store_Create_def generateToken_def fresh_env_def hashToken_def hex_AB empty_store_def
      plain_request_def db_insert_def loadCache_def cache_of_def one_row_def Let_def)

lemma one_store_wf: "coherent one_store" "db_wf (ts_db one_store)"
proof -
  show "coherent one_store" unfolding one_store_def
    by (rule store_step_coherent [OF empty_store_coherent]) (simp add: fresh_env_def)
  then show "db_wf (ts_db one_store)" by (simp add: coherent_def)
qed

theorem lookup_is_table_witness:
  "fst (sqlite_Lookup id (fresh_env 100 []) ''4142'' (fold (store_step id) [SoDelete (fresh_env 9 []) 1] one_store)) = None"
proof -
  have "reloads_all id [SoDelete (fresh_env 9 []) 1] one_store" by (simp add: fresh_env_def)
  from lookup_is_table [OF one_store_wf(1) this, of "fresh_env 100 []" "''4142''"] show ?thesis
    by (simp add: one_store_eq store_Delete_def fresh_env_def stored_def db_delete_def row_with_hash_def one_row_def)
qed

subsection \<open>What each operation means for the lookups\<close>

lemma stored_methods_join:
  "ms \<noteq> [[]] \<Longrightarrow> \<forall>m \<in> set ms. CHR '','' \<notin> set m \<Longrightarrow> stored_methods (join_with '','' ms) = ms"
  using split_join [of ms "CHR '',''"] join_with_empty [of "CHR '',''" ms]
  by (cases "ms = []") (simp_all add: stored_methods_def)

lemma option_eqI: "(\<And>r. a = Some r \<longleftrightarrow> b = Some r) \<Longrightarrow> a = b"
  by (cases a; cases b) auto

lemma db_insert_rows:
  assumes "db_insert row db = Some db'"
  shows "set (db_rows db') = insert (row\<lparr>tr_id := db_seq db + 1\<rparr>) (set (db_rows db))"
    "\<forall>r \<in> set (db_rows db). tr_hash r \<noteq> tr_hash row"
  using assms by (auto simp: db_insert_def list_ex_iff split: if_splits)

text \<open>A created token is found by its plaintext with the requested settings (enabled unless
  said otherwise, scope \<open>write\<close> when none is given), and no other token value changes meaning;
  allowlists without commas, other than one empty name, survive the table.\<close>

theorem create_then_lookup:
  assumes "db_wf (ts_db s)" "env_load e" "store_Create H e req s = (Inr (tk, plaintext), s')"
    "cr_AllowedMethods req \<noteq> [[]]" "\<forall>m \<in> set (cr_AllowedMethods req). CHR '','' \<notin> set m"
  shows "fst (sqlite_Lookup H e' plaintext s') = Some
       \<lparr>ti_Name = cr_Name req, ti_Enabled = (cr_Enabled req \<noteq> Some False), ti_RateLimit = cr_RateLimit req,
        ti_Scope = (if cr_Scope req = [] then ''write'' else cr_Scope req),
        ti_AllowedMethods = cr_AllowedMethods req, ti_ExpiresAt = cr_ExpiresAt req\<rparr>
     \<and> (\<forall>t. hashToken H t \<noteq> hashToken H plaintext \<longrightarrow> fst (sqlite_Lookup H e' t s') = stored H s t)"
proof -
  obtain db row where c: "db_insert row (ts_db s) = Some db"
      "tr_hash row = hashToken H plaintext" "tr_name row = cr_Name req"
      "tr_enabled row = (case cr_Enabled req of Some b \<Rightarrow> b | None \<Rightarrow> True)" "tr_rate row = cr_RateLimit req"
      "tr_scope row = (if cr_Scope req = [] then ''write'' else cr_Scope req)"
      "tr_methods row = join_with '','' (cr_AllowedMethods req)" "tr_expires row = cr_ExpiresAt req"
      "s' = snd (loadCache e (s\<lparr>ts_db := db\<rparr>))"
    by (rule Create_cases [OF assms(3)])
  have wf: "db_wf db" by (rule db_insert_wf [OF assms(1) c(1)])
  then have coh: "coherent s'" and db: "ts_db s' = db" using c(9) assms(2) loadCache_coherent by simp_all
  note rows = db_insert_rows [OF c(1)]
  have "row_with_hash (hashToken H plaintext) db = Some (row\<lparr>tr_id := db_seq (ts_db s) + 1\<rparr>)"
    using rows(1) c(2) by (simp add: row_with_hash_iff [OF wf])
  moreover have "row_with_hash (hashToken H t) db = row_with_hash (hashToken H t) (ts_db s)"
    if "hashToken H t \<noteq> hashToken H plaintext" for t
    using that rows(1) c(2) by (intro option_eqI) (auto simp: row_with_hash_iff [OF wf] row_with_hash_iff [OF assms(1)])
  ultimately show ?thesis using stored_methods_join [OF assms(4,5)] c(3-8)
    by (auto simp: sql.lookup_known [OF coh] stored_def db info_of_row_def split: option.splits)
qed

theorem create_then_lookup_witness:
  "fst (sqlite_Lookup id (fresh_env 100 []) ''4142'' one_store) = Some
     \<lparr>ti_Name = ''ci'', ti_Enabled = True, ti_RateLimit = 10, ti_Scope = ''write'',
      ti_AllowedMethods = [''blob.*'', ''status''], ti_ExpiresAt = Some 500\<rparr>"
proof -
  obtain tk where "store_Create id (fresh_env 5 ''AB'') plain_request empty_store = (Inr (tk, ''4142''), one_store)"
    by (simp add: one_store_def store_Create_def generateToken_def fresh_env_def hex_AB empty_store_def
        plain_request_def db_insert_def Let_def)
  from create_then_lookup [OF _ _ this, of "fresh_env 100 []"] empty_store_coherent show ?thesis
    by (simp add: coherent_def fresh_env_def plain_request_def)
qed

text \<open>An allowlist holding one empty name is stored as the empty text and read back as no
  allowlist: a token that was created to allow no method is allowed every method.\<close>

theorem blank_allowlist_widens:
  assumes "db_wf (ts_db s)" "env_load e" "store_Create H e req s = (Inr (tk, plaintext), s')"
    "cr_AllowedMethods req = [[]]" "cr_Scope req \<noteq> ''read-only''"
  shows "\<exists>info. fst (sqlite_Lookup H e' plaintext s') = Some info \<and> IsMethodAllowed info m
     \<and> (m \<noteq> [] \<longrightarrow> \<not> IsMethodAllowed (info\<lparr>ti_AllowedMethods := tk_AllowedMethods tk\<rparr>) m)"
proof -
  obtain db row where c: "db_insert row (ts_db s) = Some db"
      "tr_hash row = hashToken H plaintext"
      "tr_scope row = (if cr_Scope req = [] then ''write'' else cr_Scope req)"
      "tr_methods row = join_with '','' (cr_AllowedMethods req)"
      "s' = snd (loadCache e (s\<lparr>ts_db := db\<rparr>))"
    by (rule Create_cases [OF assms(3)])
  have wf: "db_wf db" by (rule db_insert_wf [OF assms(1) c(1)])
  then have coh: "coherent s'" and db: "ts_db s' = db" using c(5) assms(2) loadCache_coherent by simp_all
  have "row_with_hash (hashToken H plaintext) db = Some (row\<lparr>tr_id := db_seq (ts_db s) + 1\<rparr>)"
    using db_insert_rows [OF c(1)] c(2) by (simp add: row_with_hash_iff [OF wf])
  moreover have "tk_AllowedMethods tk = [[]]"
    using assms(3,4) by (auto simp: store_Create_def Let_def split: option.splits if_splits)
  ultimately show ?thesis using c(3,4) assms(4,5)
    by (auto simp: sql.lookup_known [OF coh] stored_def db info_of_row_def IsMethodAllowed_def isScopeAllowed_def
        stored_methods_def)
qed

theorem blank_allowlist_widens_witness:
  "\<exists>info. fst (sqlite_Lookup id (fresh_env 9 []) ''4142''
       (snd (store_Create id (fresh_env 5 ''AB'') (plain_request\<lparr>cr_AllowedMethods := [[]]\<rparr>) empty_store))) = Some info
     \<and> IsMethodAllowed info ''blob.Submit''"
proof -
  let ?req = "plain_request\<lparr>cr_AllowedMethods := [[]]\<rparr>"
  obtain tk s' where c: "store_Create id (fresh_env 5 ''AB'') ?req empty_store = (Inr (tk, ''4142''), s')"
    by (simp add: store_Create_def generateToken_def fresh_env_def hex_AB empty_store_def
        plain_request_def db_insert_def Let_def)
  have "db_wf (ts_db empty_store)" using empty_store_coherent by (simp add: coherent_def)
  from blank_allowlist_widens [OF this _ c, of "fresh_env 9 []" "''blob.Submit''"] c show ?thesis
    by (auto simp: fresh_env_def plain_request_def)
qed

lemma row_with_hash_update:
  assumes "db_wf db" "db_wf (db_update i f db)" "\<And>r. tr_id (f r) = tr_id r" "r \<in> set (db_rows db)" "tr_id r = i"
  shows "row_with_hash h (db_update i f db) =
     (if h = tr_hash (f r) then Some (f r) else if h = tr_hash r then None else row_with_hash h db)"
proof (rule option_eqI)
  fix x
  have "set (db_rows (db_update i f db)) = (\<lambda>r. if tr_id r = i then f r else r) ` set (db_rows db)"
    by (simp add: db_update_def)
  moreover have only: "x \<in> set (db_rows db) \<Longrightarrow> tr_id x = i \<longleftrightarrow> x = r" for x
    using db_wf_unique(1) [OF assms(1) _ assms(4), of x] assms(5) by auto
  ultimately have rows: "set (db_rows (db_update i f db)) = insert (f r) (set (db_rows db) - {r})"
    using assms(4,5) by auto
  have "tr_id (f r) = i" using assms(3,5) by simp
  then have uniq: "x \<in> set (db_rows (db_update i f db)) \<Longrightarrow> tr_hash x = tr_hash (f r) \<Longrightarrow> x = f r" for x
    using db_wf_unique(2) [OF assms(2), of x "f r"] rows by simp
  have uniq': "x \<in> set (db_rows db) \<Longrightarrow> tr_hash x = tr_hash r \<Longrightarrow> x = r" for x
    using db_wf_unique(2) [OF assms(1) _ assms(4), of x] by simp
  show "row_with_hash h (db_update i f db) = Some x \<longleftrightarrow>
      (if h = tr_hash (f r) then Some (f r) else if h = tr_hash r then None else row_with_hash h db) = Some x"
    using rows uniq uniq'
    by (auto simp: row_with_hash_iff [OF assms(1)] row_with_hash_iff [OF assms(2)])
qed

text \<open>Rotating a token hands its settings, unchanged, to the new value; the old value stops
  being known (when the hash tells them apart), and every other token value keeps its meaning.\<close>

theorem rotate_then_lookup:
  assumes "db_wf (ts_db s)" "env_load e" "store_Rotate H e i s = (Inr (tk, new), s')"
  shows "\<exists>r \<in> set (db_rows (ts_db s)). tr_id r = i
     \<and> fst (sqlite_Lookup H e' new s') = Some (info_of_row r)
     \<and> (\<forall>t. hashToken H t \<noteq> hashToken H new \<longrightarrow>
           fst (sqlite_Lookup H e' t s') = (if hashToken H t = tr_hash r then None else stored H s t))"
proof -
  obtain t where t: "store_Get e i s = Inr (Some t)"
    using assms(3) by (auto simp: store_Rotate_def split: sum.splits option.splits)
  then obtain r where "db_get i (ts_db s) = Some r" by (rule Get_Some)
  then have r: "r \<in> set (db_rows (ts_db s))" "tr_id r = i" using db_get_iff [OF assms(1)] by simp_all
  define f :: "token_row \<Rightarrow> token_row" where "f = (\<lambda>r. r\<lparr>tr_hash := hashToken H new, tr_prefix := take 8 new, tr_updated := env_now e\<rparr>)"
  have s': "s' = snd (loadCache e (s\<lparr>ts_db := db_update i f (ts_db s)\<rparr>))"
    using assms(3) t by (auto simp: store_Rotate_def Let_def f_def split: option.splits if_splits)
  then have db: "ts_db s' = db_update i f (ts_db s)" by simp
  have wf: "db_wf (db_update i f (ts_db s))" using Rotate_wf [OF assms(1), of H e i] assms(3) db by simp
  then have look: "fst (sqlite_Lookup H e' t s') = map_option info_of_row (row_with_hash (hashToken H t) (db_update i f (ts_db s)))" for t
    using sql.lookup_known [OF loadCache_coherent [OF assms(2)]] by (simp add: s' stored_def)
  have upd: "row_with_hash h (db_update i f (ts_db s)) =
     (if h = tr_hash (f r) then Some (f r) else if h = tr_hash r then None else row_with_hash h (ts_db s))" for h
    by (rule row_with_hash_update [OF assms(1) wf _ r]) (simp add: f_def)
  have "info_of_row (f r) = info_of_row r" "tr_hash (f r) = hashToken H new" by (simp_all add: f_def info_of_row_def)
  with r show ?thesis by (intro bexI [of _ r]) (simp_all add: look upd stored_def)
qed

theorem rotate_then_lookup_witness:
  "fst (sqlite_Lookup id (fresh_env 9 []) ''4142'' (snd (store_Rotate id (fresh_env 7 ''CD'') 1 one_store))) = None"
proof -
  obtain tk s' where r: "store_Rotate id (fresh_env 7 ''CD'') 1 one_store = (Inr (tk, ''4344''), s')"
    by (simp add: store_Rotate_def store_Get_def one_store_eq db_get_def generateToken_def fresh_env_def hex_AB
        hashToken_def hash_clash_def one_row_def Let_def)
  from rotate_then_lookup [OF one_store_wf(2) _ r, of "fresh_env 9 []"] r show ?thesis
    by (auto simp: fresh_env_def hashToken_def hex_AB one_store_eq one_row_def)
qed

lemma Delete_lookup:
  assumes "db_wf (ts_db s)" "env_load e" "store_Delete e i s = (None, s')"
  shows "\<exists>r \<in> set (db_rows (ts_db s)). tr_id r = i \<and>
     (\<forall>t. fst (sqlite_Lookup H e' t s') = (if hashToken H t = tr_hash r then None else stored H s t))"
proof -
  obtain r where r: "r \<in> set (db_rows (ts_db s))" "tr_id r = i"
    using assms(3) by (auto simp: store_Delete_def Let_def filter_empty_conv split: if_splits)
  have s': "s' = snd (loadCache e (s\<lparr>ts_db := db_delete i (ts_db s)\<rparr>))"
    using assms(3) by (auto simp: store_Delete_def Let_def split: if_splits)
  have wf: "db_wf (db_delete i (ts_db s))" by (rule db_delete_wf [OF assms(1)])
  have look: "fst (sqlite_Lookup H e' t s') = map_option info_of_row (row_with_hash (hashToken H t) (db_delete i (ts_db s)))" for t
    using sql.lookup_known [OF loadCache_coherent [OF assms(2)]] wf by (simp add: s' stored_def)
  have "row_with_hash h (db_delete i (ts_db s)) = (if h = tr_hash r then None else row_with_hash h (ts_db s))" for h
  proof (rule option_eqI)
    fix x
    have "x \<in> set (db_rows (ts_db s)) \<Longrightarrow> tr_hash x = tr_hash r \<Longrightarrow> x = r"
      "x \<in> set (db_rows (ts_db s)) \<Longrightarrow> tr_id x = i \<Longrightarrow> x = r"
      using db_wf_unique [OF assms(1) _ r(1), of x] r(2) by simp_all
    with r show "row_with_hash h (db_delete i (ts_db s)) = Some x \<longleftrightarrow>
        (if h = tr_hash r then None else row_with_hash h (ts_db s)) = Some x"
      by (auto simp: row_with_hash_iff [OF assms(1)] row_with_hash_iff [OF wf]) (auto simp: db_delete_def)
  qed
  with r show ?thesis by (intro bexI [of _ r]) (simp_all add: look stored_def)
qed

text \<open>A deleted token is no longer known and no other token value changes meaning.\<close>

theorem delete_then_lookup:
  assumes "db_wf (ts_db s)" "env_load e" "store_Delete e i s = (None, s')"
  shows "\<exists>r \<in> set (db_rows (ts_db s)). tr_id r = i \<and>
     (\<forall>t. fst (sqlite_Lookup H e' t s') = (if hashToken H t = tr_hash r then None else stored H s t))"
  by (rule Delete_lookup [OF assms])

theorem delete_then_lookup_witness:
  "fst (sqlite_Lookup id (fresh_env 9 []) ''4142'' (snd (store_Delete (fresh_env 7 []) 1 one_store))) = None"
proof -
  obtain s' where r: "store_Delete (fresh_env 7 []) 1 one_store = (None, s')"
    by (simp add: store_Delete_def one_store_eq fresh_env_def one_row_def Let_def)
  from delete_then_lookup [OF one_store_wf(2) _ r, of id "fresh_env 9 []"] r show ?thesis
    by (auto simp: fresh_env_def hashToken_def hex_AB one_store_eq one_row_def)
qed

text \<open>The error of a reload is dropped: when the table loses a token but the reload fails, the
  deletion is still reported as a success, and the deleted token keeps being accepted until the
  cache is older than its time to live.\<close>

theorem delete_without_reload:
  assumes "coherent s" "\<not> env_load e" "store_Delete e i s = (None, s')"
    "db_get i (ts_db s) = Some r" "hashToken H t = tr_hash r"
    "env_now e' - ts_lastLoad s \<le> ts_cacheTTL s"
  shows "fst (sqlite_Lookup H e' t s') = Some (info_of_row r) \<and> stored H s' t = None"
proof -
  have wf: "db_wf (ts_db s)" using assms(1) by (simp add: coherent_def)
  have s': "s' = s\<lparr>ts_db := db_delete i (ts_db s)\<rparr>"
    using assms(2,3) by (auto simp: store_Delete_def Let_def loadCache_def split: if_splits)
  have r: "row_with_hash (tr_hash r) (ts_db s) = Some r" "tr_id r = i"
    using assms(4) by (auto simp: db_get_iff [OF wf] row_with_hash_iff [OF wf])
  have "\<forall>x \<in> set (db_rows (db_delete i (ts_db s))). tr_hash x \<noteq> tr_hash r"
    using r(2) db_wf_unique(2) [OF wf] assms(4)
    by (auto simp: db_delete_def db_get_iff [OF wf])
  then have "row_with_hash (tr_hash r) (db_delete i (ts_db s)) = None"
    by (simp add: row_with_hash_def find_cases(1))
  moreover have "ts_cache s (tr_hash r) = Some (info_of_row r)"
    using assms(1) r(1) by (simp add: coherent_def cache_of_row)
  ultimately show ?thesis using assms(5,6) by (simp add: s' sqlite_Lookup_def stored_def Let_def)
qed

theorem delete_without_reload_witness:
  "fst (sqlite_Lookup id (fresh_env 20 []) ''4142'' (snd (store_Delete ((fresh_env 7 [])\<lparr>env_load := False\<rparr>) 1 one_store)))
     = Some (info_of_row one_row)"
proof -
  obtain s' where r: "store_Delete ((fresh_env 7 [])\<lparr>env_load := False\<rparr>) 1 one_store = (None, s')"
    by (simp add: store_Delete_def one_store_eq fresh_env_def one_row_def Let_def)
  from delete_without_reload [OF one_store_wf(1) _ r, of one_row id "''4142''" "fresh_env 20 []"] r show ?thesis
    by (simp add: fresh_env_def hashToken_def hex_AB one_store_eq one_row_def db_get_def)
qed

text \<open>An update changes exactly the fields the request gives and no other token; since an
  absent expiry means "keep", no update removes an expiry once it is set.\<close>

theorem update_then_lookup:
  assumes "db_wf (ts_db s)" "env_load e" "store_Update e i req s = (Inr (Some tk), s')"
    "\<forall>ms. up_AllowedMethods req = Some ms \<longrightarrow> ms \<noteq> [[]] \<and> (\<forall>m \<in> set ms. CHR '','' \<notin> set m)"
  shows "\<exists>r \<in> set (db_rows (ts_db s)). tr_id r = i \<and>
     (\<forall>t. fst (sqlite_Lookup H e' t s') =
        (if hashToken H t = tr_hash r then Some
           \<lparr>ti_Name = (case up_Name req of Some n \<Rightarrow> n | None \<Rightarrow> tr_name r),
            ti_Enabled = (case up_Enabled req of Some b \<Rightarrow> b | None \<Rightarrow> tr_enabled r),
            ti_RateLimit = (case up_RateLimit req of Some l \<Rightarrow> l | None \<Rightarrow> tr_rate r),
            ti_Scope = (case up_Scope req of Some c \<Rightarrow> c | None \<Rightarrow> tr_scope r),
            ti_AllowedMethods = (case up_AllowedMethods req of Some ms \<Rightarrow> ms | None \<Rightarrow> stored_methods (tr_methods r)),
            ti_ExpiresAt = (case up_ExpiresAt req of Some x \<Rightarrow> Some x | None \<Rightarrow> tr_expires r)\<rparr>
         else stored H s t))"
proof -
  obtain old where g: "store_Get e i s = Inr (Some old)"
    using assms(3) by (auto simp: store_Update_def Let_def split: sum.splits option.splits if_splits)
  then obtain r where o: "db_get i (ts_db s) = Some r" "old = scanToken r" by (rule Get_Some)
  then have r: "r \<in> set (db_rows (ts_db s))" "tr_id r = i" using db_get_iff [OF assms(1)] by simp_all
  define ex where "ex = apply_update req old"
  define f :: "token_row \<Rightarrow> token_row" where "f = (\<lambda>r. r\<lparr>tr_name := tk_Name ex, tr_enabled := tk_Enabled ex, tr_rate := tk_RateLimit ex,
     tr_scope := tk_Scope ex, tr_methods := join_with '','' (tk_AllowedMethods ex), tr_expires := tk_ExpiresAt ex,
     tr_updated := env_now e\<rparr>)"
  have s': "s' = snd (loadCache e (s\<lparr>ts_db := db_update i f (ts_db s)\<rparr>))"
    using assms(3) g by (auto simp: store_Update_def Let_def f_def ex_def split: if_splits)
  have wf: "db_wf (db_update i f (ts_db s))"
    by (rule db_update_same_hash [OF assms(1)]) (simp_all add: f_def)
  then have look: "fst (sqlite_Lookup H e' t s') = map_option info_of_row (row_with_hash (hashToken H t) (db_update i f (ts_db s)))" for t
    using sql.lookup_known [OF loadCache_coherent [OF assms(2)]] by (simp add: s' stored_def)
  have upd: "row_with_hash h (db_update i f (ts_db s)) =
     (if h = tr_hash (f r) then Some (f r) else if h = tr_hash r then None else row_with_hash h (ts_db s))" for h
    by (rule row_with_hash_update [OF assms(1) wf _ r]) (simp add: f_def)
  have keep: "stored_methods (join_with '','' (stored_methods m)) = stored_methods m" for m
    using join_split [of "CHR '',''" m] by (auto simp: stored_methods_def)
  have "stored_methods (join_with '','' (tk_AllowedMethods ex)) =
      (case up_AllowedMethods req of Some ms \<Rightarrow> ms | None \<Rightarrow> stored_methods (tr_methods r))"
    using assms(4) stored_methods_join keep
    by (cases "up_AllowedMethods req") (auto simp: ex_def o(2) apply_update_def scanToken_def)
  then have "info_of_row (f r) = 
           \<lparr>ti_Name = (case up_Name req of Some n \<Rightarrow> n | None \<Rightarrow> tr_name r),
            ti_Enabled = (case up_Enabled req of Some b \<Rightarrow> b | None \<Rightarrow> tr_enabled r),
            ti_RateLimit = (case up_RateLimit req of Some l \<Rightarrow> l | None \<Rightarrow> tr_rate r),
            ti_Scope = (case up_Scope req of Some c \<Rightarrow> c | None \<Rightarrow> tr_scope r),
            ti_AllowedMethods = (case up_AllowedMethods req of Some ms \<Rightarrow> ms | None \<Rightarrow> stored_methods (tr_methods r)),
            ti_ExpiresAt = (case up_ExpiresAt req of Some x \<Rightarrow> Some x | None \<Rightarrow> tr_expires r)\<rparr>"
    by (simp add: info_of_row_def f_def ex_def o(2) apply_update_def scanToken_def split: option.split)
  moreover have "tr_hash (f r) = tr_hash r" by (simp add: f_def)
  ultimately show ?thesis using r by (intro bexI [of _ r]) (simp_all add: look upd stored_def)
qed

theorem update_then_lookup_witness:
  "map_option ti_ExpiresAt (fst (sqlite_Lookup id (fresh_env 9 []) ''4142''
     (snd (store_Update (fresh_env 7 []) 1 \<lparr>up_Name = None, up_Enabled = Some False, up_RateLimit = None,
        up_Scope = None, up_AllowedMethods = Some [''status''], up_ExpiresAt = None\<rparr> one_store)))) = Some (Some 500)"
proof -
  let ?req = "\<lparr>up_Name = None, up_Enabled = Some False, up_RateLimit = None,
        up_Scope = None, up_AllowedMethods = Some [''status''], up_ExpiresAt = None\<rparr>"
  obtain tk s' where r: "store_Update (fresh_env 7 []) 1 ?req one_store = (Inr (Some tk), s')"
    by (simp add: store_Update_def store_Get_def one_store_eq fresh_env_def one_row_def Let_def db_get_def)
  have "hashToken id ''4142'' = tr_hash one_row" by (simp add: hashToken_def hex_AB one_row_def)
  with update_then_lookup [OF one_store_wf(2) _ r, of id "fresh_env 9 []"] r show ?thesis
    by (auto simp: fresh_env_def one_store_eq) (simp add: one_row_def)
qed

subsection \<open>Migration of the configured tokens\<close>

lemma migrate_names:
  "migrate_loop H e k ts n db = (n', db', None) \<Longrightarrow>
     (\<forall>t \<in> set ts. \<exists>r \<in> set (db_rows db'). tr_name r = tkc_Name t) \<and> prefix (db_rows db) (db_rows db')"
proof (induction H e k ts n db rule: migrate_loop.induct)
  case (2 H e k t ts imported db)
  show ?case
  proof (cases "0 < length (filter (\<lambda>r. tr_name r = tkc_Name t) (db_rows db))")
    case True
    with 2 have IH: "(\<forall>t \<in> set ts. \<exists>r \<in> set (db_rows db'). tr_name r = tkc_Name t) \<and> prefix (db_rows db) (db_rows db')"
      by (auto split: if_splits)
    obtain r where "r \<in> set (db_rows db)" "tr_name r = tkc_Name t"
      using True by (auto simp: filter_empty_conv)
    with IH show ?thesis using set_mono_prefix by fastforce
  next
    case False
    with 2(3) obtain db1 where d: "env_query (e k)" "env_exec (e k)" "db_insert (migrated_row H (env_now (e k)) t) db = Some db1"
      "migrate_loop H e (Suc k) ts (Suc imported) db1 = (n', db', None)"
      by (auto split: if_splits option.splits)
    with 2(2) False have IH: "(\<forall>t \<in> set ts. \<exists>r \<in> set (db_rows db'). tr_name r = tkc_Name t) \<and> prefix (db_rows db1) (db_rows db')"
      by auto
    obtain r where "db_rows db1 = db_rows db @ [r]" "tr_name r = tkc_Name t"
      using d(3) by (auto simp: db_insert_def migrated_row_def split: if_splits)
    with IH show ?thesis using set_mono_prefix by (fastforce simp: prefix_def)
  qed
qed simp

lemma migrate_noop:
  "\<forall>t \<in> set ts. \<exists>r \<in> set (db_rows db). tr_name r = tkc_Name t \<Longrightarrow> \<forall>k. env_query (e k) \<Longrightarrow>
     migrate_loop H e k ts n db = (n, db, None)"
  by (induction ts arbitrary: k) (auto simp: filter_empty_conv)

text \<open>A migration that ends without error leaves every configured name in the table, keeps the
  rows that were there (it only appends), and is idempotent: running it again, on the next start,
  imports nothing and changes nothing.\<close>

theorem migrate_idempotent:
  assumes "MigrateConfigTokens H e el ts s = ((n, None), s')" "\<forall>k. env_query (e' k)"
  shows "(\<forall>t \<in> set ts. \<exists>r \<in> set (db_rows (ts_db s')). tr_name r = tkc_Name t)
     \<and> prefix (db_rows (ts_db s)) (db_rows (ts_db s'))
     \<and> MigrateConfigTokens H e' el' ts s' = ((0, None), s')"
proof -
  obtain db where m: "migrate_loop H e 0 ts 0 (ts_db s) = (n, db, None)" "ts_db s' = db"
    using assms(1) by (auto simp: MigrateConfigTokens_def split: prod.splits option.splits if_splits)
  note f = migrate_names [OF m(1)]
  have "migrate_loop H e' 0 ts 0 db = (0, db, None)"
    using f assms(2) by (intro migrate_noop) simp_all
  then have "MigrateConfigTokens H e' el' ts s' = ((0, None), s')"
    using m(2) by (simp add: MigrateConfigTokens_def)
  with f m(2) show ?thesis by simp
qed

theorem migrate_idempotent_witness:
  "fst (MigrateConfigTokens id (\<lambda>_. fresh_env 8 []) (fresh_env 8 [])
     [\<lparr>tkc_Token = ''k'', tkc_Name = ''ci2'', tkc_Enabled = True, tkc_RateLimit = 0, tkc_AllowedMethods = []\<rparr>]
     (snd (MigrateConfigTokens id (\<lambda>_. fresh_env 7 []) (fresh_env 7 [])
       [\<lparr>tkc_Token = ''k'', tkc_Name = ''ci2'', tkc_Enabled = True, tkc_RateLimit = 0, tkc_AllowedMethods = []\<rparr>]
       one_store))) = (0, None)"
proof -
  let ?ts = "[\<lparr>tkc_Token = ''k'', tkc_Name = ''ci2'', tkc_Enabled = True, tkc_RateLimit = 0, tkc_AllowedMethods = []\<rparr>]"
  obtain s' where m: "MigrateConfigTokens id (\<lambda>_. fresh_env 7 []) (fresh_env 7 []) ?ts one_store = ((1, None), s')"
    by (simp add: MigrateConfigTokens_def one_store_eq fresh_env_def one_row_def db_insert_def migrated_row_def
        hashToken_def hex_encode_def hex_digit_def)
  from migrate_idempotent [OF m, of "\<lambda>_. fresh_env 8 []" "fresh_env 8 []"] m show ?thesis
    by (simp add: fresh_env_def)
qed

end
