(* ===== verification/RingBuffer.thy ===== *)
theory RingBuffer
  imports Prelude Float64
begin

text \<open>
  \<open>internal/logging/entry.go\<close> and \<open>ringbuffer.go\<close>: the log entry and the circular buffer the
  dashboard reads. \<open>None\<close> stands for a run-time panic. A subscriber's channel is a number, its
  buffered entries a list of at most 100; \<open>rb_closed\<close> lists the closed channels.
\<close>

record log_entry =
  le_Timestamp :: int
  le_RequestID :: string
  le_TokenName :: string
  le_Method :: string
  le_Backend :: string
  le_StatusCode :: int
  le_LatencyMs :: f64
  le_RequestBytes :: int
  le_ResponseBytes :: int
  le_ClientIP :: string
  le_Error :: string
  le_Path :: string

definition zero_entry :: log_entry where
  "zero_entry = \<lparr>le_Timestamp = 0, le_RequestID = [], le_TokenName = [], le_Method = [], le_Backend = [],
     le_StatusCode = 0, le_LatencyMs = 0, le_RequestBytes = 0, le_ResponseBytes = 0, le_ClientIP = [],
     le_Error = [], le_Path = []\<rparr>"

record ring_buffer =
  rb_entries :: "log_entry list"
  rb_head :: int
  rb_size :: int
  rb_cap :: int
  rb_subscribers :: "nat list"
  rb_chans :: "nat \<Rightarrow> log_entry list"
  rb_closed :: "nat list"
  rb_fresh :: nat

definition NewRingBuffer :: "int \<Rightarrow> ring_buffer option" where
  "NewRingBuffer capacity =
     (if capacity < 0 then None
      else Some \<lparr>rb_entries = replicate (nat capacity) zero_entry, rb_head = 0, rb_size = 0, rb_cap = capacity,
             rb_subscribers = [], rb_chans = (\<lambda>_. []), rb_closed = [], rb_fresh = 0\<rparr>)"

definition sub_capacity :: nat where "sub_capacity = 100"

definition notify :: "log_entry \<Rightarrow> nat \<Rightarrow> (nat \<Rightarrow> log_entry list) \<Rightarrow> nat \<Rightarrow> log_entry list" where
  "notify e ch chans = (if length (chans ch) < sub_capacity then chans(ch := chans ch @ [e]) else chans)"

definition ring_Push :: "log_entry \<Rightarrow> ring_buffer \<Rightarrow> ring_buffer option" where
  "ring_Push e rb =
     (if length (rb_entries rb) \<le> nat (rb_head rb) then None
      else Some (rb\<lparr>rb_entries := (rb_entries rb)[nat (rb_head rb) := e],
                    rb_head := (rb_head rb + 1) mod rb_cap rb,
                    rb_size := (if rb_size rb < rb_cap rb then rb_size rb + 1 else rb_size rb),
                    rb_chans := fold (notify e) (rb_subscribers rb) (rb_chans rb)\<rparr>))"

text \<open>The backwards walk: \<open>n\<close> entries from position \<open>idx\<close>.\<close>

fun walk_back :: "ring_buffer \<Rightarrow> nat \<Rightarrow> int \<Rightarrow> log_entry list" where
  "walk_back rb 0 idx = []"
| "walk_back rb (Suc n) idx =
     rb_entries rb ! nat idx # walk_back rb n ((idx - 1 + rb_cap rb) mod rb_cap rb)"

definition ring_Entries :: "int \<Rightarrow> ring_buffer \<Rightarrow> log_entry list" where
  "ring_Entries limit rb =
     (if rb_size rb = 0 then []
      else let limit' = (if limit \<le> 0 \<or> rb_size rb < limit then rb_size rb else limit)
           in walk_back rb (nat limit') ((rb_head rb - 1 + rb_cap rb) mod rb_cap rb))"

definition ring_Size :: "ring_buffer \<Rightarrow> int" where "ring_Size rb = rb_size rb"

definition ring_Subscribe :: "ring_buffer \<Rightarrow> nat \<times> ring_buffer" where
  "ring_Subscribe rb =
     (let ch = rb_fresh rb
      in (ch, rb\<lparr>rb_subscribers := ch # rb_subscribers rb, rb_chans := (rb_chans rb)(ch := []), rb_fresh := ch + 1\<rparr>))"

text \<open>The cancel function; closing a channel twice panics.\<close>

definition ring_cancel :: "nat \<Rightarrow> ring_buffer \<Rightarrow> ring_buffer option" where
  "ring_cancel ch rb =
     (if ch \<in> set (rb_closed rb) then None
      else Some (rb\<lparr>rb_subscribers := removeAll ch (rb_subscribers rb), rb_closed := ch # rb_closed rb\<rparr>))"

text \<open>A receive by the subscriber.\<close>

definition ring_recv :: "nat \<Rightarrow> ring_buffer \<Rightarrow> log_entry option \<times> ring_buffer" where
  "ring_recv ch rb =
     (case rb_chans rb ch of
        [] \<Rightarrow> (None, rb)
      | e # es \<Rightarrow> (Some e, rb\<lparr>rb_chans := (rb_chans rb)(ch := es)\<rparr>))"

subsection \<open>Refinement to the list of the newest entries\<close>

definition ring_wf :: "ring_buffer \<Rightarrow> bool" where
  "ring_wf rb \<longleftrightarrow> 0 < rb_cap rb \<and> length (rb_entries rb) = nat (rb_cap rb) \<and> 0 \<le> rb_head rb
     \<and> rb_head rb < rb_cap rb \<and> 0 \<le> rb_size rb \<and> rb_size rb \<le> rb_cap rb"

text \<open>The abstract content, newest first.\<close>

definition ring_abs :: "ring_buffer \<Rightarrow> log_entry list" where
  "ring_abs rb = map (\<lambda>i. rb_entries rb ! nat ((rb_head rb - 1 - int i) mod rb_cap rb)) [0..<nat (rb_size rb)]"

lemma walk_back_eq:
  assumes "0 < rb_cap rb"
  shows "walk_back rb n (x mod rb_cap rb) = map (\<lambda>i. rb_entries rb ! nat ((x - int i) mod rb_cap rb)) [0..<n]"
proof (induction n arbitrary: x)
  case (Suc n)
  have "(x mod rb_cap rb - 1 + rb_cap rb) mod rb_cap rb = (x - 1) mod rb_cap rb"
    by (simp add: mod_diff_left_eq)
  then have "walk_back rb n ((x mod rb_cap rb - 1 + rb_cap rb) mod rb_cap rb) =
      map (\<lambda>i. rb_entries rb ! nat ((x - 1 - int i) mod rb_cap rb)) [0..<n]"
    using Suc.IH [of "x - 1"] by simp
  also have "\<dots> = map (\<lambda>i. rb_entries rb ! nat ((x - int i) mod rb_cap rb)) [Suc 0..<Suc n]"
    by (simp add: map_Suc_upt [symmetric] algebra_simps del: upt_Suc)
  finally show ?case by (simp add: upt_conv_Cons del: upt_Suc)
qed simp

lemma Entries_abs:
  assumes "ring_wf rb"
  shows "ring_Entries limit rb =
     take (if limit \<le> 0 \<or> rb_size rb < limit then length (ring_abs rb) else nat limit) (ring_abs rb)"
proof -
  have c: "0 < rb_cap rb" using assms by (simp add: ring_wf_def)
  have shift: "(rb_head rb - 1 + rb_cap rb) mod rb_cap rb = (rb_head rb - 1) mod rb_cap rb" by simp
  have "walk_back rb n ((rb_head rb - 1 + rb_cap rb) mod rb_cap rb) = take n (ring_abs rb)" if "n \<le> nat (rb_size rb)" for n
    using that by (simp only: shift walk_back_eq [OF c]) (simp add: ring_abs_def take_map)
  then show ?thesis using assms
    by (auto simp: ring_Entries_def Let_def ring_abs_def ring_wf_def)
qed

lemma Push_wf:
  assumes "ring_wf rb"
  obtains rb' where "ring_Push e rb = Some rb'" "ring_wf rb'" "rb_cap rb' = rb_cap rb"
    "ring_abs rb' = take (nat (rb_cap rb)) (e # ring_abs rb)"
proof -
  let ?c = "rb_cap rb" and ?h = "rb_head rb" and ?s = "rb_size rb"
  have wf: "0 < ?c" "length (rb_entries rb) = nat ?c" "0 \<le> ?h" "?h < ?c" "0 \<le> ?s" "?s \<le> ?c"
    using assms by (auto simp: ring_wf_def)
  then have "\<not> length (rb_entries rb) \<le> nat ?h" by linarith
  then obtain rb' where p: "ring_Push e rb = Some rb'" by (simp add: ring_Push_def)
  then have f: "rb_entries rb' = (rb_entries rb)[nat ?h := e]" "rb_head rb' = (?h + 1) mod ?c" "rb_cap rb' = ?c"
      "rb_size rb' = (if ?s < ?c then ?s + 1 else ?s)"
    by (auto simp: ring_Push_def split: if_splits)
  have wf': "ring_wf rb'" using wf f by (auto simp: ring_wf_def)
  have idx: "rb_entries rb' ! nat ((rb_head rb' - 1 - int i) mod ?c) =
      (if i = 0 then e else rb_entries rb ! nat ((?h - 1 - int (i - 1)) mod ?c))" if "int i < ?c" for i
  proof -
    have m: "(rb_head rb' - 1 - int i) mod ?c = (?h - int i) mod ?c"
      using mod_diff_left_eq [of "?h + 1" ?c "1 + int i"] by (simp add: f(2) algebra_simps)
    show ?thesis
    proof (cases "i = 0")
      case True
      then show ?thesis using wf m f(1) by simp
    next
      case False
      have "(?h - int i) mod ?c \<noteq> ?h mod ?c"
      proof
        assume "(?h - int i) mod ?c = ?h mod ?c"
        then have "?c dvd ?h - int i - ?h" by (simp only: mod_eq_dvd_iff)
        then have "?c dvd int i" by simp
        with False that wf(1) show False using zdvd_imp_le by force
      qed
      moreover have "?h mod ?c = ?h" using wf by simp
      ultimately have "(?h - int i) mod ?c \<noteq> ?h" by simp
      moreover have "0 \<le> (?h - int i) mod ?c" using wf(1) by simp
      ultimately have "nat ((?h - int i) mod ?c) \<noteq> nat ?h" using wf(3) by (simp add: nat_eq_iff)
      moreover have "?h - 1 - int (i - 1) = ?h - int i" using False by simp
      ultimately show ?thesis using m f(1) False by simp
    qed
  qed
  have "ring_abs rb' = take (nat ?c) (e # ring_abs rb)"
  proof (rule nth_equalityI)
    show l: "length (ring_abs rb') = length (take (nat ?c) (e # ring_abs rb))"
      using wf f by (auto simp: ring_abs_def min_def)
    fix i assume "i < length (ring_abs rb')"
    then have i: "i < nat (rb_size rb')" by (simp add: ring_abs_def)
    moreover have "rb_size rb' \<le> ?c" using wf' f by (simp add: ring_wf_def)
    ultimately have ic: "int i < ?c" by linarith
    have "ring_abs rb' ! i = rb_entries rb' ! nat ((rb_head rb' - 1 - int i) mod ?c)"
      using i f(3) by (simp add: ring_abs_def)
    also have "\<dots> = (e # ring_abs rb) ! i"
      using idx [OF ic] i f(4) wf by (cases i) (auto simp: ring_abs_def split: if_splits)
    finally show "ring_abs rb' ! i = take (nat ?c) (e # ring_abs rb) ! i" using ic wf by simp
  qed
  with p wf' f(3) that show thesis by blast
qed

fun push_all :: "log_entry list \<Rightarrow> ring_buffer \<Rightarrow> ring_buffer option" where
  "push_all [] rb = Some rb"
| "push_all (e # es) rb = Option.bind (ring_Push e rb) (push_all es)"

lemma push_all_abs:
  assumes "ring_wf rb" "ring_abs rb = take (nat (rb_cap rb)) old"
  shows "\<exists>rb'. push_all es rb = Some rb' \<and> ring_wf rb' \<and> rb_cap rb' = rb_cap rb
     \<and> ring_abs rb' = take (nat (rb_cap rb)) (rev es @ old)"
  using assms
proof (induction es arbitrary: rb old)
  case (Cons e es)
  obtain rb1 where p: "ring_Push e rb = Some rb1" "ring_wf rb1" "rb_cap rb1 = rb_cap rb"
      "ring_abs rb1 = take (nat (rb_cap rb)) (e # ring_abs rb)"
    by (rule Push_wf [OF Cons.prems(1)])
  have "take (nat (rb_cap rb)) (e # take (nat (rb_cap rb)) old) = take (nat (rb_cap rb)) (e # old)"
    by (cases "nat (rb_cap rb)") (simp_all add: min_def)
  then have "ring_abs rb1 = take (nat (rb_cap rb1)) (e # old)" using p(3,4) Cons.prems(2) by simp
  from Cons.IH [OF p(2) this] p(1,3) show ?case by simp
qed simp

lemma NewRingBuffer_wf:
  assumes "NewRingBuffer cap = Some rb" "0 < cap"
  shows "ring_wf rb" "ring_abs rb = []" "rb_cap rb = cap"
  using assms by (auto simp: NewRingBuffer_def ring_wf_def ring_abs_def split: if_splits)

text \<open>C37: A ring buffer of positive capacity never panics, and after any number of pushes it shows
  exactly the most recent entries, newest first: all it can hold, or as many as the limit asks.\<close>

theorem ring_shows_newest:
  assumes "NewRingBuffer cap = Some rb" "0 < cap"
  shows "\<exists>rb'. push_all es rb = Some rb' \<and>
     ring_Entries limit rb' =
       (let newest = take (nat cap) (rev es)
        in if limit \<le> 0 then newest else take (nat limit) newest)"
proof -
  note wf = NewRingBuffer_wf [OF assms]
  obtain rb' where p: "push_all es rb = Some rb'" "ring_wf rb'" "ring_abs rb' = take (nat cap) (rev es)"
    using push_all_abs [OF wf(1), of "[]" es] wf(2,3) by auto
  have "rb_size rb' = int (length (ring_abs rb'))" using p(2) by (simp add: ring_abs_def ring_wf_def)
  then have "ring_Entries limit rb' = (if limit \<le> 0 then ring_abs rb' else take (nat limit) (ring_abs rb'))"
    using Entries_abs [OF p(2), of limit] by auto
  with p show ?thesis by (simp add: Let_def)
qed

definition numbered :: "int \<Rightarrow> log_entry" where "numbered i = zero_entry\<lparr>le_StatusCode := i\<rparr>"

theorem ring_shows_newest_witness:
  "\<exists>rb'. push_all (map numbered [1, 2, 3, 4]) (the (NewRingBuffer 3)) = Some rb'
     \<and> map le_StatusCode (ring_Entries 2 rb') = [4, 3] \<and> map le_StatusCode (ring_Entries 0 rb') = [4, 3, 2]"
proof -
  obtain rb where rb: "NewRingBuffer 3 = Some rb" by (simp add: NewRingBuffer_def)
  from ring_shows_newest [OF rb, of "map numbered [1, 2, 3, 4]" 2] ring_shows_newest [OF rb, of "map numbered [1, 2, 3, 4]" 0] rb
  show ?thesis by (auto simp: numbered_def Let_def numeral_2_eq_2 numeral_3_eq_3)
qed

text \<open>A subscriber that does not read keeps the first hundred entries of its subscription.\<close>

lemma notify_chan: "distinct subs \<Longrightarrow> fold (notify e) subs chans ch =
   (if ch \<in> set subs \<and> length (chans ch) < sub_capacity then chans ch @ [e] else chans ch)"
  by (induction subs arbitrary: chans) (auto simp: notify_def)

lemma slow_subscriber:
  assumes "push_all es rb = Some rb'" "distinct (rb_subscribers rb)" "ch \<in> set (rb_subscribers rb)"
    "length (rb_chans rb ch) \<le> sub_capacity"
  shows "rb_chans rb' ch = take sub_capacity (rb_chans rb ch @ es)"
  using assms
proof (induction es arbitrary: rb)
  case (Cons e es)
  then obtain rb1 where p: "ring_Push e rb = Some rb1" "push_all es rb1 = Some rb'"
    by (auto split: bind_splits)
  then have f: "rb_subscribers rb1 = rb_subscribers rb"
      "rb_chans rb1 ch = (if length (rb_chans rb ch) < sub_capacity then rb_chans rb ch @ [e] else rb_chans rb ch)"
    using Cons.prems(2,3) by (auto simp: ring_Push_def notify_chan split: if_splits)
  with Cons.IH [OF p(2)] Cons.prems(2-4) show ?case
    by (auto simp: Suc_diff_le [symmetric] take_Cons' split: if_splits)
qed simp

end
