(* ===== verification/LogStore.thy ===== *)
theory LogStore
  imports RingBuffer
begin

text \<open>
  \<open>internal/logging/store.go\<close>, \<open>store_postgres.go\<close> and \<open>loki.go\<close>: the queries of the log store
  and the batch writer all three stores share.

  The query builders produce text and arguments, as the source does. What a database answers to the
  generated conditions is \<open>cond_holds\<close> on the fixed condition texts; rows are kept in the order of
  their ids. Timestamps are instants.
\<close>

record log_filter =
  lf_Method :: string
  lf_TokenName :: string
  lf_Backend :: string
  lf_StatusCode :: int
  lf_StatusMin :: int
  lf_StatusMax :: int
  lf_From :: "int option"
  lf_To :: "int option"
  lf_LatencyMin :: f64
  lf_Limit :: int
  lf_Cursor :: int
  lf_SortDesc :: bool

record backend_stat =
  bs_Backend :: string
  bs_AvgLatencyMs :: f64
  bs_TotalRequests :: int
  bs_Methods :: "string list"

datatype sql_val = SqlText string | SqlInt int | SqlReal f64 | SqlTime int

definition time_arg :: "int option \<Rightarrow> sql_val" where
  "time_arg t = SqlTime (case t of Some x \<Rightarrow> x | None \<Rightarrow> 0)"

text \<open>The two \<open>append\<close>s under one condition.\<close>

definition add_cond :: "bool \<Rightarrow> string \<Rightarrow> sql_val \<Rightarrow> string list \<times> sql_val list \<Rightarrow> string list \<times> sql_val list" where
  "add_cond c t v acc = (if c then (fst acc @ [t], snd acc @ [v]) else acc)"

definition select_tail :: "log_filter \<Rightarrow> string" where
  "select_tail f =
     (if lf_SortDesc f then '' ORDER BY id DESC'' else '' ORDER BY id ASC'') @
     (let l = lf_Limit f; l = (if l \<le> 0 then 100 else l); l = (if 1000 < l then 1000 else l)
      in '' LIMIT '' @ show_int l)"

definition sqlite_conditions :: "log_filter \<Rightarrow> string list \<times> sql_val list" where
  "sqlite_conditions f =
     (let acc = ([], []);
          acc = add_cond (lf_Method f \<noteq> []) ''method = ?'' (SqlText (lf_Method f)) acc;
          acc = add_cond (lf_TokenName f \<noteq> []) ''token_name = ?'' (SqlText (lf_TokenName f)) acc;
          acc = add_cond (lf_Backend f \<noteq> []) ''backend = ?'' (SqlText (lf_Backend f)) acc;
          acc = add_cond (lf_StatusCode f \<noteq> 0) ''status_code = ?'' (SqlInt (lf_StatusCode f)) acc;
          acc = add_cond (lf_StatusMin f \<noteq> 0) ''status_code >= ?'' (SqlInt (lf_StatusMin f)) acc;
          acc = add_cond (lf_StatusMax f \<noteq> 0) ''status_code <= ?'' (SqlInt (lf_StatusMax f)) acc;
          acc = add_cond (lf_From f \<noteq> None) ''timestamp >= ?'' (time_arg (lf_From f)) acc;
          acc = add_cond (lf_To f \<noteq> None) ''timestamp <= ?'' (time_arg (lf_To f)) acc;
          acc = add_cond (0 < lf_LatencyMin f) ''latency_ms >= ?'' (SqlReal (lf_LatencyMin f)) acc
      in add_cond (0 < lf_Cursor f) (if lf_SortDesc f then ''id < ?'' else ''id > ?'') (SqlInt (lf_Cursor f)) acc)"

definition buildQuery :: "string \<Rightarrow> log_filter \<Rightarrow> string \<times> sql_val list" where
  "buildQuery base f =
     (let (conditions, args) = sqlite_conditions f;
          query = base @ (if conditions \<noteq> [] then '' WHERE '' @ join_with '' AND '' conditions else []);
          query = (if prefix ''SELECT id'' base \<or> prefix ''SELECT timestamp'' base \<or> sublist ''request_id'' base
                   then query @ select_tail f else query)
      in (query, args))"

text \<open>The closure \<open>add\<close> of the PostgreSQL builder, with its counter.\<close>

definition pg_add :: "bool \<Rightarrow> string \<Rightarrow> sql_val \<Rightarrow> string list \<times> sql_val list \<times> nat \<Rightarrow> string list \<times> sql_val list \<times> nat" where
  "pg_add c t v acc =
     (if c then (case acc of (cs, vs, n) \<Rightarrow> (cs @ [t @ ''$'' @ show_nat n], vs @ [v], n + 1)) else acc)"

definition pg_conditions :: "log_filter \<Rightarrow> string list \<times> sql_val list \<times> nat" where
  "pg_conditions f =
     (let acc = ([], [], 1);
          acc = pg_add (lf_Method f \<noteq> []) ''method = '' (SqlText (lf_Method f)) acc;
          acc = pg_add (lf_TokenName f \<noteq> []) ''token_name = '' (SqlText (lf_TokenName f)) acc;
          acc = pg_add (lf_Backend f \<noteq> []) ''backend = '' (SqlText (lf_Backend f)) acc;
          acc = pg_add (lf_StatusCode f \<noteq> 0) ''status_code = '' (SqlInt (lf_StatusCode f)) acc;
          acc = pg_add (lf_StatusMin f \<noteq> 0) ''status_code >= '' (SqlInt (lf_StatusMin f)) acc;
          acc = pg_add (lf_StatusMax f \<noteq> 0) ''status_code <= '' (SqlInt (lf_StatusMax f)) acc;
          acc = pg_add (lf_From f \<noteq> None) ''timestamp >= '' (time_arg (lf_From f)) acc;
          acc = pg_add (lf_To f \<noteq> None) ''timestamp <= '' (time_arg (lf_To f)) acc;
          acc = pg_add (0 < lf_LatencyMin f) ''latency_ms >= '' (SqlReal (lf_LatencyMin f)) acc
      in pg_add (0 < lf_Cursor f) (if lf_SortDesc f then ''id < '' else ''id > '') (SqlInt (lf_Cursor f)) acc)"

definition pgBuildQuery :: "string \<Rightarrow> log_filter \<Rightarrow> string \<times> sql_val list" where
  "pgBuildQuery base f =
     (let (conditions, args, n) = pg_conditions f;
          query = base @ (if conditions \<noteq> [] then '' WHERE '' @ join_with '' AND '' conditions else []);
          query = (if prefix ''SELECT id'' base \<or> sublist ''request_id'' base then query @ select_tail f else query)
      in (query, args))"

subsection \<open>What the queries mean\<close>

type_synonym log_row = "int \<times> log_entry"

definition cond_holds :: "log_row \<Rightarrow> string \<Rightarrow> sql_val \<Rightarrow> bool" where
  "cond_holds r t v =
     (case v of
        SqlText s \<Rightarrow>
          (if t = ''method = ?'' then le_Method (snd r) = s
           else if t = ''token_name = ?'' then le_TokenName (snd r) = s
           else if t = ''backend = ?'' then le_Backend (snd r) = s else False)
      | SqlInt i \<Rightarrow>
          (if t = ''status_code = ?'' then le_StatusCode (snd r) = i
           else if t = ''status_code >= ?'' then i \<le> le_StatusCode (snd r)
           else if t = ''status_code <= ?'' then le_StatusCode (snd r) \<le> i
           else if t = ''id < ?'' then fst r < i
           else if t = ''id > ?'' then i < fst r else False)
      | SqlReal x \<Rightarrow> (if t = ''latency_ms >= ?'' then x \<le> le_LatencyMs (snd r) else False)
      | SqlTime x \<Rightarrow>
          (if t = ''timestamp >= ?'' then x \<le> le_Timestamp (snd r)
           else if t = ''timestamp <= ?'' then le_Timestamp (snd r) \<le> x else False))"

definition where_holds :: "log_filter \<Rightarrow> log_row \<Rightarrow> bool" where
  "where_holds f r = (case sqlite_conditions f of (cs, vs) \<Rightarrow> list_all (\<lambda>(t, v). cond_holds r t v) (zip cs vs))"

definition effective_limit :: "log_filter \<Rightarrow> nat" where
  "effective_limit f = nat (if lf_Limit f \<le> 0 then 100 else min (lf_Limit f) 1000)"

definition query_rows :: "log_filter \<Rightarrow> log_row list \<Rightarrow> log_row list" where
  "query_rows f rows =
     (let ms = filter (where_holds f) rows
      in take (effective_limit f) (if lf_SortDesc f then rev ms else ms))"

definition log_Query :: "bool \<Rightarrow> log_filter \<Rightarrow> log_row list \<Rightarrow> log_entry list result" where
  "log_Query ok f rows = (if ok then Inr (map snd (query_rows f rows)) else Inl ''querying logs'')"

definition log_Count :: "bool \<Rightarrow> log_filter \<Rightarrow> log_row list \<Rightarrow> int result" where
  "log_Count ok f rows = (if ok then Inr (int (length (filter (where_holds f) rows))) else Inl ''count'')"

definition retention_delete :: "int \<Rightarrow> int \<Rightarrow> log_row list \<Rightarrow> log_row list" where
  "retention_delete now retention rows =
     (if retention \<le> 0 then rows else filter (\<lambda>r. \<not> le_Timestamp (snd r) < now - retention) rows)"

text \<open>\<open>avg\<close> is the database's average; groups and methods are listed in order of appearance.\<close>

definition log_BackendStats :: "(f64 list \<Rightarrow> f64) \<Rightarrow> bool \<Rightarrow> int \<Rightarrow> log_row list \<Rightarrow> backend_stat list result" where
  "log_BackendStats avg ok since rows =
     (if \<not> ok then Inl ''querying backend stats''
      else let es = filter (\<lambda>e. since \<le> le_Timestamp e) (map snd rows)
           in Inr (map (\<lambda>b. let g = filter (\<lambda>e. le_Backend e = b) es;
                                methods = join_with '','' (remdups (map le_Method g))
                            in \<lparr>bs_Backend = b, bs_AvgLatencyMs = avg (map le_LatencyMs g),
                                bs_TotalRequests = int (length g),
                                bs_Methods = (if methods \<noteq> [] then split_on (CHR '','') methods else [])\<rparr>)
                    (remdups (map le_Backend es))))"

definition loki_Query :: "log_filter \<Rightarrow> log_entry list result" where
  "loki_Query f = Inl ''query not supported for Loki store; use LogQL via Grafana''"

definition loki_Count :: "log_filter \<Rightarrow> int result" where
  "loki_Count f = Inl ''count not supported for Loki store; use LogQL via Grafana''"

text \<open>PostgreSQL's answers: a condition is read with its placeholder \<open>$n\<close> standing for the argument
  added with it.\<close>

definition unplace :: "string \<Rightarrow> string" where
  "unplace t = takeWhile (\<lambda>c. c \<noteq> CHR ''$'') t @ ''?''"

definition pg_where_holds :: "log_filter \<Rightarrow> log_row \<Rightarrow> bool" where
  "pg_where_holds f r = (case pg_conditions f of (cs, vs, n) \<Rightarrow> list_all (\<lambda>(t, v). cond_holds r (unplace t) v) (zip cs vs))"

definition pg_Query :: "bool \<Rightarrow> log_filter \<Rightarrow> log_row list \<Rightarrow> log_entry list result" where
  "pg_Query ok f rows =
     (if ok then (let ms = filter (pg_where_holds f) rows
                  in Inr (map snd (take (effective_limit f) (if lf_SortDesc f then rev ms else ms))))
      else Inl ''querying logs'')"

definition pg_Count :: "bool \<Rightarrow> log_filter \<Rightarrow> log_row list \<Rightarrow> int result" where
  "pg_Count ok f rows = (if ok then Inr (int (length (filter (pg_where_holds f) rows))) else Inl ''count'')"

definition pg_retention_delete :: "int \<Rightarrow> int \<Rightarrow> log_row list \<Rightarrow> log_row list" where
  "pg_retention_delete now retention rows =
     (if retention \<le> 0 then rows else filter (\<lambda>r. \<not> le_Timestamp (snd r) < now - retention) rows)"

text \<open>The groups and their methods come in an order of PostgreSQL's choosing, given by \<open>arrange\<close>.\<close>

definition pg_BackendStats ::
  "(string list \<Rightarrow> string list) \<Rightarrow> (f64 list \<Rightarrow> f64) \<Rightarrow> bool \<Rightarrow> int \<Rightarrow> log_row list \<Rightarrow> backend_stat list result" where
  "pg_BackendStats arrange avg ok since rows =
     (if \<not> ok then Inl ''querying backend stats''
      else let es = filter (\<lambda>e. since \<le> le_Timestamp e) (map snd rows)
           in Inr (map (\<lambda>b. let g = filter (\<lambda>e. le_Backend e = b) es;
                                methods = join_with '','' (arrange (remdups (map le_Method g)))
                            in \<lparr>bs_Backend = b, bs_AvgLatencyMs = avg (map le_LatencyMs g),
                                bs_TotalRequests = int (length g),
                                bs_Methods = (if methods \<noteq> [] then split_on (CHR '','') methods else [])\<rparr>)
                    (arrange (remdups (map le_Backend es)))))"

subsection \<open>The two builders agree\<close>

text \<open>The conditions without their placeholders.\<close>

definition placed :: "(nat \<Rightarrow> string) \<Rightarrow> string list \<Rightarrow> string list" where
  "placed p cs = map (\<lambda>(i, c). c @ p i) (enumerate 1 cs)"

definition paired :: "string list \<times> sql_val list \<Rightarrow> string list \<times> sql_val list \<times> nat \<Rightarrow> bool" where
  "paired a b \<longleftrightarrow> (\<exists>cs vs. length vs = length cs \<and> a = (placed (\<lambda>_. ''?'') cs, vs)
     \<and> b = (placed (\<lambda>n. ''$'' @ show_nat n) cs, vs, Suc (length cs)))"

lemma paired_start: "paired ([], []) ([], [], 1)"
  by (auto simp: paired_def placed_def)

lemma paired_step:
  assumes "paired a b" "t' = t @ ''?''"
  shows "paired (add_cond c t' v a) (pg_add c t v b)"
proof (cases c)
  case True
  from assms(1) obtain cs vs where "length vs = length cs" "a = (placed (\<lambda>_. ''?'') cs, vs)"
      "b = (placed (\<lambda>n. ''$'' @ show_nat n) cs, vs, Suc (length cs))"
    by (auto simp: paired_def)
  with True assms(2) show ?thesis unfolding paired_def
    by (intro exI [of _ "cs @ [t]"] exI [of _ "vs @ [v]"])
      (simp add: add_cond_def pg_add_def placed_def enumerate_append_eq)
next
  case False
  with assms(1) show ?thesis by (simp add: add_cond_def pg_add_def)
qed

lemma builders_paired: "paired (sqlite_conditions f) (pg_conditions f)"
  unfolding sqlite_conditions_def pg_conditions_def Let_def
  by (intro paired_step paired_start) simp_all

lemma conditions_no_dollar:
  assumes "sqlite_conditions f = (placed (\<lambda>_. ''?'') cs, vs)"
  shows "list_all (\<lambda>c. CHR ''$'' \<notin> set c) cs"
proof -
  have "list_all (\<lambda>c. CHR ''$'' \<notin> set c) (fst (sqlite_conditions f))"
    by (simp add: sqlite_conditions_def add_cond_def Let_def)
  moreover have "fst (sqlite_conditions f) = map (\<lambda>c. c @ ''?'') cs"
    using assms by (auto intro: nth_equalityI simp: placed_def nth_enumerate_eq)
  ultimately show ?thesis by (simp add: list_all_iff)
qed

lemma unplace_dollar: "CHR ''$'' \<notin> set c \<Longrightarrow> unplace (c @ CHR ''$'' # n) = c @ ''?''"
  unfolding unplace_def by (induction c) auto

lemma unplace_placed:
  "list_all (\<lambda>c. CHR ''$'' \<notin> set c) cs \<Longrightarrow> map unplace (placed (\<lambda>n. ''$'' @ show_nat n) cs) = placed (\<lambda>_. ''?'') cs"
  by (rule nth_equalityI) (auto simp: placed_def list_all_iff nth_enumerate_eq intro!: unplace_dollar)


text \<open>The two base queries the store uses.\<close>

definition select_base :: string where
  "select_base = ''SELECT id, timestamp, request_id, token_name, method, backend, status_code, latency_ms, request_bytes, response_bytes, client_ip, error, path FROM request_logs''"

definition count_base :: string where "count_base = ''SELECT COUNT(*) FROM request_logs''"

definition where_text :: "string list \<Rightarrow> string" where
  "where_text cs = (if cs = [] then [] else '' WHERE '' @ join_with '' AND '' cs)"

text \<open>On every filter the PostgreSQL builder produces the SQLite builder's query with its
  \<open>i\<close>-th placeholder \<open>?\<close> written \<open>$i\<close>, the same arguments in the same order, one for each
  placeholder, and the same order and limit, which the count does not get.\<close>

theorem builders_agree:
  "\<exists>cs vs. length vs = length cs \<and>
     buildQuery select_base f = (select_base @ where_text (placed (\<lambda>_. ''?'') cs) @ select_tail f, vs) \<and>
     pgBuildQuery select_base f = (select_base @ where_text (placed (\<lambda>n. ''$'' @ show_nat n) cs) @ select_tail f, vs) \<and>
     buildQuery count_base f = (count_base @ where_text (placed (\<lambda>_. ''?'') cs), vs) \<and>
     pgBuildQuery count_base f = (count_base @ where_text (placed (\<lambda>n. ''$'' @ show_nat n) cs), vs)"
proof -
  obtain cs vs where c: "length vs = length cs" "sqlite_conditions f = (placed (\<lambda>_. ''?'') cs, vs)"
      "pg_conditions f = (placed (\<lambda>n. ''$'' @ show_nat n) cs, vs, Suc (length cs))"
    using builders_paired [of f] by (auto simp: paired_def)
  have "\<not> sublist ''request_id'' count_base" unfolding count_base_def by code_simp
  moreover have "prefix ''SELECT id'' select_base" "\<not> prefix ''SELECT id'' count_base" "\<not> prefix ''SELECT timestamp'' count_base"
    by (simp_all add: select_base_def count_base_def)
  ultimately show ?thesis
    by (intro exI [of _ cs] exI [of _ vs]) (simp add: buildQuery_def pgBuildQuery_def c where_text_def)
qed

subsection \<open>Answers\<close>

definition holds_all :: "log_row \<Rightarrow> string list \<times> sql_val list \<Rightarrow> bool" where
  "holds_all r acc \<longleftrightarrow> length (fst acc) = length (snd acc) \<and> list_all (\<lambda>(t, v). cond_holds r t v) (zip (fst acc) (snd acc))"

lemma holds_all_add:
  "length (fst acc) = length (snd acc) \<Longrightarrow>
     holds_all r (add_cond c t v acc) \<longleftrightarrow> holds_all r acc \<and> (\<not> c \<or> cond_holds r t v)"
  by (auto simp: holds_all_def add_cond_def)

lemma add_cond_length [simp]:
  "length (fst acc) = length (snd acc) \<Longrightarrow> length (fst (add_cond c t v acc)) = length (snd (add_cond c t v acc))"
  by (simp add: add_cond_def)

lemma where_holds_iff:
  "where_holds f r \<longleftrightarrow>
     (lf_Method f = [] \<or> le_Method (snd r) = lf_Method f) \<and>
     (lf_TokenName f = [] \<or> le_TokenName (snd r) = lf_TokenName f) \<and>
     (lf_Backend f = [] \<or> le_Backend (snd r) = lf_Backend f) \<and>
     (lf_StatusCode f = 0 \<or> le_StatusCode (snd r) = lf_StatusCode f) \<and>
     (lf_StatusMin f = 0 \<or> lf_StatusMin f \<le> le_StatusCode (snd r)) \<and>
     (lf_StatusMax f = 0 \<or> le_StatusCode (snd r) \<le> lf_StatusMax f) \<and>
     (case lf_From f of None \<Rightarrow> True | Some t \<Rightarrow> t \<le> le_Timestamp (snd r)) \<and>
     (case lf_To f of None \<Rightarrow> True | Some t \<Rightarrow> le_Timestamp (snd r) \<le> t) \<and>
     (lf_LatencyMin f \<le> 0 \<or> lf_LatencyMin f \<le> le_LatencyMs (snd r)) \<and>
     (lf_Cursor f \<le> 0 \<or> (if lf_SortDesc f then fst r < lf_Cursor f else lf_Cursor f < fst r))"
proof -
  have l: "length (fst (sqlite_conditions f)) = length (snd (sqlite_conditions f))"
    by (simp add: sqlite_conditions_def Let_def)
  have "where_holds f r \<longleftrightarrow> holds_all r (sqlite_conditions f)"
    using l by (simp add: where_holds_def holds_all_def split_beta)
  then show ?thesis
    by (simp add: sqlite_conditions_def Let_def holds_all_add holds_all_def [of r "([], [])"] cond_holds_def
        time_arg_def not_less split: option.split)
qed

lemma filter_after:
  "sorted_wrt (<) (map fst xs) \<Longrightarrow> 0 < n \<Longrightarrow> xs \<noteq> [] \<Longrightarrow>
     filter (\<lambda>r. fst (last (take n xs)) < fst r) xs = drop n (xs :: (int \<times> 'a) list)"
proof (induction xs arbitrary: n)
  case (Cons x xs)
  show ?case
  proof (cases "n = 1 \<or> xs = []")
    case True
    have "filter (\<lambda>r. fst x < fst r) xs = xs" using Cons.prems(1) by (auto intro: filter_True)
    with True Cons.prems(2) show ?thesis by (cases n) auto
  next
    case False
    then obtain m where n: "n = Suc m" "0 < m" using Cons.prems(2) by (cases n) auto
    then have l: "last (take n (x # xs)) = last (take m xs)" using False by simp
    have "last (take m xs) \<in> set xs" using False n by (intro in_set_takeD [OF last_in_set]) simp
    then have "fst x < fst (last (take m xs))" using Cons.prems(1) by auto
    with l n Cons.IH [of m] Cons.prems(1) False show ?thesis by simp
  qed
qed simp

lemma filter_before:
  assumes "sorted_wrt (>) (map fst xs)" "0 < n" "xs \<noteq> []"
  shows "filter (\<lambda>r. fst r < fst (last (take n xs))) xs = drop n (xs :: (int \<times> 'a) list)"
proof -
  have "sorted_wrt (<) (map fst (map (\<lambda>r. (- fst r, r)) xs))" using assms(1)
    by (simp add: sorted_wrt_map)
  from filter_after [OF this assms(2)] assms(3)
  have "map snd (filter (\<lambda>r. fst (last (take n (map (\<lambda>r. (- fst r, r)) xs))) < fst r) (map (\<lambda>r. (- fst r, r)) xs)) = drop n xs"
    by (simp add: drop_map o_def)
  then show ?thesis using assms(2,3)
    by (simp add: filter_map o_def take_map last_map)
qed

definition ordered :: "log_filter \<Rightarrow> 'a list \<Rightarrow> 'a list" where
  "ordered f xs = (if lf_SortDesc f then rev xs else xs)"

text \<open>A query returns the rows that meet every criterion of the filter, in the requested id
  order and at most 1000 (100 by default); asking again with the last id seen as cursor
  continues exactly where the page ended: no row is repeated and none is skipped.\<close>

theorem query_pages:
  assumes "sorted_wrt (<) (map fst rows)" "list_all (\<lambda>r. 0 < fst r) rows" "lf_Cursor f = 0"
    "p1 = query_rows f rows" "p1 \<noteq> []" "p2 = query_rows (f\<lparr>lf_Cursor := fst (last p1)\<rparr>) rows"
  shows "p1 @ p2 = take (2 * effective_limit f) (ordered f (filter (where_holds f) rows))
     \<and> length p1 \<le> 1000 \<and> (\<forall>r \<in> set p1. where_holds f r)"
proof -
  let ?L = "effective_limit f" and ?ms = "ordered f (filter (where_holds f) rows)"
  have L: "0 < ?L" "?L \<le> 1000" by (auto simp: effective_limit_def)
  have p1: "p1 = take ?L ?ms" using assms(4) by (simp add: query_rows_def ordered_def Let_def)
  then have ne: "?ms \<noteq> []" using assms(5) by auto
  have sub: "set p1 \<subseteq> set rows" by (auto simp: p1 ordered_def dest!: in_set_takeD split: if_splits)
  define c where "c = fst (last p1)"
  have "last p1 \<in> set rows" using sub assms(5) last_in_set by blast
  then have "0 < c" using assms(2) by (auto simp: c_def list_all_iff)
  then have w: "where_holds (f\<lparr>lf_Cursor := c\<rparr>) = (\<lambda>r. where_holds f r \<and> (if lf_SortDesc f then fst r < c else c < fst r))"
    using assms(3) by (intro ext) (auto simp: where_holds_iff)
  have "p2 = take ?L (filter (\<lambda>r. if lf_SortDesc f then fst r < c else c < fst r) ?ms)"
    using assms(6) by (auto simp: query_rows_def ordered_def Let_def w c_def [symmetric] effective_limit_def
      rev_filter conj_commute intro: arg_cong [where f = "take _"])
  moreover have "filter (\<lambda>r. if lf_SortDesc f then fst r < c else c < fst r) ?ms = drop ?L ?ms"
  proof (cases "lf_SortDesc f")
    case True
    have "sorted_wrt (\<lambda>x y. fst x < fst y) (filter (where_holds f) rows)"
      using assms(1) by (simp add: sorted_wrt_map sorted_wrt_filter)
    then have "sorted_wrt (>) (map fst ?ms)" using True by (simp add: ordered_def sorted_wrt_map sorted_wrt_rev)
    from filter_before [OF this L(1) ne] True show ?thesis by (simp add: c_def p1)
  next
    case False
    have "sorted_wrt (<) (map fst ?ms)"
      using assms(1) False by (simp add: ordered_def sorted_wrt_map sorted_wrt_filter)
    from filter_after [OF this L(1) ne] False show ?thesis by (simp add: c_def p1)
  qed
  ultimately have "p2 = take ?L (drop ?L ?ms)" by simp
  then have "p1 @ p2 = take (2 * ?L) ?ms" by (simp add: p1 mult_2 take_add)
  moreover have "\<forall>r \<in> set p1. where_holds f r" by (auto simp: p1 ordered_def dest!: in_set_takeD split: if_splits)
  moreover have "length p1 \<le> 1000" using L(2) by (simp add: p1)
  ultimately show ?thesis by blast
qed

definition any_filter :: log_filter where
  "any_filter = \<lparr>lf_Method = ''status'', lf_TokenName = [], lf_Backend = [], lf_StatusCode = 0, lf_StatusMin = 200,
     lf_StatusMax = 0, lf_From = None, lf_To = None, lf_LatencyMin = 0, lf_Limit = 1, lf_Cursor = 0, lf_SortDesc = True\<rparr>"

definition status_entry :: "int \<Rightarrow> log_entry" where
  "status_entry i = (numbered i)\<lparr>le_Method := ''status''\<rparr>"

theorem query_pages_witness:
  "(let rows = [(1, status_entry 200), (2, numbered 200), (3, status_entry 500), (4, status_entry 100)];
        p1 = query_rows any_filter rows; p2 = query_rows (any_filter\<lparr>lf_Cursor := fst (last p1)\<rparr>) rows
    in map fst (p1 @ p2)) = [3, 1]"
proof -
  let ?rows = "[(1, status_entry 200), (2, numbered 200), (3, status_entry 500), (4, status_entry 100)] :: log_row list"
  have f: "ordered any_filter (filter (where_holds any_filter) ?rows) = [(3, status_entry 500), (1, status_entry 200)]"
    "effective_limit any_filter = 1"
    by (simp_all add: ordered_def where_holds_iff any_filter_def status_entry_def numbered_def zero_entry_def effective_limit_def)
  then have "query_rows any_filter ?rows \<noteq> []"
    by (simp add: query_rows_def ordered_def Let_def split: if_splits)
  from query_pages [OF _ _ _ refl this refl]
  have "query_rows any_filter ?rows @ query_rows (any_filter\<lparr>lf_Cursor := fst (last (query_rows any_filter ?rows))\<rparr>) ?rows
      = take (2 * 1) [(3, status_entry 500), (1, status_entry 200)]"
    unfolding f by (simp add: any_filter_def)
  then show ?thesis by (simp add: Let_def del: map_append)
qed

end
