(* ===== verification/Latency.thy ===== *)
theory Latency
  imports Prelude Float64 "HOL-Library.Word" "HOL-Library.Multiset"
begin

text \<open>
  \<open>internal/proxy/latency.go\<close>: the lock-free exponentially weighted moving average of one
  endpoint. First the operations run alone, in the double arithmetic of \<open>Float64\<close>; then the
  compare-and-swap loop of \<open>Update\<close> as a step relation over any number of goroutines,
  with the theorem that every interleaving has the effect of some sequential order.

  The cell stores the bit pattern of a double; the model stores the double. The two zeros
  are identified, the only case in which \<open>oldBits == 0\<close> and \<open>oldVal == 0\<close> differ.
\<close>

record ewma =
  ewma_val :: f64
  ewma_count :: "64 word"

definition new_ewma :: ewma where
  "new_ewma = \<lparr>ewma_val = 0, ewma_count = 0\<rparr>"

definition ewmaAlpha :: rat where "ewmaAlpha = 3 / 10"

definition sample_ms :: "int \<Rightarrow> f64" where
  "sample_ms d = f64_div (f64_of_int d) 1000000"

text \<open>The value computed from a sample and the old value; a zero old value counts as none.\<close>

definition ewma_mix :: "f64 \<Rightarrow> f64 \<Rightarrow> f64" where
  "ewma_mix sample oldVal =
     (if oldVal = 0 then sample
      else f64_add (f64_mul (f64_round ewmaAlpha) sample) (f64_mul (f64_round (1 - ewmaAlpha)) oldVal))"

definition ewma_Update :: "int \<Rightarrow> ewma \<Rightarrow> ewma" where
  "ewma_Update d e =
     e\<lparr>ewma_count := ewma_count e + 1, ewma_val := ewma_mix (sample_ms d) (ewma_val e)\<rparr>"

definition ewma_Value :: "ewma \<Rightarrow> f64" where "ewma_Value e = ewma_val e"
definition ewma_Count :: "ewma \<Rightarrow> 64 word" where "ewma_Count e = ewma_count e"

subsection \<open>The average stays below the largest sample\<close>

lemma alpha_doubles:
  "f64_round ewmaAlpha = 5404319552844595 / 2 ^ 54"
  "f64_round (1 - ewmaAlpha) = 6305039478318694 / 2 ^ 53"
  by code_simp+

lemma alpha_doubles_sum:
  "f64_round ewmaAlpha + f64_round (1 - ewmaAlpha) = 1 - 1 / 2 ^ 54"
  by (simp add: alpha_doubles)

lemma ewma_mix_nonneg: "0 \<le> x \<Longrightarrow> 0 \<le> y \<Longrightarrow> 0 \<le> ewma_mix x y"
  by (simp add: ewma_mix_def f64_add_def f64_mul_def f64_round_nonneg alpha_doubles)

text \<open>
  The two rounded weights sum to \<open>1 - 2^-54\<close>; what the three roundings can add is less than
  half an ulp of the bound, so the result rounds back to at most the bound.
\<close>

lemma ewma_mix_le:
  assumes "is_f64 m" "1 / 10 ^ 7 \<le> m" "0 \<le> x" "x \<le> m" "0 \<le> y" "y \<le> m"
  shows "ewma_mix x y \<le> m"
proof (cases "y = 0")
  case True
  with assms show ?thesis by (simp add: ewma_mix_def)
next
  case False
  let ?a = "f64_round ewmaAlpha" and ?b = "f64_round (1 - ewmaAlpha)"
  let ?u = "1 + 1 / 2 ^ 53 :: rat"
  have small: "min_normal \<le> 2 powi (- 26)"
    unfolding min_normal_def by (intro power_int_increasing) auto
  have norm: "min_normal \<le> c * m" if "1 / 4 \<le> c" for c
  proof -
    have "1 / 4 * (1 / 10 ^ 7) \<le> c * m" using that assms(2) by (intro mult_mono) auto
    moreover have "(2::rat) powi (- 26) \<le> 1 / 4 * (1 / 10 ^ 7)" by simp
    ultimately show ?thesis using small by linarith
  qed
  have m0: "0 < m" using assms(2) by simp
  have a: "f64_mul ?a x \<le> ?a * m * ?u"
  proof -
    have "f64_mul ?a x \<le> f64_round (?a * m)"
      unfolding f64_mul_def using assms by (intro f64_round_mono mult_left_mono) (simp_all add: alpha_doubles)
    also have "\<dots> \<le> ?a * m * ?u" by (intro f64_round_upper norm) (simp add: alpha_doubles)
    finally show ?thesis .
  qed
  have b: "f64_mul ?b y \<le> ?b * m * ?u"
  proof -
    have "f64_mul ?b y \<le> f64_round (?b * m)"
      unfolding f64_mul_def using assms by (intro f64_round_mono mult_left_mono) (simp_all add: alpha_doubles)
    also have "\<dots> \<le> ?b * m * ?u" by (intro f64_round_upper norm) (simp add: alpha_doubles)
    finally show ?thesis .
  qed
  have "f64_mul ?a x + f64_mul ?b y \<le> (?a + ?b) * m * ?u"
    using a b by (simp add: distrib_right)
  also have "(?a + ?b) * m * ?u = m + m * (1 / 2 ^ 54 - 1 / 2 ^ 107)"
    unfolding alpha_doubles_sum by (simp add: field_simps)
  also have "\<dots> < m + m / 2 ^ 54" using m0 by (simp add: field_simps)
  finally have "f64_round (f64_mul ?a x + f64_mul ?b y) \<le> m"
    using assms(1) norm [of 1] by (intro f64_round_below_half_ulp) simp_all
  with False show ?thesis by (simp add: ewma_mix_def f64_add_def)
qed

lemma sample_ms_mono: "c \<le> d \<Longrightarrow> sample_ms c \<le> sample_ms d"
  by (simp add: sample_ms_def f64_div_def f64_of_int_def f64_round_mono divide_right_mono)

lemma sample_ms_nonneg: "0 \<le> d \<Longrightarrow> 0 \<le> sample_ms d"
  by (simp add: sample_ms_def f64_div_def f64_of_int_def f64_round_nonneg)

lemma sample_ms_is_f64: "is_f64 (sample_ms d)"
  by (simp add: sample_ms_def f64_div_def)

lemma sample_ms_1: "1 / 10 ^ 7 \<le> sample_ms 1"
  by code_simp

lemma sample_ms_pos: "0 < d \<Longrightarrow> 1 / 10 ^ 7 \<le> sample_ms d"
  using sample_ms_1 sample_ms_mono [of 1 d] by linarith

lemma ewma_run_bounds:
  assumes "\<forall>d \<in> set ds. 0 \<le> d \<and> d \<le> dmax" "0 < dmax" "0 \<le> ewma_val e" "ewma_val e \<le> sample_ms dmax"
  shows "0 \<le> ewma_val (fold ewma_Update ds e) \<and> ewma_val (fold ewma_Update ds e) \<le> sample_ms dmax"
  using assms
proof (induction ds arbitrary: e)
  case Nil
  then show ?case by simp
next
  case (Cons d ds)
  let ?e = "ewma_Update d e"
  have "0 \<le> ewma_val ?e" using Cons.prems by (simp add: ewma_Update_def ewma_mix_nonneg sample_ms_nonneg)
  moreover have "ewma_val ?e \<le> sample_ms dmax"
    unfolding ewma_Update_def using Cons.prems sample_ms_pos [of dmax]
    by simp (intro ewma_mix_le sample_ms_is_f64 sample_ms_mono sample_ms_nonneg; simp)
  ultimately show ?case using Cons by simp
qed

text \<open>However many samples are recorded, the average an endpoint reports is never negative and
  never above the largest sample, exactly and not only up to rounding: in the source's double
  arithmetic the two weights sum to just below one, which absorbs the rounding of the products
  and of the sum.\<close>

theorem ewma_bounded:
  assumes "\<forall>d \<in> set ds. 0 \<le> d \<and> d \<le> dmax" "0 < dmax"
  shows "0 \<le> ewma_Value (fold ewma_Update ds new_ewma)
       \<and> ewma_Value (fold ewma_Update ds new_ewma) \<le> sample_ms dmax"
  using ewma_run_bounds [OF assms, of new_ewma] sample_ms_nonneg [of dmax] assms(2)
  by (simp add: new_ewma_def ewma_Value_def)

theorem ewma_bounded_witness:
  "ewma_Value (fold ewma_Update [5000000, 9000000, 7000000] new_ewma) \<le> sample_ms 9000000"
  using ewma_bounded [of "[5000000, 9000000, 7000000]" 9000000] by simp

subsection \<open>Concurrent updates\<close>

text \<open>
  A goroutine in \<open>Update\<close>: before \<open>count.Add\<close>, at the top of the loop with its sample,
  between the load and the compare-and-swap with the value it loaded, or returned.
\<close>

datatype upd_pc =
    AtAdd int
  | AtLoad f64
  | AtCAS f64 f64
  | Returned f64

record ewma_sys =
  cell :: ewma
  pcs :: "upd_pc list"

definition ewma_start :: "int list \<Rightarrow> ewma_sys" where
  "ewma_start ds = \<lparr>cell = new_ewma, pcs = map AtAdd ds\<rparr>"

inductive upd_step :: "ewma_sys \<Rightarrow> ewma_sys \<Rightarrow> bool" where
  add: "i < length (pcs s) \<Longrightarrow> pcs s ! i = AtAdd d \<Longrightarrow>
    upd_step s (s\<lparr>cell := (cell s)\<lparr>ewma_count := ewma_count (cell s) + 1\<rparr>,
                  pcs := (pcs s)[i := AtLoad (sample_ms d)]\<rparr>)"
| load: "i < length (pcs s) \<Longrightarrow> pcs s ! i = AtLoad x \<Longrightarrow>
    upd_step s (s\<lparr>pcs := (pcs s)[i := AtCAS x (ewma_val (cell s))]\<rparr>)"
| cas_ok: "i < length (pcs s) \<Longrightarrow> pcs s ! i = AtCAS x old \<Longrightarrow> ewma_val (cell s) = old \<Longrightarrow>
    upd_step s (s\<lparr>cell := (cell s)\<lparr>ewma_val := ewma_mix x old\<rparr>, pcs := (pcs s)[i := Returned x]\<rparr>)"
| cas_fail: "i < length (pcs s) \<Longrightarrow> pcs s ! i = AtCAS x old \<Longrightarrow> ewma_val (cell s) \<noteq> old \<Longrightarrow>
    upd_step s (s\<lparr>pcs := (pcs s)[i := AtLoad x]\<rparr>)"

inductive upd_reach :: "int list \<Rightarrow> ewma_sys \<Rightarrow> bool" for ds where
  start: "upd_reach ds (ewma_start ds)"
| step: "upd_reach ds s \<Longrightarrow> upd_step s t \<Longrightarrow> upd_reach ds t"

fun returned :: "upd_pc \<Rightarrow> bool" where
  "returned (Returned _) = True"
| "returned _ = False"

fun counted :: "upd_pc \<Rightarrow> bool" where
  "counted (AtAdd _) = False"
| "counted _ = True"

lemma returned_counted: "returned p \<Longrightarrow> counted p"
  by (cases p) simp_all

text \<open>The sample a goroutine carries.\<close>

fun pc_sample :: "upd_pc \<Rightarrow> f64" where
  "pc_sample (AtAdd d) = sample_ms d"
| "pc_sample (AtLoad x) = x"
| "pc_sample (AtCAS x old) = x"
| "pc_sample (Returned x) = x"

definition upd_inv :: "int list \<Rightarrow> ewma_sys \<Rightarrow> bool" where
  "upd_inv ds s \<longleftrightarrow>
     map pc_sample (pcs s) = map sample_ms ds \<and>
     ewma_count (cell s) = of_nat (length (filter counted (pcs s))) \<and>
     (\<exists>order. mset order = mset (map pc_sample (filter returned (pcs s))) \<and>
        ewma_val (cell s) = fold ewma_mix order 0)"

lemma list_update_split:
  assumes "i < length xs"
  obtains a x b where "xs = a @ x # b" "xs ! i = x" "\<And>y. xs[i := y] = a @ y # b"
  using assms id_take_nth_drop [of i xs] upd_conv_take_nth_drop [of i xs] by blast

lemma filter_update_same:
  assumes "i < length xs" "P y = P (xs ! i)" "P y \<Longrightarrow> f y = f (xs ! i)"
  shows "map f (filter P (xs[i := y])) = map f (filter P xs)"
proof -
  obtain a x b where "xs = a @ x # b" "xs ! i = x" "\<And>y. xs[i := y] = a @ y # b"
    using list_update_split [OF assms(1)] by blast
  with assms(2,3) show ?thesis by auto
qed

lemma filter_update_new:
  assumes "i < length xs" "P y" "\<not> P (xs ! i)"
  shows "mset (filter P (xs[i := y])) = add_mset y (mset (filter P xs))"
proof -
  obtain a x b where "xs = a @ x # b" "xs ! i = x" "\<And>y. xs[i := y] = a @ y # b"
    using list_update_split [OF assms(1)] by blast
  with assms(2,3) show ?thesis by simp
qed

lemma filter_update_length:
  assumes "i < length xs"
  shows "P y = P (xs ! i) \<Longrightarrow> length (filter P (xs[i := y])) = length (filter P xs)"
    and "P y \<Longrightarrow> \<not> P (xs ! i) \<Longrightarrow> length (filter P (xs[i := y])) = Suc (length (filter P xs))"
proof -
  obtain a x b where "xs = a @ x # b" "xs ! i = x" "\<And>y. xs[i := y] = a @ y # b"
    using list_update_split [OF assms] by blast
  then show "P y = P (xs ! i) \<Longrightarrow> length (filter P (xs[i := y])) = length (filter P xs)"
    and "P y \<Longrightarrow> \<not> P (xs ! i) \<Longrightarrow> length (filter P (xs[i := y])) = Suc (length (filter P xs))"
    by simp_all
qed

lemma map_update_same: "i < length xs \<Longrightarrow> f y = f (xs ! i) \<Longrightarrow> map f (xs[i := y]) = map f xs"
  by (metis list_update_id map_update)

lemmas pc_update = map_update_same filter_update_length filter_update_same

lemma upd_inv_start: "upd_inv ds (ewma_start ds)"
  by (simp add: upd_inv_def ewma_start_def new_ewma_def o_def)

lemma upd_step_inv:
  assumes "upd_step s t" "upd_inv ds s"
  shows "upd_inv ds t"
  using assms
proof (induction rule: upd_step.induct)
  case (add i s d)
  let ?xs = "(pcs s)[i := AtLoad (sample_ms d)]"
  have "length (filter counted ?xs) = Suc (length (filter counted (pcs s)))"
    using add.hyps by (simp add: filter_update_length)
  moreover have "map pc_sample (filter returned ?xs) = map pc_sample (filter returned (pcs s))"
    "map pc_sample ?xs = map pc_sample (pcs s)"
    using add.hyps by (simp_all add: filter_update_same map_update_same)
  ultimately show ?case using add.prems by (simp add: upd_inv_def)
next
  case (load i s x)
  then show ?case by (simp add: upd_inv_def pc_update)
next
  case (cas_ok i s x old)
  then obtain order where order: "mset order = mset (map pc_sample (filter returned (pcs s)))"
    "ewma_val (cell s) = fold ewma_mix order 0"
    by (auto simp: upd_inv_def)
  have "mset (order @ [x]) = mset (map pc_sample (filter returned ((pcs s)[i := Returned x])))"
    using filter_update_new [of i "pcs s" returned "Returned x"] cas_ok.hyps order(1) by simp
  moreover have "ewma_mix x old = fold ewma_mix (order @ [x]) 0"
    using cas_ok.hyps order(2) by simp
  ultimately have "\<exists>order. mset order = mset (map pc_sample (filter returned ((pcs s)[i := Returned x])))
      \<and> ewma_mix x old = fold ewma_mix order 0" by blast
  then show ?case using cas_ok by (simp add: upd_inv_def pc_update)
next
  case (cas_fail i s x old)
  then show ?case by (simp add: upd_inv_def pc_update)
qed

lemma upd_reach_inv: "upd_reach ds s \<Longrightarrow> upd_inv ds s"
  by (induction rule: upd_reach.induct) (auto intro: upd_inv_start upd_step_inv)

lemma mset_map_permutation:
  "mset ys = mset (map f xs) \<Longrightarrow> \<exists>xs'. mset xs' = mset xs \<and> map f xs' = ys"
proof (induction ys arbitrary: xs)
  case Nil
  then show ?case by simp
next
  case (Cons y ys)
  then have "y \<in> set (map f xs)" by (metis list.set_intros(1) mset_eq_setD)
  then obtain x where x: "x \<in> set xs" "y = f x" by auto
  from x(1) obtain a b where xs: "xs = a @ x # b" by (meson split_list)
  with Cons.prems x have "mset ys = mset (map f (a @ b))" by simp
  with Cons.IH obtain xs' where "mset xs' = mset (a @ b)" "map f xs' = ys" by blast
  with x xs show ?case by (intro exI [of _ "x # xs'"]) simp
qed

lemma fold_ewma_Update:
  "ewma_val (fold ewma_Update ds e) = fold ewma_mix (map sample_ms ds) (ewma_val e)"
  "ewma_count (fold ewma_Update ds e) = of_nat (length ds) + ewma_count e"
  by (induction ds arbitrary: e) (simp_all add: ewma_Update_def)

text \<open>C39: Concurrent updates are linearizable and none is lost: whatever the interleaving of
  goroutines, when all have returned the average is the one a sequential run of the same
  samples in some order gives, and the counter is their number (modulo \<open>2^64\<close>).\<close>

theorem ewma_concurrent_sequential:
  assumes "upd_reach ds s" "\<forall>p \<in> set (pcs s). returned p"
  shows "\<exists>order. mset order = mset ds \<and> cell s = fold ewma_Update order new_ewma"
proof -
  from upd_reach_inv [OF assms(1)] obtain order where
    samples: "map pc_sample (pcs s) = map sample_ms ds" and
    count: "ewma_count (cell s) = of_nat (length (filter counted (pcs s)))" and
    order: "mset order = mset (map pc_sample (filter returned (pcs s)))"
      "ewma_val (cell s) = fold ewma_mix order 0"
    by (auto simp: upd_inv_def)
  have all: "filter returned (pcs s) = pcs s" "filter counted (pcs s) = pcs s"
    using assms(2) returned_counted by (auto simp: filter_id_conv)
  with order(1) samples have "mset order = mset (map sample_ms ds)" by simp
  then obtain ds' where ds': "mset ds' = mset ds" "map sample_ms ds' = order"
    using mset_map_permutation by blast
  have "length ds' = length (pcs s)" using samples ds'(1) by (metis length_map size_mset)
  with ds'(2) order(2) count all(2) have "cell s = fold ewma_Update ds' new_ewma"
    by (intro ewma.equality) (simp_all add: fold_ewma_Update new_ewma_def)
  with ds'(1) show ?thesis by blast
qed

text \<open>A run of two goroutines in which the second's compare-and-swap comes between the first's
  load and compare-and-swap, so that the first has to retry.\<close>

definition race_end :: ewma_sys where
  "race_end = \<lparr>cell = fold ewma_Update [3000000, 1000000] new_ewma,
               pcs = [Returned (sample_ms 1000000), Returned (sample_ms 3000000)]\<rparr>"

lemma samples_race: "sample_ms 1000000 = 1" "sample_ms 3000000 = 3"
proof -
  show "sample_ms 1000000 = 1" using f64_round_exact [of 1 0] by (simp add: sample_ms_def f64_div_def)
  show "sample_ms 3000000 = 3" using f64_round_exact [of 3 0] by (simp add: sample_ms_def f64_div_def)
qed

lemma upd_stepI:
  "i < length (pcs s) \<Longrightarrow> pcs s ! i = AtAdd d \<Longrightarrow>
     t = s\<lparr>cell := (cell s)\<lparr>ewma_count := ewma_count (cell s) + 1\<rparr>, pcs := (pcs s)[i := AtLoad (sample_ms d)]\<rparr> \<Longrightarrow>
     upd_step s t"
  "i < length (pcs s) \<Longrightarrow> pcs s ! i = AtLoad x \<Longrightarrow>
     t = s\<lparr>pcs := (pcs s)[i := AtCAS x (ewma_val (cell s))]\<rparr> \<Longrightarrow> upd_step s t"
  "i < length (pcs s) \<Longrightarrow> pcs s ! i = AtCAS x old \<Longrightarrow> ewma_val (cell s) = old \<Longrightarrow>
     t = s\<lparr>cell := (cell s)\<lparr>ewma_val := ewma_mix x old\<rparr>, pcs := (pcs s)[i := Returned x]\<rparr> \<Longrightarrow> upd_step s t"
  "i < length (pcs s) \<Longrightarrow> pcs s ! i = AtCAS x old \<Longrightarrow> ewma_val (cell s) \<noteq> old \<Longrightarrow>
     t = s\<lparr>pcs := (pcs s)[i := AtLoad x]\<rparr> \<Longrightarrow> upd_step s t"
  using upd_step.intros by blast+

lemma race_reachable: "upd_reach [1000000, 3000000] race_end"
proof -
  let ?r = "upd_reach [1000000, 3000000]"
  let ?e = "\<lambda>v n ps. \<lparr>cell = \<lparr>ewma_val = v, ewma_count = n\<rparr>, pcs = ps\<rparr>"
  have "?r (?e 0 0 [AtAdd 1000000, AtAdd 3000000])"
    using upd_reach.start [of "[1000000, 3000000]"] by (simp add: ewma_start_def new_ewma_def)
  then have "?r (?e 0 1 [AtLoad 1, AtAdd 3000000])"
    by (rule upd_reach.step) (rule upd_stepI(1) [of 0 _ 1000000]; simp add: samples_race)
  then have "?r (?e 0 2 [AtLoad 1, AtLoad 3])"
    by (rule upd_reach.step) (rule upd_stepI(1) [of 1 _ 3000000]; simp add: samples_race)
  then have "?r (?e 0 2 [AtCAS 1 0, AtLoad 3])"
    by (rule upd_reach.step) (rule upd_stepI(2) [of 0 _ 1]; simp)
  then have "?r (?e 0 2 [AtCAS 1 0, AtCAS 3 0])"
    by (rule upd_reach.step) (rule upd_stepI(2) [of 1 _ 3]; simp)
  then have "?r (?e 3 2 [AtCAS 1 0, Returned 3])"
    by (rule upd_reach.step) (rule upd_stepI(3) [of 1 _ 3 0]; simp add: ewma_mix_def)
  then have "?r (?e 3 2 [AtLoad 1, Returned 3])"
    by (rule upd_reach.step) (rule upd_stepI(4) [of 0 _ 1 0]; simp)
  then have "?r (?e 3 2 [AtCAS 1 3, Returned 3])"
    by (rule upd_reach.step) (rule upd_stepI(2) [of 0 _ 1]; simp)
  then have "?r (?e (ewma_mix 1 3) 2 [Returned 1, Returned 3])"
    by (rule upd_reach.step) (rule upd_stepI(3) [of 0 _ 1 3]; simp)
  moreover have "race_end = ?e (ewma_mix 1 3) 2 [Returned 1, Returned 3]"
    by (simp add: race_end_def ewma_Update_def new_ewma_def samples_race ewma_mix_def [of 3 0])
  ultimately show ?thesis by simp
qed

theorem ewma_concurrent_sequential_witness:
  "\<exists>order. mset order = mset [1000000, 3000000] \<and> cell race_end = fold ewma_Update order new_ewma"
  by (rule ewma_concurrent_sequential [OF race_reachable]) (simp add: race_end_def)

end
