(* ===== verification/Middleware.thy ===== *)
theory Middleware
  imports Http TokenStore LogStore Latency
begin

text \<open>
  \<open>internal/middleware\<close>: request ids, authentication, rate limiting in memory and in Redis, access
  logging and metrics. A middleware turns the next handler into a handler; \<open>'s\<close> is the state shared
  by the process. The clock readings, the fresh UUID and the token-bucket limiter of
  \<open>golang.org/x/time/rate\<close> are arguments.
\<close>

subsection \<open>Request ids\<close>

definition HeaderXRequestID :: string where "HeaderXRequestID = ''X-Request-Id''"

definition RequestID :: "string \<Rightarrow> 's handler \<Rightarrow> 's handler" where
  "RequestID uuid next s c =
     (let h = hdr_get (rq_Header c) HeaderXRequestID;
          i = (if h = [] then uuid else h)
      in next s (set_resp_header HeaderXRequestID i (c\<lparr>cv_RequestID := Some i\<rparr>)))"

subsection \<open>Authentication\<close>

definition extractToken :: "string \<Rightarrow> string \<times> string" where
  "extractToken path =
     (let trimmed = trim_prefix path ''/''
      in if trimmed = [] then ([], ''/'')
         else case index_byte trimmed (CHR ''/'') of
           None \<Rightarrow> (trimmed, ''/'')
         | Some idx \<Rightarrow> (take idx trimmed, drop idx trimmed))"

definition Auth :: "(string \<Rightarrow> 's \<Rightarrow> token_info option \<times> 's) \<Rightarrow> int \<Rightarrow> 's handler \<Rightarrow> 's handler" where
  "Auth lookup now next s c =
     (case extractToken (rq_Path c) of (token, remaining) \<Rightarrow>
        if token = [] then (Some (HTTPError 401 ''missing authentication token''), c, s)
        else case lookup token s of (found, s') \<Rightarrow>
          (case found of
             None \<Rightarrow> (Some (HTTPError 401 ''invalid authentication token''), c, s')
           | Some info \<Rightarrow>
               if \<not> ti_Enabled info then (Some (HTTPError 403 ''token is disabled''), c, s')
               else if IsExpired now info then (Some (HTTPError 401 ''token has expired''), c, s')
               else next s' (c\<lparr>rq_Path := remaining, rq_RawPath := [], cv_TokenName := Some (ti_Name info),
                              cv_RateLimit := Some (ti_RateLimit info), cv_TokenInfo := Some info\<rparr>)))"

lemma extractToken_path:
  assumes "tok \<noteq> []" "CHR ''/'' \<notin> set tok" "rest = [] \<or> hd rest = CHR ''/''"
  shows "extractToken (CHR ''/'' # tok @ rest) = (tok, if rest = [] then ''/'' else rest)"
proof -
  have t: "trim_prefix (CHR ''/'' # tok @ rest) ''/'' = tok @ rest" by (simp add: trim_prefix_def)
  show ?thesis
  proof (cases rest)
    case Nil
    then show ?thesis using t assms by (simp add: extractToken_def index_byte_None [THEN iffD2])
  next
    case (Cons a r)
    then have "index_byte (tok @ rest) (CHR ''/'') = Some (length tok)" using assms by (simp add: index_byte_append)
    with t Cons assms(1) show ?thesis by (simp add: extractToken_def)
  qed
qed

text \<open>A token that lets a request through.\<close>

definition admits :: "int \<Rightarrow> token_info \<Rightarrow> bool" where
  "admits now info \<longleftrightarrow> ti_Enabled info \<and> \<not> IsExpired now info"

definition admitted_ctx :: "token_info \<Rightarrow> string \<Rightarrow> ctx \<Rightarrow> ctx" where
  "admitted_ctx info remaining c =
     c\<lparr>rq_Path := remaining, rq_RawPath := [], cv_TokenName := Some (ti_Name info),
       cv_RateLimit := Some (ti_RateLimit info), cv_TokenInfo := Some info\<rparr>"

context token_lookup begin

lemma Auth_admits:
  assumes "ok s" "fst (extractToken (rq_Path c)) \<noteq> []"
    "known s (fst (extractToken (rq_Path c))) = Some info" "admits now info"
  shows "Auth (lookup e) now next s c =
     next (snd (lookup e (fst (extractToken (rq_Path c))) s)) (admitted_ctx info (snd (extractToken (rq_Path c))) c)"
  using assms lookup_known [OF assms(1), of e "fst (extractToken (rq_Path c))"]
  by (cases "lookup e (fst (extractToken (rq_Path c))) s")
    (simp add: Auth_def split_beta admits_def admitted_ctx_def)

lemma Auth_rejects:
  assumes "ok s"
    "fst (extractToken (rq_Path c)) = [] \<or> known s (fst (extractToken (rq_Path c))) = None
       \<or> (\<exists>info. known s (fst (extractToken (rq_Path c))) = Some info \<and> \<not> admits now info)"
  shows "\<exists>code msg s'. Auth (lookup e) now next s c = (Some (HTTPError code msg), c, s') \<and> code \<in> {401, 403}
     \<and> ok s' \<and> (\<forall>t. known s' t = known s t)"
  using assms lookup_known [OF assms(1), of e "fst (extractToken (rq_Path c))"]
    lookup_ok [OF assms(1), of e "fst (extractToken (rq_Path c))"] known_lookup [OF assms(1), of e "fst (extractToken (rq_Path c))"]
  by (cases "lookup e (fst (extractToken (rq_Path c))) s")
    (auto simp: Auth_def split_beta admits_def split: option.split)

end

text \<open>With the token table, a request for \<open>/token/rest\<close> reaches the next handler exactly when the
  table knows the token and it is enabled and not expired; then the path it sees is the rest alone,
  with the token's name, rate limit and metadata attached. Otherwise it ends with 401 or 403, the
  context untouched, whatever the next handler is.\<close>

theorem auth_gate:
  assumes "coherent s" "rq_Path c = CHR ''/'' # tok @ rest" "tok \<noteq> []" "CHR ''/'' \<notin> set tok"
    "rest = [] \<or> hd rest = CHR ''/''"
  shows "case stored H s tok of
       Some info \<Rightarrow>
         if admits now info
         then \<exists>s'. coherent s' \<and> ts_db s' = ts_db s \<and> Auth (sqlite_Lookup H e) now next s c =
                next s' (admitted_ctx info (if rest = [] then ''/'' else rest) c)
         else \<exists>code msg s'. Auth (sqlite_Lookup H e) now next s c = (Some (HTTPError code msg), c, s') \<and> code \<in> {401, 403}
     | None \<Rightarrow> \<exists>code msg s'. Auth (sqlite_Lookup H e) now next s c = (Some (HTTPError code msg), c, s') \<and> code \<in> {401, 403}"
proof -
  have x: "extractToken (rq_Path c) = (tok, if rest = [] then ''/'' else rest)"
    using extractToken_path [OF assms(3-5)] assms(2) by simp
  show ?thesis
    using sql.Auth_admits [OF assms(1), of c H _ now e "next"] sql.Auth_rejects [OF assms(1), of c H now e "next"]
      Lookup_coherent(2,3) [OF assms(1), of H e tok] assms(3) x
    by (auto split: option.split)
qed

theorem auth_gate_witness:
  "\<exists>s'. Auth (sqlite_Lookup id (fresh_env 9 [])) 9 (\<lambda>s c. (None, c, s)) one_store
     (new_ctx ''/4142/status'' [] Map.empty [] []) =
       (None, admitted_ctx (info_of_row one_row) ''/status'' (new_ctx ''/4142/status'' [] Map.empty [] []), s')"
proof -
  have "stored id one_store ''4142'' = Some (info_of_row one_row)"
    by (simp add: stored_def hashToken_def hex_AB one_store_eq row_with_hash_def) (simp add: one_row_def)
  moreover have "admits 9 (info_of_row one_row)"
    by (simp add: admits_def info_of_row_def one_row_def IsExpired_def)
  ultimately show ?thesis
    using auth_gate [OF one_store_wf(1), of "new_ctx ''/4142/status'' [] Map.empty [] []" "''4142''" "''/status''"
        id "fresh_env 9 []" 9 "\<lambda>s c. (None, c, s)"]
    by (auto simp: new_ctx_def)
qed

subsection \<open>Rate limiting in memory\<close>

text \<open>Go's integer division truncates toward zero.\<close>

definition go_quot :: "int \<Rightarrow> int \<Rightarrow> int" where
  "go_quot a b = (if (a < 0) = (b < 0) then \<bar>a\<bar> div \<bar>b\<bar> else - (\<bar>a\<bar> div \<bar>b\<bar>))"

text \<open>
  The limiters by token name. \<open>new_limiter\<close> is \<open>rate.NewLimiter\<close> on the rate per second and the
  burst, \<open>allow\<close> the method \<open>Allow\<close> at the current instant.
\<close>

type_synonym 'l limiters = "string \<rightharpoonup> 'l"

definition rate_per_second :: "int \<Rightarrow> f64" where
  "rate_per_second ratePerMinute = f64_div (f64_of_int ratePerMinute) 60"

definition burst_of :: "int \<Rightarrow> int" where
  "burst_of ratePerMinute = (let b = go_quot ratePerMinute 10 in if b < 1 then 1 else b)"

definition GetLimiter :: "(f64 \<Rightarrow> int \<Rightarrow> 'l) \<Rightarrow> string \<Rightarrow> int \<Rightarrow> 'l limiters \<Rightarrow> 'l option \<times> 'l limiters" where
  "GetLimiter new_limiter tokenName ratePerMinute ls =
     (if ratePerMinute \<le> 0 then (None, ls)
      else case ls tokenName of
        Some l \<Rightarrow> (Some l, ls)
      | None \<Rightarrow> (let l = new_limiter (rate_per_second ratePerMinute) (burst_of ratePerMinute)
                 in (Some l, ls(tokenName \<mapsto> l))))"

definition memory_allow ::
  "(f64 \<Rightarrow> int \<Rightarrow> 'l) \<Rightarrow> ('l \<Rightarrow> bool \<times> 'l) \<Rightarrow> string \<Rightarrow> int \<Rightarrow> 'l limiters \<Rightarrow> bool \<times> 'l limiters" where
  "memory_allow new_limiter allow tokenName ratePerMinute ls =
     (case GetLimiter new_limiter tokenName ratePerMinute ls of
        (None, ls') \<Rightarrow> (True, ls')
      | (Some l, ls') \<Rightarrow> (case allow l of (ok, l') \<Rightarrow> (ok, ls'(tokenName \<mapsto> l'))))"

text \<open>The middleware; \<open>decide\<close> is the limiter's answer.\<close>

definition RateLimit :: "(string \<Rightarrow> int \<Rightarrow> 's \<Rightarrow> bool \<times> 's) \<Rightarrow> 's handler \<Rightarrow> 's handler" where
  "RateLimit decide next s c =
     (case (cv_TokenName c, cv_RateLimit c) of
        (Some tokenName, Some ratePerMinute) \<Rightarrow>
          if ratePerMinute = 0 then next s c
          else (case decide tokenName ratePerMinute s of
                  (True, s') \<Rightarrow> next s' c
                | (False, s') \<Rightarrow>
                    (Some (HTTPError 429 ''rate limit exceeded''),
                     set_resp_header ''Retry-After'' (show_int (go_quot 60 ratePerMinute + 1)) c, s'))
      | _ \<Rightarrow> next s c)"

text \<open>The Redis variant has no nil limiter to look for.\<close>

definition RedisRateLimit :: "(string \<Rightarrow> int \<Rightarrow> 's \<Rightarrow> bool \<times> 's) \<Rightarrow> 's handler \<Rightarrow> 's handler" where
  "RedisRateLimit Allow next s c =
     (if cv_TokenName c = None \<or> cv_RateLimit c = None then next s c
      else let tokenName = the (cv_TokenName c); ratePerMinute = the (cv_RateLimit c)
           in if ratePerMinute = 0 then next s c
              else (case Allow tokenName ratePerMinute s of (allowed, s') \<Rightarrow>
                if \<not> allowed then
                  (Some (HTTPError 429 ''rate limit exceeded''),
                   set_resp_header ''Retry-After'' (show_int (go_quot 60 ratePerMinute + 1)) c, s')
                else next s' c))"

lemma RedisRateLimit_eq: "RedisRateLimit = RateLimit"
  by (intro ext) (auto simp: RedisRateLimit_def RateLimit_def Let_def split: option.split prod.split bool.split)

text \<open>The decisions on a sequence of calls, each a token name and the rate its token then has.\<close>

fun decisions :: "(string \<Rightarrow> int \<Rightarrow> 's \<Rightarrow> bool \<times> 's) \<Rightarrow> (string \<times> int) list \<Rightarrow> 's \<Rightarrow> bool list \<times> 's" where
  "decisions decide [] s = ([], s)"
| "decisions decide ((n, r) # calls) s =
     (let (ok, s1) = decide n r s; (oks, s2) = decisions decide calls s1 in (ok # oks, s2))"

text \<open>One bucket asked \<open>k\<close> times.\<close>

fun bucket_run :: "('l \<Rightarrow> bool \<times> 'l) \<Rightarrow> nat \<Rightarrow> 'l \<Rightarrow> bool list \<times> 'l" where
  "bucket_run allow 0 l = ([], l)"
| "bucket_run allow (Suc k) l = (let (ok, l1) = allow l; (oks, l2) = bucket_run allow k l1 in (ok # oks, l2))"

definition calls_of :: "string \<Rightarrow> (string \<times> int) list \<Rightarrow> int list" where
  "calls_of n calls = map snd (filter (\<lambda>(m, r). m = n \<and> 0 < r) calls)"

text \<open>The answers given to one name's limited calls.\<close>

definition answers_to :: "string \<Rightarrow> (string \<times> int) list \<Rightarrow> bool list \<Rightarrow> bool list" where
  "answers_to n calls oks = map snd (filter (\<lambda>((m, r), ok). m = n \<and> 0 < r) (zip calls oks))"

lemma decisions_known:
  assumes "ls n = Some l"
  shows "answers_to n calls (fst (decisions (memory_allow nl allow) calls ls)) = fst (bucket_run allow (length (calls_of n calls)) l)"
  using assms
proof (induction calls arbitrary: ls l)
  case Nil
  then show ?case by (simp add: answers_to_def calls_of_def)
next
  case (Cons call calls)
  obtain m r where c: "call = (m, r)" by (cases call)
  show ?case
  proof (cases "m = n \<and> 0 < r")
    case True
    define ls1 where "ls1 = ls(n \<mapsto> snd (allow l))"
    have "memory_allow nl allow m r ls = (fst (allow l), ls1)"
      using True Cons.prems by (simp add: memory_allow_def GetLimiter_def split_beta ls1_def)
    moreover have "ls1 n = Some (snd (allow l))" by (simp add: ls1_def)
    ultimately show ?thesis using Cons.IH [of ls1 "snd (allow l)"] True
      by (simp add: c answers_to_def calls_of_def split_beta Let_def)
  next
    case False
    then have "snd (memory_allow nl allow m r ls) n = Some l"
      using Cons.prems by (auto simp: memory_allow_def GetLimiter_def split_beta Let_def split: option.splits)
    with Cons.IH [of "snd (memory_allow nl allow m r ls)" l] False show ?thesis
      by (auto simp: c answers_to_def calls_of_def split_beta Let_def)
  qed
qed

text \<open>In memory, the answers a token gets depend only on its own limited calls: they are those of
  one bucket made for the rate of its first limited call. Other tokens have no influence, and
  neither has any later change of the token's rate.\<close>

theorem limiter_by_first_rate:
  assumes "ls n = None" "calls_of n calls = r # rs"
  shows "answers_to n calls (fst (decisions (memory_allow nl allow) calls ls)) =
     fst (bucket_run allow (length (r # rs)) (nl (rate_per_second r) (burst_of r)))"
  using assms
proof (induction calls arbitrary: ls)
  case Nil
  then show ?case by (simp add: calls_of_def)
next
  case (Cons call calls)
  obtain m q where c: "call = (m, q)" by (cases call)
  let ?l = "nl (rate_per_second r) (burst_of r)"
  show ?case
  proof (cases "m = n \<and> 0 < q")
    case True
    then have q: "q = r" "calls_of n calls = rs" using Cons.prems(2) by (simp_all add: c calls_of_def)
    define ls1 where "ls1 = ls(n \<mapsto> snd (allow ?l))"
    have "memory_allow nl allow m q ls = (fst (allow ?l), ls1)"
      using True q(1) Cons.prems(1) by (simp add: memory_allow_def GetLimiter_def split_beta Let_def ls1_def)
    moreover have "ls1 n = Some (snd (allow ?l))" by (simp add: ls1_def)
    ultimately show ?thesis using decisions_known [of ls1 n "snd (allow ?l)" calls nl allow] True q
      by (simp add: c answers_to_def split_beta Let_def)
  next
    case False
    then have "snd (memory_allow nl allow m q ls) n = None" "calls_of n calls = r # rs"
      using Cons.prems by (auto simp: c calls_of_def memory_allow_def GetLimiter_def split_beta Let_def split: option.splits)
    with Cons.IH [of "snd (memory_allow nl allow m q ls)"] False show ?thesis
      by (auto simp: c answers_to_def split_beta Let_def)
  qed
qed

text \<open>A bucket of \<open>burst\<close> tokens that is not refilled during the run.\<close>

definition drain :: "int \<Rightarrow> bool \<times> int" where
  "drain k = (if 0 < k then (True, k - 1) else (False, k))"

theorem limiter_by_first_rate_witness:
  "answers_to ''ci'' [(''ci'', 20), (''x'', 5), (''ci'', 600), (''ci'', 600)]
     (fst (decisions (memory_allow (\<lambda>rps burst. burst) drain) [(''ci'', 20), (''x'', 5), (''ci'', 600), (''ci'', 600)] Map.empty))
     = [True, True, False]"
proof -
  have c: "calls_of ''ci'' [(''ci'', 20), (''x'', 5), (''ci'', 600), (''ci'', 600)] = 20 # [600, 600]"
    by (simp add: calls_of_def)
  show ?thesis
    by (subst limiter_by_first_rate [OF _ c]) (simp_all add: burst_of_def go_quot_def drain_def Let_def)
qed

subsubsection \<open>The double-checked lock\<close>

text \<open>
  \<open>GetLimiter\<close> under concurrency: limiters are pointers (numbers), each goroutine reads the map
  under the read lock and, on a miss, takes the write lock and checks again before creating one.
\<close>

datatype gl_pc = GLStart string | GLMiss string | GLGot string nat

record gl_sys =
  gl_map :: "string \<rightharpoonup> nat"
  gl_fresh :: nat
  gl_threads :: "gl_pc list"

inductive gl_step :: "gl_sys \<Rightarrow> gl_sys \<Rightarrow> bool" where
  read_hit: "i < length (gl_threads s) \<Longrightarrow> gl_threads s ! i = GLStart n \<Longrightarrow> gl_map s n = Some l \<Longrightarrow>
     gl_step s (s\<lparr>gl_threads := (gl_threads s)[i := GLGot n l]\<rparr>)"
| read_miss: "i < length (gl_threads s) \<Longrightarrow> gl_threads s ! i = GLStart n \<Longrightarrow> gl_map s n = None \<Longrightarrow>
     gl_step s (s\<lparr>gl_threads := (gl_threads s)[i := GLMiss n]\<rparr>)"
| lock_hit: "i < length (gl_threads s) \<Longrightarrow> gl_threads s ! i = GLMiss n \<Longrightarrow> gl_map s n = Some l \<Longrightarrow>
     gl_step s (s\<lparr>gl_threads := (gl_threads s)[i := GLGot n l]\<rparr>)"
| lock_create: "i < length (gl_threads s) \<Longrightarrow> gl_threads s ! i = GLMiss n \<Longrightarrow> gl_map s n = None \<Longrightarrow>
     gl_step s (s\<lparr>gl_threads := (gl_threads s)[i := GLGot n (gl_fresh s)],
                 gl_map := (gl_map s)(n \<mapsto> gl_fresh s), gl_fresh := gl_fresh s + 1\<rparr>)"

inductive gl_reach :: "string list \<Rightarrow> gl_sys \<Rightarrow> bool" where
  start: "gl_reach names \<lparr>gl_map = Map.empty, gl_fresh = 0, gl_threads = map GLStart names\<rparr>"
| step: "gl_reach names s \<Longrightarrow> gl_step s t \<Longrightarrow> gl_reach names t"

definition gl_inv :: "gl_sys \<Rightarrow> bool" where
  "gl_inv s \<longleftrightarrow> (\<forall>n l. GLGot n l \<in> set (gl_threads s) \<longrightarrow> gl_map s n = Some l)
     \<and> (\<forall>n l. gl_map s n = Some l \<longrightarrow> l < gl_fresh s)
     \<and> (\<forall>m n l. gl_map s m = Some l \<longrightarrow> gl_map s n = Some l \<longrightarrow> m = n)"

lemma gl_threads_update:
  "GLGot n l \<in> set (ts[i := p]) \<Longrightarrow> p = GLGot n l \<or> GLGot n l \<in> set ts"
  using set_update_subset_insert [of ts i p] by auto

lemma gl_step_inv:
  assumes "gl_step s t" "gl_inv s"
  shows "gl_inv t"
  using assms(1)
proof (cases rule: gl_step.cases)
  case (lock_create i n)
  show ?thesis unfolding gl_inv_def
  proof (intro conjI allI impI)
    fix m l assume "GLGot m l \<in> set (gl_threads t)"
    then have "GLGot m l = GLGot n (gl_fresh s) \<or> GLGot m l \<in> set (gl_threads s)"
      using gl_threads_update [of m l "gl_threads s" i "GLGot n (gl_fresh s)"] lock_create(1) by auto
    then show "gl_map t m = Some l" using lock_create assms(2) by (auto simp: gl_inv_def)
  next
    fix m l assume "gl_map t m = Some l"
    then show "l < gl_fresh t" using lock_create assms(2) by (auto simp: gl_inv_def less_Suc_eq split: if_splits)
  next
    fix m m' l assume "gl_map t m = Some l" "gl_map t m' = Some l"
    then show "m = m'" using lock_create assms(2) by (auto simp: gl_inv_def split: if_splits)
  qed
qed (use assms(2) in \<open>auto simp: gl_inv_def dest!: gl_threads_update\<close>)

lemma gl_reach_inv: "gl_reach names s \<Longrightarrow> gl_inv s"
  by (induction rule: gl_reach.induct) (auto simp: gl_inv_def [of "\<lparr>gl_map = Map.empty, gl_fresh = 0, gl_threads = map GLStart ns\<rparr>" for ns] intro: gl_step_inv)

text \<open>However the goroutines interleave, two requests of one token always get the same limiter
  and requests of different tokens different ones: the second check under the write lock makes the
  creation of a limiter happen once per token.\<close>

theorem one_limiter_per_token:
  assumes "gl_reach names s" "i < length (gl_threads s)" "j < length (gl_threads s)"
    "gl_threads s ! i = GLGot m l" "gl_threads s ! j = GLGot n k"
  shows "m = n \<longleftrightarrow> l = k"
proof -
  have "GLGot m l \<in> set (gl_threads s)" "GLGot n k \<in> set (gl_threads s)"
    using assms(2-5) by (metis nth_mem)+
  then have "gl_map s m = Some l" "gl_map s n = Some k"
    using gl_reach_inv [OF assms(1)] by (auto simp: gl_inv_def)
  moreover have "gl_map s m = Some l \<Longrightarrow> gl_map s n = Some l \<Longrightarrow> m = n"
    using gl_reach_inv [OF assms(1)] unfolding gl_inv_def by blast
  ultimately show ?thesis by auto
qed

text \<open>Both requests of one token miss under the read lock; the second then finds the limiter of the first.\<close>

lemma gl_race_reachable:
  "gl_reach [''a'', ''a''] \<lparr>gl_map = [''a'' \<mapsto> 0], gl_fresh = 1, gl_threads = [GLGot ''a'' 0, GLGot ''a'' 0]\<rparr>"
proof -
  have s: "gl_reach names t" if "gl_reach names s" "gl_step s t" for names s t
    using that by (rule gl_reach.step)
  have "gl_reach [''a'', ''a''] \<lparr>gl_map = Map.empty, gl_fresh = 0, gl_threads = [GLStart ''a'', GLStart ''a'']\<rparr>"
    using gl_reach.start [of "[''a'', ''a'']"] by simp
  then have "gl_reach [''a'', ''a''] \<lparr>gl_map = Map.empty, gl_fresh = 0, gl_threads = [GLMiss ''a'', GLStart ''a'']\<rparr>"
    by (rule s) (use gl_step.read_miss [of 0 "\<lparr>gl_map = Map.empty, gl_fresh = 0, gl_threads = [GLStart ''a'', GLStart ''a'']\<rparr>" "''a''"] in simp)
  then have "gl_reach [''a'', ''a''] \<lparr>gl_map = Map.empty, gl_fresh = 0, gl_threads = [GLMiss ''a'', GLMiss ''a'']\<rparr>"
    by (rule s) (use gl_step.read_miss [of 1 "\<lparr>gl_map = Map.empty, gl_fresh = 0, gl_threads = [GLMiss ''a'', GLStart ''a'']\<rparr>" "''a''"] in simp)
  then have "gl_reach [''a'', ''a''] \<lparr>gl_map = [''a'' \<mapsto> 0], gl_fresh = 1, gl_threads = [GLGot ''a'' 0, GLMiss ''a'']\<rparr>"
    by (rule s) (use gl_step.lock_create [of 0 "\<lparr>gl_map = Map.empty, gl_fresh = 0, gl_threads = [GLMiss ''a'', GLMiss ''a'']\<rparr>" "''a''"] in simp)
  then show ?thesis
    by (rule s) (use gl_step.lock_hit [of 1 "\<lparr>gl_map = [''a'' \<mapsto> 0], gl_fresh = 1, gl_threads = [GLGot ''a'' 0, GLMiss ''a'']\<rparr>" "''a''" 0] in simp)
qed

theorem one_limiter_per_token_witness:
  "gl_threads \<lparr>gl_map = [''a'' \<mapsto> 0], gl_fresh = 1, gl_threads = [GLGot ''a'' 0, GLGot ''a'' 0]\<rparr> ! 1 = GLGot ''a'' 0
     \<and> (''a'' = ''a'' \<longleftrightarrow> (0::nat) = 0)"
  using one_limiter_per_token [OF gl_race_reachable, of 0 1 "''a''" 0 "''a''" 0] by simp

subsection \<open>Rate limiting in Redis\<close>

text \<open>
  A sorted set per token: its members are the millisecond timestamps, each its own score, with the
  time the key expires. The pipeline removes what left the window, counts, adds the current
  millisecond and renews the expiry; a failing pipeline carries what it did of that.
\<close>

record redis_zset =
  zs_members :: "int list"
  zs_expires :: int

type_synonym redis_sets = "string \<rightharpoonup> redis_zset"

definition live_members :: "int \<Rightarrow> redis_zset option \<Rightarrow> int list" where
  "live_members now z = (case z of None \<Rightarrow> [] | Some z \<Rightarrow> if zs_expires z \<le> now then [] else zs_members z)"

definition redis_key :: "string \<Rightarrow> string" where "redis_key n = ''ratelimit:'' @ n"

definition redis_Allow :: "(redis_sets \<Rightarrow> redis_sets) option \<Rightarrow> int \<Rightarrow> string \<Rightarrow> int \<Rightarrow> redis_sets \<Rightarrow> bool \<times> redis_sets" where
  "redis_Allow failure now tokenName ratePerMinute rs =
     (let key = redis_key tokenName;
          windowStart = now - 60000
      in if failure \<noteq> None then (True, the failure rs)
         else let kept = filter (\<lambda>m. \<not> (0 \<le> m \<and> m \<le> windowStart)) (live_members now (rs key));
                  count = int (length kept);
                  members = (if now \<in> set kept then kept else kept @ [now])
              in (count < ratePerMinute,
                  rs(key \<mapsto> \<lparr>zs_members = members, zs_expires = now + 120000\<rparr>)))"

fun redis_run :: "string \<Rightarrow> int \<Rightarrow> int list \<Rightarrow> redis_sets \<Rightarrow> bool list \<times> redis_sets" where
  "redis_run n r [] rs = ([], rs)"
| "redis_run n r (t # ts) rs =
     (let (ok, rs1) = redis_Allow None t n r rs; (oks, rs2) = redis_run n r ts rs1 in (ok # oks, rs2))"

text \<open>The distinct milliseconds of the last minute before \<open>t\<close> among earlier requests.\<close>

definition recent :: "int \<Rightarrow> int list \<Rightarrow> int set" where
  "recent t past = set (filter (\<lambda>u. t - 60000 < u) past)"

lemma redis_Allow_members:
  assumes "z = rs (redis_key n)" "distinct (live_members t z)" "\<forall>m \<in> set (live_members t z). 0 \<le> m"
    "\<And>t'. t \<le> t' \<Longrightarrow> recent t' past = {u \<in> set (live_members t z). t' - 60000 < u}"
    "0 \<le> t"
  shows "fst (redis_Allow None t n r rs) \<longleftrightarrow> int (card (recent t past)) < r"
    "snd (redis_Allow None t n r rs) (redis_key n) = Some \<lparr>zs_members = (let k = filter (\<lambda>m. t - 60000 < m) (live_members t z)
        in if t \<in> set k then k else k @ [t]), zs_expires = t + 120000\<rparr>"
proof -
  have kept: "filter (\<lambda>m. \<not> (0 \<le> m \<and> m \<le> t - 60000)) (live_members t z) = filter (\<lambda>m. t - 60000 < m) (live_members t z)"
    using assms(3) by (intro filter_cong) auto
  have "card (recent t past) = length (filter (\<lambda>m. t - 60000 < m) (live_members t z))"
    using assms(4) [of t] distinct_card [of "filter (\<lambda>m. t - 60000 < m) (live_members t z)"] assms(2) by simp
  moreover have eq: "redis_Allow None t n r rs =
     (let k = filter (\<lambda>m. t - 60000 < m) (live_members t z)
      in (int (length k) < r, rs(redis_key n \<mapsto> \<lparr>zs_members = (if t \<in> set k then k else k @ [t]), zs_expires = t + 120000\<rparr>)))"
    by (simp only: redis_Allow_def Let_def assms(1) [symmetric] kept simp_thms if_False)
  ultimately show "fst (redis_Allow None t n r rs) \<longleftrightarrow> int (card (recent t past)) < r"
    by (simp add: Let_def)
  show "snd (redis_Allow None t n r rs) (redis_key n) = Some \<lparr>zs_members = (let k = filter (\<lambda>m. t - 60000 < m) (live_members t z)
        in if t \<in> set k then k else k @ [t]), zs_expires = t + 120000\<rparr>"
    by (simp add: eq Let_def)
qed

text \<open>What the set holds after the requests \<open>past\<close>, the last of which came at \<open>u\<close>.\<close>

definition zset_inv :: "redis_zset option \<Rightarrow> int \<Rightarrow> int list \<Rightarrow> bool" where
  "zset_inv z u past \<longleftrightarrow>
     (case z of
        None \<Rightarrow> past = []
      | Some z \<Rightarrow> zs_expires z = u + 120000 \<and> distinct (zs_members z) \<and> (\<forall>m \<in> set (zs_members z). 0 \<le> m \<and> m \<le> u)
          \<and> (\<forall>t' \<ge> u. recent t' past = {m \<in> set (zs_members z). t' - 60000 < m}))"

lemma zset_inv_step:
  assumes "zset_inv (rs (redis_key n)) u past" "u \<le> t" "0 \<le> t"
  shows "fst (redis_Allow None t n r rs) \<longleftrightarrow> int (card (recent t past)) < r"
    "zset_inv (snd (redis_Allow None t n r rs) (redis_key n)) t (past @ [t])"
proof -
  define z where "z = rs (redis_key n)"
  let ?l = "live_members t z"
  have l: "distinct ?l" "\<forall>m \<in> set ?l. 0 \<le> m" "\<forall>m \<in> set ?l. m \<le> t"
    using assms by (auto simp: zset_inv_def live_members_def z_def split: option.splits)
  have rec: "recent t' past = {m \<in> set ?l. t' - 60000 < m}" if "t \<le> t'" for t'
  proof (cases z)
    case None
    with assms(1) show ?thesis by (simp add: zset_inv_def live_members_def z_def recent_def)
  next
    case (Some zz)
    then have zz: "zs_expires zz = u + 120000" "\<forall>m \<in> set (zs_members zz). m \<le> u"
        "recent t' past = {m \<in> set (zs_members zz). t' - 60000 < m}"
      using assms that by (auto simp: zset_inv_def z_def)
    show ?thesis
    proof (cases "zs_expires zz \<le> t")
      case True
      have "\<not> t' - 60000 < m" if "m \<in> set (zs_members zz)" for m
        using zz(1,2) True that \<open>t \<le> t'\<close> by force
      with zz(3) True Some show ?thesis by (auto simp: live_members_def)
    next
      case False
      with zz(3) Some show ?thesis by (simp add: live_members_def)
    qed
  qed
  note m = redis_Allow_members [where rs = rs and n = n and r = r, OF z_def l(1,2) rec assms(3)]
  show "fst (redis_Allow None t n r rs) \<longleftrightarrow> int (card (recent t past)) < r" by (rule m(1))
  define k where "k = filter (\<lambda>m. t - 60000 < m) ?l"
  define mem where "mem = (if t \<in> set k then k else k @ [t])"
  have mem: "set mem = insert t (set k)" "distinct mem" using l(1) by (auto simp: mem_def k_def)
  have "recent t' (past @ [t]) = {m \<in> set mem. t' - 60000 < m}" if "t \<le> t'" for t'
  proof -
    have "recent t' (past @ [t]) = recent t' past \<union> (if t' - 60000 < t then {t} else {})"
      by (auto simp: recent_def)
    moreover have "{m \<in> set ?l. t' - 60000 < m} = {m \<in> set k. t' - 60000 < m}"
      using that by (auto simp: k_def)
    ultimately show ?thesis unfolding rec [OF that] mem(1) by auto
  qed
  moreover have "\<forall>m \<in> set mem. 0 \<le> m \<and> m \<le> t" using l(2,3) assms(3) by (auto simp: mem(1) k_def)
  moreover have "snd (redis_Allow None t n r rs) (redis_key n) = Some \<lparr>zs_members = mem, zs_expires = t + 120000\<rparr>"
    using m(2) unfolding mem_def k_def Let_def .
  ultimately show "zset_inv (snd (redis_Allow None t n r rs) (redis_key n)) t (past @ [t])"
    using mem(2) by (simp add: zset_inv_def)
qed

text \<open>With Redis answering and a clock that does not go back, a request is let through exactly
  when fewer than the limit distinct milliseconds of the last minute saw a request of this token,
  whether that request was let through or not. Requests in one millisecond count once.\<close>

theorem redis_window:
  assumes "sorted ts" "list_all (\<lambda>t. 0 \<le> t) ts" "rs (redis_key n) = None"
  shows "fst (redis_run n r ts rs) = map (\<lambda>i. int (card (recent (ts ! i) (take i ts))) < r) [0..<length ts]"
proof -
  have "fst (redis_run n r us rs) = map (\<lambda>i. int (card (recent (us ! i) (past @ take i us))) < r) [0..<length us]"
    if "zset_inv (rs (redis_key n)) u past" "\<forall>t \<in> set us. u \<le> t" "sorted us" "list_all (\<lambda>t. 0 \<le> t) us" for us rs u past
    using that
  proof (induction us arbitrary: rs u past)
    case (Cons t us)
    have t: "u \<le> t" "0 \<le> t" "\<forall>t' \<in> set us. t \<le> t'" "sorted us" "list_all (\<lambda>t. 0 \<le> t) us" using Cons.prems(2-4) by auto
    note st = zset_inv_step [where rs = rs and n = n and r = r, OF Cons.prems(1) t(1,2)]
    have "fst (redis_run n r us (snd (redis_Allow None t n r rs))) =
        map (\<lambda>i. int (card (recent (us ! i) ((past @ [t]) @ take i us))) < r) [0..<length us]"
      by (rule Cons.IH [where rs = "snd (redis_Allow None t n r rs)", OF st(2) t(3-5)])
    then show ?case using st(1)
      by (simp add: split_beta Let_def upt_conv_Cons map_Suc_upt [symmetric] del: upt_Suc)
  qed simp
  from this [of rs 0 "[]" ts] assms show ?thesis by (auto simp: zset_inv_def list_all_iff)
qed

theorem redis_window_witness:
  "fst (redis_run ''ci'' 2 [1000, 1000, 1000, 2000, 3000] Map.empty) = [True, True, True, True, False]"
proof -
  have c: "{x :: int. (x = 1000 \<or> x = 2000) \<and> - 57000 < x} = {1000, 2000}"
    "{x :: int. x = 1000 \<and> - 59000 < x} = {1000}" "{x :: int. x = 1000 \<and> - 58000 < x} = {1000}"
    by auto
  show ?thesis by (subst redis_window) (simp_all add: recent_def upt_rec c)
qed

subsection \<open>Access log\<close>

definition stringFromCtx :: "string option \<Rightarrow> string" where
  "stringFromCtx v = (case v of None \<Rightarrow> [] | Some s \<Rightarrow> s)"

text \<open>The status and the error text an entry records.\<close>

definition logged_status :: "herror option \<Rightarrow> ctx \<Rightarrow> int" where
  "logged_status err c = (case err of Some (HTTPError code _) \<Rightarrow> code | _ \<Rightarrow> rs_Status c)"

definition logged_error :: "herror option \<Rightarrow> string" where
  "logged_error err = (case err of None \<Rightarrow> [] | Some (HTTPError _ msg) \<Rightarrow> msg | Some (PlainError msg) \<Rightarrow> msg)"

text \<open>\<open>start\<close> and \<open>finish\<close> are the two clock readings; a sink that is nil is \<open>None\<close>.\<close>

definition AccessLogger :: "(log_entry \<Rightarrow> 's \<Rightarrow> 's) option list \<Rightarrow> int \<Rightarrow> int \<Rightarrow> 's handler \<Rightarrow> 's handler" where
  "AccessLogger sinks start finish next s c =
     (case next s c of (err, c', s') \<Rightarrow>
        let entry = \<lparr>le_Timestamp = start, le_RequestID = stringFromCtx (cv_RequestID c'),
                     le_TokenName = stringFromCtx (cv_TokenName c'), le_Method = stringFromCtx (cv_RPCMethod c'),
                     le_Backend = stringFromCtx (cv_Backend c'), le_StatusCode = logged_status err c',
                     le_LatencyMs = sample_ms (finish - start), le_RequestBytes = rq_ContentLength c',
                     le_ResponseBytes = rs_Size c', le_ClientIP = rq_RealIP c', le_Error = logged_error err,
                     le_Path = rq_Path c'\<rparr>
        in (err, c', fold (\<lambda>sink s. case sink of Some push \<Rightarrow> push entry s | None \<Rightarrow> s) sinks s'))"

subsection \<open>Metrics\<close>

text \<open>The vectors of \<open>internal/metrics/prometheus.go\<close> this middleware writes: counts and observations
  by label values. \<open>upd\<close> applies a change of them to the shared state.\<close>

record metrics =
  mt_RequestsTotal :: "string \<times> string \<times> string \<times> string \<Rightarrow> nat"
  mt_RequestDuration :: "string \<times> string \<times> string \<Rightarrow> int list"
  mt_RequestSize :: "string \<times> string \<Rightarrow> int list"
  mt_ResponseSize :: "string \<times> string \<Rightarrow> int list"

definition observe_request :: "ctx \<Rightarrow> int \<Rightarrow> metrics \<Rightarrow> metrics" where
  "observe_request c duration m =
     (let statusCode = show_int (rs_Status c);
          rpc = stringFromCtx (cv_RPCMethod c);
          backend = stringFromCtx (cv_Backend c);
          tokenName = stringFromCtx (cv_TokenName c);
          m = m\<lparr>mt_RequestsTotal := (mt_RequestsTotal m)((rpc, backend, tokenName, statusCode) :=
                  mt_RequestsTotal m (rpc, backend, tokenName, statusCode) + 1)\<rparr>;
          m = m\<lparr>mt_RequestDuration := (mt_RequestDuration m)((rpc, backend, tokenName) :=
                  mt_RequestDuration m (rpc, backend, tokenName) @ [duration])\<rparr>
      in if rpc \<noteq> [] \<and> backend \<noteq> [] then
           m\<lparr>mt_RequestSize := (mt_RequestSize m)((rpc, backend) := mt_RequestSize m (rpc, backend) @ [rq_ContentLength c]),
             mt_ResponseSize := (mt_ResponseSize m)((rpc, backend) := mt_ResponseSize m (rpc, backend) @ [rs_Size c])\<rparr>
         else m)"

definition MetricsMiddleware :: "((metrics \<Rightarrow> metrics) \<Rightarrow> 's \<Rightarrow> 's) \<Rightarrow> int \<Rightarrow> int \<Rightarrow> 's handler \<Rightarrow> 's handler" where
  "MetricsMiddleware upd start finish next s c =
     (case next s c of (err, c', s') \<Rightarrow> (err, c', upd (observe_request c' (finish - start)) s'))"

text \<open>The access logger hands the next handler's result on unchanged and gives every sink one
  entry, the same one: the status the client gets, the token, backend and method the request was
  handled under, and the path without the token.\<close>

theorem access_log_entry:
  assumes "next s c = (err, c', s')"
    "err = None \<or> (\<exists>code msg. err = Some (HTTPError code msg) \<and> \<not> rs_Committed c')"
  shows "\<exists>e. AccessLogger (map Some pushes) start finish next s c = (err, c', fold (\<lambda>push. push e) pushes s')
     \<and> le_StatusCode e = client_status (err, c', s') \<and> le_Path e = rq_Path c'
     \<and> le_TokenName e = stringFromCtx (cv_TokenName c') \<and> le_Method e = stringFromCtx (cv_RPCMethod c')
     \<and> le_Backend e = stringFromCtx (cv_Backend c') \<and> le_RequestID e = stringFromCtx (cv_RequestID c')"
  using assms by (auto simp: AccessLogger_def Let_def fold_map o_def client_status_def logged_status_def)

theorem access_log_entry_witness:
  "\<exists>e. AccessLogger [Some (\<lambda>e es. e # es), Some (\<lambda>e es. e # es)] 5 9 (\<lambda>es c. (Some (HTTPError 502 ''backend configuration error''), c, es)) []
       (new_ctx ''/status'' [] Map.empty [] []) =
     (Some (HTTPError 502 ''backend configuration error''), new_ctx ''/status'' [] Map.empty [] [], [e, e]) \<and> le_StatusCode e = 502"
  using access_log_entry [of "\<lambda>es c. (Some (HTTPError 502 ''backend configuration error''), c, es)" "[]"
      "new_ctx ''/status'' [] Map.empty [] []" "Some (HTTPError 502 ''backend configuration error'')"
      "new_ctx ''/status'' [] Map.empty [] []" "[]" "[\<lambda>e es. e # es, \<lambda>e es. e # es]" 5 9]
  by (auto simp: client_status_def new_ctx_def)

text \<open>The metrics middleware reads the status of the response object before the error handler has
  set it: a request that ends in an HTTP error without a response is counted under 200, and the
  count of the code the client gets stays as it was.\<close>

theorem metrics_miscount_errors:
  assumes "next s c = (Some (HTTPError code msg), c', s')" "\<not> rs_Committed c'" "rs_Status c' = 200" "code \<noteq> 200"
  shows "\<exists>f. MetricsMiddleware upd start finish next s c = (Some (HTTPError code msg), c', upd f s')
     \<and> client_status (Some (HTTPError code msg), c', s') = code
     \<and> (\<forall>m. let l = (\<lambda>code. (stringFromCtx (cv_RPCMethod c'), stringFromCtx (cv_Backend c'), stringFromCtx (cv_TokenName c'), show_int code))
            in mt_RequestsTotal (f m) (l 200) = Suc (mt_RequestsTotal m (l 200))
             \<and> mt_RequestsTotal (f m) (l code) = mt_RequestsTotal m (l code))"
  using assms
  by (intro exI [of _ "observe_request c' (finish - start)"])
    (auto simp: MetricsMiddleware_def client_status_def observe_request_def Let_def)

theorem metrics_miscount_errors_witness:
  "\<exists>f. MetricsMiddleware (\<lambda>f m. f m) 0 7 (\<lambda>m c. (Some (HTTPError 403 ''method not allowed for this token''), c, m))
      \<lparr>mt_RequestsTotal = (\<lambda>_. 0), mt_RequestDuration = (\<lambda>_. []), mt_RequestSize = (\<lambda>_. []), mt_ResponseSize = (\<lambda>_. [])\<rparr>
      (new_ctx ''/status'' [] Map.empty [] []) =
    (Some (HTTPError 403 ''method not allowed for this token''), new_ctx ''/status'' [] Map.empty [] [],
     f \<lparr>mt_RequestsTotal = (\<lambda>_. 0), mt_RequestDuration = (\<lambda>_. []), mt_RequestSize = (\<lambda>_. []), mt_ResponseSize = (\<lambda>_. [])\<rparr>)"
  using metrics_miscount_errors [of "\<lambda>m c. (Some (HTTPError 403 ''method not allowed for this token''), c, m)"
      "\<lparr>mt_RequestsTotal = (\<lambda>_. 0), mt_RequestDuration = (\<lambda>_. []), mt_RequestSize = (\<lambda>_. []), mt_ResponseSize = (\<lambda>_. [])\<rparr>"
      "new_ctx ''/status'' [] Map.empty [] []" 403 "''method not allowed for this token''"
      "new_ctx ''/status'' [] Map.empty [] []" _ "\<lambda>f m. f m" 0 7]
  by (auto simp: new_ctx_def)

end
