(* ===== verification/Json.thy ===== *)
theory Json
  imports Prelude
begin

text \<open>
  The part of Go's \<open>encoding/json\<close> the proxy relies on: the strict scanner (RFC 8259, at
  most 10000 nested containers, nothing but blanks after the value), string unquoting with
  replacement of invalid UTF-8, and decoding into the shapes the source declares: a struct
  with string or raw fields, a list of structs, a list of raw messages, a map of raw
  messages. Every element of a container keeps its raw bytes, as \<open>json.RawMessage\<close> does.

  The parser is a recursive descent with a fuel argument; \<open>json_fuel_enough\<close> shows that
  the fuel \<open>json_parse\<close> supplies is never what makes it fail.
\<close>

datatype json =
    JNull
  | JBool bool
  | JNum string
  | JStr string
  | JArr "(string \<times> json) list"
  | JObj "(string \<times> string \<times> json) list"

subsection \<open>Lexical level\<close>

definition json_ws :: "char \<Rightarrow> bool" where
  "json_ws c \<longleftrightarrow> c = CHR 0x20 \<or> c = CHR 0x09 \<or> c = CHR 0x0A \<or> c = CHR 0x0D"

definition skip_ws :: "string \<Rightarrow> string" where
  "skip_ws s = dropWhile json_ws s"

definition hex_val :: "char \<Rightarrow> nat option" where
  "hex_val c = (let n = (of_char c :: nat) in
     if 48 \<le> n \<and> n \<le> 57 then Some (n - 48)
     else if 97 \<le> n \<and> n \<le> 102 then Some (n - 87)
     else if 65 \<le> n \<and> n \<le> 70 then Some (n - 55)
     else None)"

definition is_hex :: "char \<Rightarrow> bool" where
  "is_hex c \<longleftrightarrow> hex_val c \<noteq> None"

text \<open>The body of a string literal, up to and without the closing quote, still escaped.\<close>

fun scan_str :: "string \<Rightarrow> (string \<times> string) option" where
  "scan_str [] = None"
| "scan_str (c # cs) =
     (if c = CHR 0x22 then Some ([], cs)
      else if c = CHR 0x5C then
        (case cs of
           [] \<Rightarrow> None
         | e # es \<Rightarrow>
             if e = CHR ''u'' then
               (case es of
                  h1 # h2 # h3 # h4 # r \<Rightarrow>
                    if is_hex h1 \<and> is_hex h2 \<and> is_hex h3 \<and> is_hex h4
                    then map_option (\<lambda>(w, t). (c # e # h1 # h2 # h3 # h4 # w, t)) (scan_str r)
                    else None
                | _ \<Rightarrow> None)
             else if e \<in> {CHR 0x22, CHR 0x5C, CHR ''/'', CHR ''b'', CHR ''f'', CHR ''n'', CHR ''r'', CHR ''t''}
             then map_option (\<lambda>(w, t). (c # e # w, t)) (scan_str es)
             else None)
      else if (of_char c :: nat) < 32 then None
      else map_option (\<lambda>(w, t). (c # w, t)) (scan_str cs))"

text \<open>Length of the valid UTF-8 encoding at the head of the string (\<open>utf8.DecodeRune\<close>).\<close>

definition byte_in :: "nat \<Rightarrow> nat \<Rightarrow> string \<Rightarrow> nat \<Rightarrow> bool" where
  "byte_in lo hi s i \<longleftrightarrow> i < length s \<and> lo \<le> (of_char (s ! i) :: nat) \<and> (of_char (s ! i) :: nat) \<le> hi"

definition utf8_len :: "string \<Rightarrow> nat option" where
  "utf8_len s =
     (if byte_in 0 127 s 0 then Some 1
      else if byte_in 194 223 s 0 \<and> byte_in 128 191 s 1 then Some 2
      else if byte_in 224 224 s 0 \<and> byte_in 160 191 s 1 \<and> byte_in 128 191 s 2 then Some 3
      else if (byte_in 225 236 s 0 \<or> byte_in 238 239 s 0) \<and> byte_in 128 191 s 1 \<and> byte_in 128 191 s 2 then Some 3
      else if byte_in 237 237 s 0 \<and> byte_in 128 159 s 1 \<and> byte_in 128 191 s 2 then Some 3
      else if byte_in 240 240 s 0 \<and> byte_in 144 191 s 1 \<and> byte_in 128 191 s 2 \<and> byte_in 128 191 s 3 then Some 4
      else if byte_in 241 243 s 0 \<and> byte_in 128 191 s 1 \<and> byte_in 128 191 s 2 \<and> byte_in 128 191 s 3 then Some 4
      else if byte_in 244 244 s 0 \<and> byte_in 128 143 s 1 \<and> byte_in 128 191 s 2 \<and> byte_in 128 191 s 3 then Some 4
      else None)"

definition utf8_encode :: "nat \<Rightarrow> string" where
  "utf8_encode r =
     (if r < 128 then [char_of r]
      else if r < 2048 then [char_of (192 + r div 64), char_of (128 + r mod 64)]
      else if r < 65536 then [char_of (224 + r div 4096), char_of (128 + (r div 64) mod 64), char_of (128 + r mod 64)]
      else [char_of (240 + r div 262144), char_of (128 + (r div 4096) mod 64),
            char_of (128 + (r div 64) mod 64), char_of (128 + r mod 64)])"

definition replacement_rune :: nat where "replacement_rune = 65533"

text \<open>\<open>getu4\<close>: the value of a \<open>\uXXXX\<close> escape at the head of the string.\<close>

definition getu4 :: "string \<Rightarrow> nat option" where
  "getu4 s =
     (case s of
        b # u # h1 # h2 # h3 # h4 # r \<Rightarrow>
          if b = CHR 0x5C \<and> u = CHR ''u'' then
            (case (hex_val h1, hex_val h2, hex_val h3, hex_val h4) of
               (Some a, Some b, Some c, Some d) \<Rightarrow> Some (4096 * a + 256 * b + 16 * c + d)
             | _ \<Rightarrow> None)
          else None
      | _ \<Rightarrow> None)"

definition is_surrogate :: "nat \<Rightarrow> bool" where
  "is_surrogate r \<longleftrightarrow> 55296 \<le> r \<and> r < 57344"

text \<open>\<open>utf16.DecodeRune\<close>; \<open>None\<close> where Go returns the replacement character.\<close>

definition decode_pair :: "nat \<Rightarrow> nat \<Rightarrow> nat option" where
  "decode_pair a b =
     (if 55296 \<le> a \<and> a < 56320 \<and> 56320 \<le> b \<and> b < 57344
      then Some ((a - 55296) * 1024 + (b - 56320) + 65536) else None)"

definition escape_char :: "char \<Rightarrow> char" where
  "escape_char e =
     (if e = CHR ''b'' then CHR 0x08 else if e = CHR ''f'' then CHR 0x0C
      else if e = CHR ''n'' then CHR 0x0A else if e = CHR ''r'' then CHR 0x0D
      else if e = CHR ''t'' then CHR 0x09 else e)"

function unquote :: "string \<Rightarrow> string" where
  "unquote s =
     (case s of
        [] \<Rightarrow> []
      | c # cs \<Rightarrow>
          if c = CHR 0x5C then
            (case getu4 s of
               Some r \<Rightarrow>
                 if is_surrogate r then
                   (case Option.bind (getu4 (drop 6 s)) (decode_pair r) of
                      Some d \<Rightarrow> utf8_encode d @ unquote (drop 12 s)
                    | None \<Rightarrow> utf8_encode replacement_rune @ unquote (drop 6 s))
                 else utf8_encode r @ unquote (drop 6 s)
             | None \<Rightarrow> (case cs of [] \<Rightarrow> [] | e # es \<Rightarrow> escape_char e # unquote es))
          else (case utf8_len s of
                  Some n \<Rightarrow> take n s @ unquote (drop (max 1 n) s)
                | None \<Rightarrow> utf8_encode replacement_rune @ unquote cs))"
  by pat_completeness auto
termination by (relation "measure length") auto

declare unquote.simps [simp del]

text \<open>A number: an optional minus, an integer part without leading zeros, an optional
  fraction and an optional exponent.\<close>

definition span_digits :: "string \<Rightarrow> string \<times> string" where
  "span_digits s = (takeWhile is_digit s, dropWhile is_digit s)"

definition scan_frac :: "string \<Rightarrow> (string \<times> string) option" where
  "scan_frac s =
     (case s of
        c # cs \<Rightarrow> if c = CHR ''.'' then
                    (let (ds, r) = span_digits cs in if ds = [] then None else Some (c # ds, r))
                  else Some ([], s)
      | [] \<Rightarrow> Some ([], []))"

definition scan_exp :: "string \<Rightarrow> (string \<times> string) option" where
  "scan_exp s =
     (case s of
        c # cs \<Rightarrow>
          if c = CHR ''e'' \<or> c = CHR ''E'' then
            (let sg = (case cs of x # _ \<Rightarrow> if x = CHR ''+'' \<or> x = CHR ''-'' then [x] else [] | [] \<Rightarrow> []);
                 (ds, r) = span_digits (drop (length sg) cs)
             in if ds = [] then None else Some (c # sg @ ds, r))
          else Some ([], s)
      | [] \<Rightarrow> Some ([], []))"

definition scan_int_part :: "string \<Rightarrow> (string \<times> string) option" where
  "scan_int_part s =
     (let sg = (case s of c # _ \<Rightarrow> if c = CHR ''-'' then [c] else [] | [] \<Rightarrow> []);
          t = drop (length sg) s
      in (case t of
            [] \<Rightarrow> None
          | c # cs \<Rightarrow>
              if c = CHR ''0'' then Some (sg @ [c], cs)
              else if is_digit c then (let (ds, r) = span_digits t in Some (sg @ ds, r))
              else None))"

definition scan_number :: "string \<Rightarrow> (string \<times> string) option" where
  "scan_number s =
     Option.bind (scan_int_part s) (\<lambda>(a, r1).
       Option.bind (scan_frac r1) (\<lambda>(b, r2).
         map_option (\<lambda>(c, r3). (a @ b @ c, r3)) (scan_exp r2)))"

subsection \<open>Values\<close>

text \<open>The bytes of \<open>s\<close> before its suffix \<open>r\<close>: the raw text of a value just read.\<close>

definition consumed :: "string \<Rightarrow> string \<Rightarrow> string" where
  "consumed s r = take (length s - length r) s"

definition max_nesting :: nat where "max_nesting = 10000"

fun parse_val :: "nat \<Rightarrow> nat \<Rightarrow> string \<Rightarrow> (json \<times> string) option"
  and parse_elems :: "nat \<Rightarrow> nat \<Rightarrow> string \<Rightarrow> ((string \<times> json) list \<times> string) option"
  and parse_members :: "nat \<Rightarrow> nat \<Rightarrow> string \<Rightarrow> ((string \<times> string \<times> json) list \<times> string) option"
where
  "parse_val 0 d s = None"
| "parse_val (Suc f) d s =
     (case s of
        [] \<Rightarrow> None
      | c # cs \<Rightarrow>
          if c = CHR 0x7B then
            (if max_nesting \<le> d then None
             else (case skip_ws cs of
                     [] \<Rightarrow> None
                   | x # r \<Rightarrow> if x = CHR 0x7D then Some (JObj [], r)
                              else map_option (\<lambda>(ms, t). (JObj ms, t)) (parse_members f (Suc d) (x # r))))
          else if c = CHR 0x5B then
            (if max_nesting \<le> d then None
             else (case skip_ws cs of
                     [] \<Rightarrow> None
                   | x # r \<Rightarrow> if x = CHR 0x5D then Some (JArr [], r)
                              else map_option (\<lambda>(es, t). (JArr es, t)) (parse_elems f (Suc d) (x # r))))
          else if c = CHR 0x22 then map_option (\<lambda>(w, t). (JStr (unquote w), t)) (scan_str cs)
          else if prefix ''true'' s then Some (JBool True, drop 4 s)
          else if prefix ''false'' s then Some (JBool False, drop 5 s)
          else if prefix ''null'' s then Some (JNull, drop 4 s)
          else map_option (\<lambda>(w, t). (JNum w, t)) (scan_number s))"
| "parse_elems 0 d s = None"
| "parse_elems (Suc f) d s =
     (case parse_val f d s of
        None \<Rightarrow> None
      | Some (v, r) \<Rightarrow>
          (case skip_ws r of
             [] \<Rightarrow> None
           | x # t \<Rightarrow>
               if x = CHR 0x5D then Some ([(consumed s r, v)], t)
               else if x = CHR '','' then
                 map_option (\<lambda>(es, t'). ((consumed s r, v) # es, t')) (parse_elems f d (skip_ws t))
               else None))"
| "parse_members 0 d s = None"
| "parse_members (Suc f) d s =
     (case s of
        [] \<Rightarrow> None
      | c # cs \<Rightarrow>
          if c = CHR 0x22 then
            (case scan_str cs of
               None \<Rightarrow> None
             | Some (k, r) \<Rightarrow>
                 (case skip_ws r of
                    [] \<Rightarrow> None
                  | x # t \<Rightarrow>
                      if x = CHR '':'' then
                        (let s' = skip_ws t in
                         case parse_val f d s' of
                           None \<Rightarrow> None
                         | Some (v, r') \<Rightarrow>
                             (case skip_ws r' of
                                [] \<Rightarrow> None
                              | y # t' \<Rightarrow>
                                  if y = CHR 0x7D then Some ([(unquote k, consumed s' r', v)], t')
                                  else if y = CHR '','' then
                                    map_option (\<lambda>(ms, q). ((unquote k, consumed s' r', v) # ms, q))
                                      (parse_members f d (skip_ws t'))
                                  else None))
                      else None))
          else None)"

definition json_fuel :: "string \<Rightarrow> nat" where
  "json_fuel s = 2 * length s + 2"

text \<open>The first value of the input and what follows it (\<open>Decoder.Decode\<close>).\<close>

definition json_parse_first :: "string \<Rightarrow> (json \<times> string) option" where
  "json_parse_first s = (let s' = skip_ws s in parse_val (json_fuel s') 0 s')"

text \<open>The whole input is one value (\<open>json.Unmarshal\<close>).\<close>

definition json_parse :: "string \<Rightarrow> json option" where
  "json_parse s =
     (case json_parse_first s of
        Some (v, r) \<Rightarrow> if skip_ws r = [] then Some v else None
      | None \<Rightarrow> None)"

subsection \<open>Progress and fuel\<close>

lemma skip_ws_length: "length (skip_ws s) \<le> length s"
  by (simp add: skip_ws_def length_dropWhile_le)

lemma skip_ws_Cons_length: "skip_ws s = x # t \<Longrightarrow> length t < length s"
  using skip_ws_length [of s] by simp

lemma scan_str_length: "scan_str s = Some (w, r) \<Longrightarrow> length r < length s"
proof (induction s arbitrary: w r rule: scan_str.induct)
  case 1
  then show ?case by simp
next
  case (2 c cs)
  then show ?case by (fastforce split: if_splits list.splits)
qed

lemma dropWhile_length_less [intro]: "length (dropWhile P xs) < Suc (length xs)"
  by (simp add: le_imp_less_Suc length_dropWhile_le)

lemma scan_int_part_length: "scan_int_part s = Some (w, r) \<Longrightarrow> length r < length s"
  by (auto simp: scan_int_part_def span_digits_def Let_def
      split: list.splits if_splits intro: less_SucI)

lemma scan_frac_length: "scan_frac s = Some (w, r) \<Longrightarrow> length r \<le> length s"
  by (auto simp: scan_frac_def span_digits_def Let_def le_SucI length_dropWhile_le
      split: list.splits if_splits)

lemma scan_exp_length: "scan_exp s = Some (w, r) \<Longrightarrow> length r \<le> length s"
  using length_dropWhile_le [of is_digit "tl (tl s)"] length_dropWhile_le [of is_digit "tl s"]
  by (auto simp: scan_exp_def span_digits_def Let_def split: list.splits if_splits)

lemma scan_number_length: "scan_number s = Some (w, r) \<Longrightarrow> length r < length s"
  by (auto simp: scan_number_def bind_eq_Some_conv
      dest!: scan_int_part_length scan_frac_length scan_exp_length)

lemma parse_length_all:
  "(\<forall>d s v r. parse_val f d s = Some (v, r) \<longrightarrow> length r < length s)
   \<and> (\<forall>d s es r. parse_elems f d s = Some (es, r) \<longrightarrow> length r < length s)
   \<and> (\<forall>d s ms r. parse_members f d s = Some (ms, r) \<longrightarrow> length r < length s)"
proof (induction f)
  case 0
  then show ?case by simp
next
  case (Suc f)
  have skip: "length r < length t" if "length r < length (skip_ws t)" for r t :: string
    using that skip_ws_length less_le_trans by blast
  from Suc have v: "length r < length s" if "parse_val f d s = Some (v, r)" for d s v r
    using that by blast
  from Suc have e: "length r < length s" if "parse_elems f d s = Some (es, r)" for d s es r
    using that by blast
  from Suc have m: "length r < length s" if "parse_members f d s = Some (ms, r)" for d s ms r
    using that by blast
  have "length r < length s" if "parse_val (Suc f) d s = Some (v, r)" for d s v r
    using that
    by (auto split: list.splits if_splits simp: prefix_def
        dest!: skip_ws_Cons_length scan_str_length scan_number_length e m)
  moreover have "length r < length s" if "parse_elems (Suc f) d s = Some (es, r)" for d s es r
    using that
    by (auto split: list.splits option.splits if_splits dest!: skip_ws_Cons_length v e skip)
  moreover have "length r < length s" if "parse_members (Suc f) d s = Some (ms, r)" for d s ms r
    using that
    by (auto simp: Let_def split: list.splits option.splits if_splits
        dest!: skip_ws_Cons_length scan_str_length v m skip)
  ultimately show ?case by blast
qed

lemma parse_val_length: "parse_val f d s = Some (v, r) \<Longrightarrow> length r < length s"
  using parse_length_all by blast

lemma parse_fuel_step:
  "(\<forall>d s. 2 * length s + 1 \<le> f \<longrightarrow> parse_val (Suc f) d s = parse_val f d s)
   \<and> (\<forall>d s. 2 * length s + 2 \<le> f \<longrightarrow> parse_elems (Suc f) d s = parse_elems f d s)
   \<and> (\<forall>d s. 2 * length s + 1 \<le> f \<longrightarrow> parse_members (Suc f) d s = parse_members f d s)"
proof (induction f)
  case 0
  then show ?case by simp
next
  case (Suc f)
  from Suc have v: "parse_val (Suc f) d s = parse_val f d s" if "2 * length s + 1 \<le> f" for d s
    using that by blast
  from Suc have e: "parse_elems (Suc f) d s = parse_elems f d s" if "2 * length s + 2 \<le> f" for d s
    using that by blast
  from Suc have m: "parse_members (Suc f) d s = parse_members f d s" if "2 * length s + 1 \<le> f" for d s
    using that by blast
  have "parse_val (Suc (Suc f)) d s = parse_val (Suc f) d s" if "2 * length s + 1 \<le> Suc f" for d s
    using that
    by (auto simp: parse_val.simps(2) [of "Suc f"] parse_val.simps(2) [of f] e m
        simp del: parse_val.simps parse_elems.simps parse_members.simps
        split: list.splits dest!: skip_ws_Cons_length)
  moreover have "parse_elems (Suc (Suc f)) d s = parse_elems (Suc f) d s"
    if "2 * length s + 2 \<le> Suc f" for d s
  proof -
    have tl: "parse_elems (Suc f) d (skip_ws t) = parse_elems f d (skip_ws t)"
      if "parse_val f d s = Some (w, r)" "skip_ws r = x # t" for w r x t
    proof (rule e)
      from that parse_val_length skip_ws_Cons_length skip_ws_length [of t]
      have "length (skip_ws t) + 2 \<le> length s" by fastforce
      with \<open>2 * length s + 2 \<le> Suc f\<close> show "2 * length (skip_ws t) + 2 \<le> f" by linarith
    qed
    have v': "parse_val (Suc f) d s = parse_val f d s" using that by (intro v) linarith
    show ?thesis
      unfolding parse_elems.simps(2) [of "Suc f" d s] parse_elems.simps(2) [of f d s] v'
      by (auto split: option.splits list.splits simp: tl
          simp del: parse_val.simps parse_elems.simps parse_members.simps)
  qed
  moreover have "parse_members (Suc (Suc f)) d s = parse_members (Suc f) d s"
    if "2 * length s + 1 \<le> Suc f" for d s
  proof -
    have tl: "parse_val (Suc f) d (skip_ws t) = parse_val f d (skip_ws t)"
      "parse_val f d (skip_ws t) = Some (w, r') \<Longrightarrow> skip_ws r' = y # t' \<Longrightarrow>
         parse_members (Suc f) d (skip_ws t') = parse_members f d (skip_ws t')"
      if "scan_str cs = Some (k, r)" "skip_ws r = x # t" "s = c # cs" for c cs k r x t w r' y t'
    proof -
      from that(1) have "length r < length cs" by (rule scan_str_length)
      with that skip_ws_Cons_length [OF that(2)] skip_ws_length [of t]
      have l: "length (skip_ws t) + 3 \<le> length s" by simp
      with \<open>2 * length s + 1 \<le> Suc f\<close>
      show "parse_val (Suc f) d (skip_ws t) = parse_val f d (skip_ws t)" by (intro v) linarith
      assume r': "parse_val f d (skip_ws t) = Some (w, r')" "skip_ws r' = y # t'"
      from parse_val_length [OF r'(1)] skip_ws_Cons_length [OF r'(2)] skip_ws_length [of t'] l
        \<open>2 * length s + 1 \<le> Suc f\<close>
      show "parse_members (Suc f) d (skip_ws t') = parse_members f d (skip_ws t')"
        by (intro m) linarith
    qed
    show ?thesis
      unfolding parse_members.simps(2) [of "Suc f" d s] parse_members.simps(2) [of f d s]
      by (auto split: option.splits list.splits simp: Let_def tl
          simp del: parse_val.simps parse_elems.simps parse_members.simps)
  qed
  ultimately show ?case by blast
qed

text \<open>More fuel than \<open>json_fuel\<close> gives never changes the outcome: a failure of
  \<open>json_parse\<close> is a syntax error (or too deep a nesting), never missing fuel.\<close>

lemma json_fuel_enough:
  "parse_val (json_fuel s + k) d s = parse_val (json_fuel s) d s"
proof (induction k)
  case 0
  then show ?case by simp
next
  case (Suc k)
  have "2 * length s + 1 \<le> json_fuel s + k" by (simp add: json_fuel_def)
  with parse_fuel_step [of "json_fuel s + k"] Suc show ?case by simp
qed

subsection \<open>Decoding into Go values\<close>

text \<open>
  Struct fields match their key without regard to case. \<open>foldName\<close> folds a key; on the
  lower-case ASCII names of the source two keys agree iff their foldings agree, the Kelvin
  sign counting as \<open>k\<close> and the long s as \<open>s\<close>.
\<close>

function fold_name :: "string \<Rightarrow> string" where
  "fold_name s =
     (case s of
        [] \<Rightarrow> []
      | c # cs \<Rightarrow>
          if prefix [CHR 0xE2, CHR 0x84, CHR 0xAA] s then CHR ''k'' # fold_name (drop 3 s)
          else if prefix [CHR 0xC5, CHR 0xBF] s then CHR ''s'' # fold_name (drop 2 s)
          else lower_byte c # fold_name cs)"
  by pat_completeness auto
termination by (relation "measure length") auto

declare fold_name.simps [simp del]

text \<open>
  A decoder returns the decoded value and whether a type error was recorded: Go goes on
  decoding after one and reports it at the end. \<open>null\<close> leaves the destination alone.
\<close>

definition set_str_field :: "string \<Rightarrow> string \<times> bool \<Rightarrow> string \<times> string \<times> json \<Rightarrow> string \<times> bool" where
  "set_str_field name acc m =
     (case m of (k, _, w) \<Rightarrow>
        if fold_name k = name then
          (case w of JStr t \<Rightarrow> (t, snd acc) | JNull \<Rightarrow> acc | _ \<Rightarrow> (fst acc, True))
        else acc)"

definition decode_str_struct :: "string \<Rightarrow> json \<Rightarrow> string \<times> bool" where
  "decode_str_struct name v =
     (case v of
        JNull \<Rightarrow> ([], False)
      | JObj ms \<Rightarrow> foldl (set_str_field name) ([], False) ms
      | _ \<Rightarrow> ([], True))"

text \<open>A struct with one \<open>json.RawMessage\<close> field: the raw bytes, empty when absent.\<close>

definition set_raw_field :: "string \<Rightarrow> string \<Rightarrow> string \<times> string \<times> json \<Rightarrow> string" where
  "set_raw_field name acc m =
     (case m of (k, raw, _) \<Rightarrow> if fold_name k = name then raw else acc)"

definition decode_raw_struct :: "string \<Rightarrow> json \<Rightarrow> string \<times> bool" where
  "decode_raw_struct name v =
     (case v of
        JNull \<Rightarrow> ([], False)
      | JObj ms \<Rightarrow> (foldl (set_raw_field name) [] ms, False)
      | _ \<Rightarrow> ([], True))"

definition checked :: "'a \<times> bool \<Rightarrow> 'a option" where
  "checked r = (if snd r then None else Some (fst r))"

definition unmarshal_str_struct :: "string \<Rightarrow> string \<Rightarrow> string option" where
  "unmarshal_str_struct name body =
     Option.bind (json_parse body) (\<lambda>v. checked (decode_str_struct name v))"

definition unmarshal_raw_struct :: "string \<Rightarrow> string \<Rightarrow> string option" where
  "unmarshal_raw_struct name body =
     Option.bind (json_parse body) (\<lambda>v. checked (decode_raw_struct name v))"

definition unmarshal_str_structs :: "string \<Rightarrow> string \<Rightarrow> string list option" where
  "unmarshal_str_structs name body =
     Option.bind (json_parse body) (\<lambda>v.
       case v of
         JNull \<Rightarrow> Some []
       | JArr es \<Rightarrow>
           (let ds = map (\<lambda>e. decode_str_struct name (snd e)) es
            in if list_ex snd ds then None else Some (map fst ds))
       | _ \<Rightarrow> None)"

definition unmarshal_raw_list :: "string \<Rightarrow> string list option" where
  "unmarshal_raw_list body =
     Option.bind (json_parse body) (\<lambda>v.
       case v of JNull \<Rightarrow> Some [] | JArr es \<Rightarrow> Some (map fst es) | _ \<Rightarrow> None)"

definition unmarshal_raw_map :: "string \<Rightarrow> (string \<rightharpoonup> string) option" where
  "unmarshal_raw_map body =
     Option.bind (json_parse body) (\<lambda>v.
       case v of
         JNull \<Rightarrow> Some Map.empty
       | JObj ms \<Rightarrow> Some (map_of (rev (map (\<lambda>(k, raw, _). (k, raw)) ms)))
       | _ \<Rightarrow> None)"

definition unmarshal_string :: "string \<Rightarrow> string option" where
  "unmarshal_string body =
     Option.bind (json_parse body) (\<lambda>v.
       case v of JNull \<Rightarrow> Some [] | JStr t \<Rightarrow> Some t | _ \<Rightarrow> None)"

subsection \<open>Compact documents\<close>

text \<open>
  A printer for the documents clients send: no blanks, strings of printable ASCII that need
  no escape, integers. \<open>json_parse_render\<close> is the round trip through the parser; the
  properties of the router are stated over such documents.
\<close>

datatype jval =
    VNull
  | VBool bool
  | VInt int
  | VStr string
  | VArr "jval list"
  | VObj "(string \<times> jval) list"

definition plain_char :: "char \<Rightarrow> bool" where
  "plain_char c \<longleftrightarrow> 32 \<le> (of_char c :: nat) \<and> (of_char c :: nat) < 127 \<and> c \<noteq> CHR 0x22 \<and> c \<noteq> CHR 0x5C"

definition plain :: "string \<Rightarrow> bool" where
  "plain s \<longleftrightarrow> list_all plain_char s"

definition quoted :: "string \<Rightarrow> string" where
  "quoted s = CHR 0x22 # s @ [CHR 0x22]"

fun render :: "jval \<Rightarrow> string" where
  "render VNull = ''null''"
| "render (VBool b) = (if b then ''true'' else ''false'')"
| "render (VInt i) = show_int i"
| "render (VStr s) = quoted s"
| "render (VArr vs) = ''['' @ join_with '','' (map render vs) @ '']''"
| "render (VObj ms) = [CHR 0x7B] @ join_with '','' (map (\<lambda>(k, v). quoted k @ '':'' @ render v) ms) @ [CHR 0x7D]"

fun annot :: "jval \<Rightarrow> json" where
  "annot VNull = JNull"
| "annot (VBool b) = JBool b"
| "annot (VInt i) = JNum (show_int i)"
| "annot (VStr s) = JStr s"
| "annot (VArr vs) = JArr (map (\<lambda>v. (render v, annot v)) vs)"
| "annot (VObj ms) = JObj (map (\<lambda>(k, v). (k, render v, annot v)) ms)"

fun plain_val :: "nat \<Rightarrow> jval \<Rightarrow> bool" where
  "plain_val d (VStr s) = plain s"
| "plain_val d (VArr vs) = (d < max_nesting \<and> list_all (plain_val (Suc d)) vs)"
| "plain_val d (VObj ms) = (d < max_nesting \<and> list_all (\<lambda>(k, v). plain k \<and> plain_val (Suc d) v) ms)"
| "plain_val d _ = True"

definition delim :: "string \<Rightarrow> bool" where
  "delim r \<longleftrightarrow> r = [] \<or> hd r \<in> {CHR '','', CHR '']'', CHR 0x7D}"

lemma delimI [simp]: "delim []" "delim (CHR '','' # r)" "delim (CHR '']'' # r)" "delim (CHR 0x7D # r)"
  by (simp_all add: delim_def)

lemma scan_str_plain: "plain w \<Longrightarrow> scan_str (w @ CHR 0x22 # r) = Some (w, r)"
  by (induction w) (auto simp: plain_def plain_char_def)

lemma utf8_len_ascii: "(of_char c :: nat) < 128 \<Longrightarrow> utf8_len (c # cs) = Some 1"
  by (simp add: utf8_len_def byte_in_def)

lemma unquote_plain: "plain w \<Longrightarrow> unquote w = w"
proof (induction w)
  case Nil
  then show ?case by (simp add: unquote.simps)
next
  case (Cons c w)
  then show ?case
    by (subst unquote.simps) (simp add: plain_def plain_char_def utf8_len_ascii)
qed

lemma span_digits_append:
  "list_all is_digit ds \<Longrightarrow> r = [] \<or> \<not> is_digit (hd r) \<Longrightarrow> span_digits (ds @ r) = (ds, r)"
  by (cases r) (auto simp: span_digits_def list_all_iff takeWhile_append dropWhile_append)

lemma delim_number_end:
  assumes "delim r"
  shows "r = [] \<or> \<not> is_digit (hd r)" "scan_frac r = Some ([], r)" "scan_exp r = Some ([], r)"
  using assms
  by (cases r; auto simp: delim_def is_digit_def scan_frac_def scan_exp_def)+

lemma show_nat_zero: "show_nat n = CHR ''0'' # cs \<Longrightarrow> n = 0 \<and> cs = []"
proof (induction n arbitrary: cs rule: show_nat.induct)
  case (1 n)
  show ?case
  proof (cases "n < 10")
    case True
    with "1.prems" have "digit_char n = CHR ''0''" and "cs = []"
      by (simp_all add: show_nat.simps [of n])
    moreover from this True have "n = 0" using digit_char_props(2) [of n]
      by (simp add: digit_val_def)
    ultimately show ?thesis by simp
  next
    case False
    obtain x xs where x: "show_nat (n div 10) = x # xs" using show_nat_nonempty by (cases "show_nat (n div 10)") auto
    with False "1.prems" have "x = CHR ''0''" by (simp add: show_nat.simps [of n])
    with "1.IH" [OF False] x have "n div 10 = 0" by blast
    with False show ?thesis by simp
  qed
qed

lemma scan_int_part_nat:
  assumes "r = [] \<or> \<not> is_digit (hd r)"
  shows "scan_int_part (show_nat n @ r) = Some (show_nat n, r)"
    and "scan_int_part (CHR ''-'' # show_nat n @ r) = Some (CHR ''-'' # show_nat n, r)"
proof -
  obtain c cs where c: "show_nat n = c # cs" "is_digit c" using show_nat_Cons by blast
  have "list_all is_digit (c # cs)" by (simp flip: c(1))
  with assms have sp: "span_digits (c # cs @ r) = (c # cs, r)"
    using span_digits_append [of "c # cs" r] by simp
  have z: "cs = []" if "c = CHR ''0''" using that c(1) show_nat_zero by blast
  show "scan_int_part (show_nat n @ r) = Some (show_nat n, r)"
    and "scan_int_part (CHR ''-'' # show_nat n @ r) = Some (CHR ''-'' # show_nat n, r)"
    using sp c z digit_not_sign [OF c(2)] by (auto simp: scan_int_part_def Let_def)
qed

lemma scan_number_int: "delim r \<Longrightarrow> scan_number (show_int i @ r) = Some (show_int i, r)"
  using scan_int_part_nat [of r] delim_number_end [of r]
  by (simp add: scan_number_def show_int_def)

lemma show_int_head:
  obtains c cs where "show_int i = c # cs" "c = CHR ''-'' \<or> is_digit c"
  using show_nat_Cons [of "nat i"] by (cases "i < 0") (auto simp: show_int_def)

lemma parse_val_int:
  "delim r \<Longrightarrow> parse_val (Suc f) d (show_int i @ r) = Some (JNum (show_int i), r)"
proof -
  assume r: "delim r"
  obtain c cs where c: "show_int i = c # cs" "c = CHR ''-'' \<or> is_digit c" by (rule show_int_head)
  from c(2) have "c \<notin> {CHR 0x7B, CHR 0x5B, CHR 0x22, CHR ''t'', CHR ''f'', CHR ''n''}"
    by (auto simp: is_digit_def)
  with c(1) scan_number_int [OF r, of i] show ?thesis by auto
qed

lemma render_head:
  "\<exists>c cs. render v = c # cs \<and> \<not> json_ws c \<and> c \<noteq> CHR '']'' \<and> c \<noteq> CHR 0x7D"
proof (cases v)
  case (VInt i)
  obtain c cs where "show_int i = c # cs" "c = CHR ''-'' \<or> is_digit c" by (rule show_int_head)
  with VInt show ?thesis by (auto simp: json_ws_def is_digit_def)
qed (auto simp: json_ws_def quoted_def)

lemma skip_ws_render [simp]: "skip_ws (render v @ r) = render v @ r"
  using render_head [of v] by (auto simp: skip_ws_def)

lemma consumed_append [simp]: "consumed (s @ r) r = s"
  by (simp add: consumed_def)

lemma skip_ws_delim [simp]:
  "skip_ws (CHR '','' # r) = CHR '','' # r" "skip_ws (CHR '']'' # r) = CHR '']'' # r"
  "skip_ws (CHR 0x7D # r) = CHR 0x7D # r" "skip_ws (CHR '':'' # r) = CHR '':'' # r"
  "skip_ws (CHR 0x22 # r) = CHR 0x22 # r" "skip_ws [] = []"
  by (simp_all add: skip_ws_def json_ws_def)

definition parses_back :: "jval \<Rightarrow> bool" where
  "parses_back v \<longleftrightarrow>
     (\<forall>d r f. plain_val d v \<longrightarrow> delim r \<longrightarrow> 2 * length (render v @ r) + 1 \<le> f \<longrightarrow>
        parse_val f d (render v @ r) = Some (annot v, r))"

lemma parses_backD:
  "parses_back v \<Longrightarrow> plain_val d v \<Longrightarrow> delim r \<Longrightarrow> 2 * length (render v @ r) + 1 \<le> f \<Longrightarrow>
     parse_val f d (render v @ r) = Some (annot v, r)"
  by (simp add: parses_back_def)

lemma parse_elems_render:
  assumes "vs \<noteq> []" "\<forall>v \<in> set vs. parses_back v" "list_all (plain_val d) vs"
    "2 * length (join_with '','' (map render vs) @ CHR '']'' # r) + 2 \<le> f"
  shows "parse_elems f d (join_with '','' (map render vs) @ CHR '']'' # r)
           = Some (map (\<lambda>v. (render v, annot v)) vs, r)"
  using assms
proof (induction vs arbitrary: f)
  case Nil
  then show ?case by simp
next
  case (Cons v vs)
  from Cons.prems(4) obtain g where f: "f = Suc g" by (cases f) auto
  show ?case
  proof (cases vs)
    case Nil
    with Cons.prems f have "parse_val g d (render v @ CHR '']'' # r) = Some (annot v, CHR '']'' # r)"
      by (intro parses_backD) simp_all
    with Nil f show ?thesis by simp
  next
    case (Cons w ws)
    let ?t = "join_with '','' (map render vs) @ CHR '']'' # r"
    have l: "2 * length (render v @ CHR '','' # ?t) + 1 \<le> g"
      using Cons.prems(4) f Cons by simp
    from l Cons.prems have "parse_val g d (render v @ CHR '','' # ?t) = Some (annot v, CHR '','' # ?t)"
      by (intro parses_backD) simp_all
    moreover have "parse_elems g d ?t = Some (map (\<lambda>v. (render v, annot v)) vs, r)"
      using Cons.prems l Cons by (intro Cons.IH) simp_all
    moreover have "skip_ws ?t = ?t"
      using skip_ws_render [of w] Cons by (cases ws) simp_all
    ultimately show ?thesis using f Cons by simp
  qed
qed

lemma parse_members_render:
  assumes "ms \<noteq> []" "\<forall>(k, v) \<in> set ms. plain k \<and> parses_back v"
    "list_all (\<lambda>(k, v). plain_val d v) ms"
    "2 * length (join_with '','' (map (\<lambda>(k, v). quoted k @ '':'' @ render v) ms) @ CHR 0x7D # r) + 1 \<le> f"
  shows "parse_members f d (join_with '','' (map (\<lambda>(k, v). quoted k @ '':'' @ render v) ms) @ CHR 0x7D # r)
           = Some (map (\<lambda>(k, v). (k, render v, annot v)) ms, r)"
  using assms
proof (induction ms arbitrary: f)
  case Nil
  then show ?case by simp
next
  case (Cons m ms)
  obtain k v where m: "m = (k, v)" by (cases m)
  from Cons.prems(4) obtain g where f: "f = Suc g" by (cases f) auto
  from Cons.prems(2) m have k: "plain k" and v: "parses_back v" by auto
  have scan: "scan_str (k @ CHR 0x22 # t) = Some (k, t)" for t using k by (rule scan_str_plain)
  show ?case
  proof (cases ms)
    case Nil
    with Cons.prems f m v have "parse_val g d (render v @ CHR 0x7D # r) = Some (annot v, CHR 0x7D # r)"
      by (intro parses_backD) (simp_all add: quoted_def)
    with Nil f m k show ?thesis by (simp add: quoted_def scan unquote_plain)
  next
    case (Cons m' ms')
    let ?t = "join_with '','' (map (\<lambda>(k, v). quoted k @ '':'' @ render v) ms) @ CHR 0x7D # r"
    have l: "2 * length (render v @ CHR '','' # ?t) + 1 \<le> g"
      using Cons.prems(4) f Cons m by (simp add: quoted_def)
    from l Cons.prems m v have "parse_val g d (render v @ CHR '','' # ?t) = Some (annot v, CHR '','' # ?t)"
      by (intro parses_backD) simp_all
    moreover have "parse_members g d ?t = Some (map (\<lambda>(k, v). (k, render v, annot v)) ms, r)"
      using Cons.prems l Cons by (intro Cons.IH) simp_all
    moreover have "skip_ws ?t = ?t"
      using Cons by (cases ms'; cases m') (simp_all add: quoted_def)
    ultimately show ?thesis using f Cons m k by (simp add: quoted_def scan unquote_plain)
  qed
qed

lemma parse_val_words:
  assumes "0 < f"
  shows "parse_val f d (''null'' @ r) = Some (JNull, r)"
    "parse_val f d (''true'' @ r) = Some (JBool True, r)"
    "parse_val f d (''false'' @ r) = Some (JBool False, r)"
  using assms by (cases f; simp)+

lemma parses_back_all: "parses_back v"
proof (induction v)
  case (VArr vs)
  show ?case unfolding parses_back_def
  proof (intro allI impI)
    fix d r f
    assume p: "plain_val d (VArr vs)" and "delim r" and l: "2 * length (render (VArr vs) @ r) + 1 \<le> f"
    then obtain g where f: "f = Suc g" by (cases f) auto
    show "parse_val f d (render (VArr vs) @ r) = Some (annot (VArr vs), r)"
    proof (cases "vs = []")
      case True
      with f p show ?thesis by simp
    next
      case False
      let ?t = "join_with '','' (map render vs) @ CHR '']'' # r"
      have e: "parse_elems g (Suc d) ?t = Some (map (\<lambda>v. (render v, annot v)) vs, r)"
        using False VArr p l f by (intro parse_elems_render) simp_all
      obtain c cs where t: "?t = c # cs" "skip_ws ?t = ?t" "c \<noteq> CHR '']''"
      proof (cases vs)
        case (Cons v ws)
        obtain c cs where c: "render v = c # cs \<and> \<not> json_ws c \<and> c \<noteq> CHR '']'' \<and> c \<noteq> CHR 0x7D"
          using render_head [of v] by blast
        show thesis
          by (rule that [of c "drop 1 ?t"]; cases ws) (use c Cons in \<open>simp_all add: skip_ws_def\<close>)
      qed (use False in simp)
      have "skip_ws ?t = c # cs" using t by simp
      moreover have "parse_elems g (Suc d) (c # cs) = Some (map (\<lambda>v. (render v, annot v)) vs, r)"
        using e unfolding t(1) .
      ultimately show ?thesis using p f t(3) by (simp del: parse_elems.simps)
    qed
  qed
next
  case (VObj ms)
  show ?case unfolding parses_back_def
  proof (intro allI impI)
    fix d r f
    assume p: "plain_val d (VObj ms)" and "delim r" and l: "2 * length (render (VObj ms) @ r) + 1 \<le> f"
    then obtain g where f: "f = Suc g" by (cases f) auto
    show "parse_val f d (render (VObj ms) @ r) = Some (annot (VObj ms), r)"
    proof (cases ms)
      case Nil
      with f p show ?thesis by simp
    next
      case (Cons m ws)
      let ?t = "join_with '','' (map (\<lambda>(k, v). quoted k @ '':'' @ render v) ms) @ CHR 0x7D # r"
      have e: "parse_members g (Suc d) ?t = Some (map (\<lambda>(k, v). (k, render v, annot v)) ms, r)"
        using Cons VObj p l f
        by (intro parse_members_render) (fastforce simp: list_all_iff)+
      obtain cs where t: "?t = CHR 0x22 # cs" "skip_ws ?t = ?t"
        using Cons by (cases ws; cases m) (simp_all add: quoted_def)
      have "skip_ws ?t = CHR 0x22 # cs" using t by simp
      moreover have "parse_members g (Suc d) (CHR 0x22 # cs) =
          Some (map (\<lambda>(k, v). (k, render v, annot v)) ms, r)"
        using e unfolding t(1) .
      ultimately show ?thesis using p f by (simp del: parse_members.simps)
    qed
  qed
next
  case (VStr s)
  show ?case unfolding parses_back_def
  proof (intro allI impI)
    fix d r f
    assume "plain_val d (VStr s)" "2 * length (render (VStr s) @ r) + 1 \<le> f"
    then obtain g where "f = Suc g" "plain s" by (cases f) auto
    then show "parse_val f d (render (VStr s) @ r) = Some (annot (VStr s), r)"
      by (simp add: quoted_def scan_str_plain unquote_plain)
  qed
next
  case (VInt i)
  show ?case unfolding parses_back_def
  proof (intro allI impI)
    fix d r f
    assume "delim r" "2 * length (render (VInt i) @ r) + 1 \<le> f"
    then obtain g where "f = Suc g" by (cases f) auto
    with \<open>delim r\<close> show "parse_val f d (render (VInt i) @ r) = Some (annot (VInt i), r)"
      by (simp only: render.simps annot.simps parse_val_int)
  qed
next
  case VNull
  show ?case unfolding parses_back_def by (auto intro: parse_val_words(1) [simplified])
next
  case (VBool b)
  show ?case unfolding parses_back_def by (auto intro: parse_val_words(2,3) [simplified])
qed

theorem json_parse_render:
  assumes "plain_val 0 v"
  shows "json_parse (render v) = Some (annot v)"
proof -
  have "parse_val (json_fuel (render v)) 0 (render v @ []) = Some (annot v, [])"
    by (rule parses_backD [OF parses_back_all assms]) (simp_all add: json_fuel_def)
  moreover have "skip_ws (render v) = render v" using skip_ws_render [of v "[]"] by simp
  ultimately show ?thesis by (simp add: json_parse_def json_parse_first_def Let_def)
qed

declare parse_val.simps [simp del] parse_elems.simps [simp del] parse_members.simps [simp del]

end
