(* ===== verification/Height.thy ===== *)
theory Height
  imports Json
begin

text \<open>
  \<open>internal/proxy/height.go\<close>: which block height a request asks for, and whether that height is
  only served by the archival node. Package \<open>net/url\<close>'s query parser is modelled as far as
  \<open>ExtractHeightFromQuery\<close> uses it. Heights are \<open>int64\<close>: the difference between the head and the
  pruning window wraps around.
\<close>

record height_tracker =
  headHeight :: int
  pruningWindow :: int

definition NewHeightTracker :: "int \<Rightarrow> height_tracker" where
  "NewHeightTracker w = \<lparr>headHeight = 0, pruningWindow = w\<rparr>"

definition SetHead :: "int \<Rightarrow> height_tracker \<Rightarrow> height_tracker" where
  "SetHead h ht = ht\<lparr>headHeight := h\<rparr>"

definition Head :: "height_tracker \<Rightarrow> int" where "Head ht = headHeight ht"

definition IsArchival :: "height_tracker \<Rightarrow> int \<Rightarrow> bool" where
  "IsArchival ht height =
     (if pruningWindow ht \<le> 0 then False
      else let head = headHeight ht
           in if head = 0 then False
              else if height \<le> 0 then False
              else height < wrap64 (head - pruningWindow ht))"

definition Enabled :: "height_tracker \<Rightarrow> bool" where
  "Enabled ht \<longleftrightarrow> 0 < pruningWindow ht"

definition heightBearingMethods :: "(string \<times> int) list" where
  "heightBearingMethods =
     [(''block'', 0), (''block_results'', 0), (''validators'', 0), (''commit'', 0),
      (''blockchain'', 0), (''block_by_hash'', - 1), (''header'', 0), (''header_by_hash'', - 1),
      (''header.GetByHeight'', 0), (''blob.Get'', 0), (''blob.GetAll'', 0), (''blob.GetProof'', 0),
      (''share.GetSharesByNamespace'', 0), (''share.GetEDS'', 0), (''share.GetNamespaceData'', 0)]"

definition parseHeight :: "string \<Rightarrow> int" where
  "parseHeight raw =
     (let s = trim_space raw
      in if s = [] then 0
         else if hd s = CHR 0x22 then
           (case unmarshal_string raw of
              None \<Rightarrow> 0
            | Some str \<Rightarrow> (case parse_int_opt str of None \<Rightarrow> 0 | Some h \<Rightarrow> h))
         else (case parse_int_opt s of None \<Rightarrow> 0 | Some h \<Rightarrow> h))"

text \<open>The loop over the two spellings of an object's height field.\<close>

fun first_height :: "(string \<rightharpoonup> string) \<Rightarrow> string list \<Rightarrow> int" where
  "first_height m [] = 0"
| "first_height m (k # ks) = (case m k of Some v \<Rightarrow> parseHeight v | None \<Rightarrow> first_height m ks)"

definition ExtractHeight :: "string \<Rightarrow> string \<Rightarrow> int" where
  "ExtractHeight method body =
     (case map_of heightBearingMethods method of
        None \<Rightarrow> 0
      | Some paramIdx \<Rightarrow>
          if paramIdx < 0 then 0
          else case unmarshal_raw_struct ''params'' body of
            None \<Rightarrow> 0
          | Some params \<Rightarrow>
              if params = [] then 0
              else let trimmed = trim_space params
                   in if trimmed \<noteq> [] \<and> hd trimmed = CHR ''['' then
                        (case unmarshal_raw_list params of
                           None \<Rightarrow> 0
                         | Some ps \<Rightarrow>
                             if int (length ps) \<le> paramIdx then 0 else parseHeight (ps ! nat paramIdx))
                      else (case unmarshal_raw_map params of
                              None \<Rightarrow> 0
                            | Some m \<Rightarrow> first_height m [''height'', ''Height'']))"

subsection \<open>Query strings: package net/url\<close>

text \<open>\<open>url.QueryUnescape\<close>: \<open>None\<close> on a bad escape.\<close>

fun query_unescape :: "string \<Rightarrow> string option" where
  "query_unescape [] = Some []"
| "query_unescape (c # cs) =
     (if c = CHR ''%'' then
        (case cs of
           a # b # rest \<Rightarrow>
             (case (hex_val a, hex_val b) of
                (Some x, Some y) \<Rightarrow> map_option (Cons (char_of (16 * x + y))) (query_unescape rest)
              | _ \<Rightarrow> None)
         | _ \<Rightarrow> None)
      else map_option (Cons (if c = CHR ''+'' then CHR '' '' else c)) (query_unescape cs))"

definition cut_byte :: "string \<Rightarrow> char \<Rightarrow> string \<times> string" where
  "cut_byte s c = (case index_byte s c of None \<Rightarrow> (s, []) | Some i \<Rightarrow> (take i s, drop (Suc i) s))"

text \<open>\<open>url.ParseQuery\<close>: the pairs that parse, in order, and whether some part did not.\<close>

fun query_parts :: "string list \<Rightarrow> (string \<times> string) list \<times> bool" where
  "query_parts [] = ([], True)"
| "query_parts (p # ps) =
     (let (rest, ok) = query_parts ps
      in if CHR '';'' \<in> set p then (rest, False)
         else if p = [] then (rest, ok)
         else case cut_byte p (CHR ''='') of (k, v) \<Rightarrow>
           (case (query_unescape k, query_unescape v) of
              (Some k', Some v') \<Rightarrow> ((k', v') # rest, ok)
            | _ \<Rightarrow> (rest, False)))"

definition parse_query :: "string \<Rightarrow> (string \<times> string) list \<times> bool" where
  "parse_query q = query_parts (split_on (CHR ''&'') q)"

definition values_get :: "(string \<times> string) list \<Rightarrow> string \<Rightarrow> string" where
  "values_get vs k = (case map_of vs k of Some v \<Rightarrow> v | None \<Rightarrow> [])"

definition ExtractHeightFromQuery :: "string \<Rightarrow> int" where
  "ExtractHeightFromQuery rawQuery =
     (if rawQuery = [] then 0
      else case parse_query rawQuery of (vals, ok) \<Rightarrow>
        if \<not> ok then 0
        else let h = values_get vals ''height''
             in if h = [] then 0
                else (case parse_int_opt h of None \<Rightarrow> 0 | Some height \<Rightarrow> height))"

subsection \<open>Pruning window\<close>

lemma IsArchival_needs:
  "IsArchival ht h \<Longrightarrow> Enabled ht \<and> headHeight ht \<noteq> 0 \<and> 0 < h"
  by (auto simp: IsArchival_def Enabled_def Let_def split: if_splits)

lemma IsArchival_zero [simp]: "\<not> IsArchival ht 0"
  using IsArchival_needs by fastforce

text \<open>Once a head is known the archival heights are exactly the positive ones below the
  window, they are closed downwards, and they only grow while the head advances.\<close>

theorem archival_window:
  assumes "Enabled ht" "0 < headHeight ht" "in_int64 (headHeight ht)" "in_int64 (pruningWindow ht)"
    "headHeight ht \<le> head'" "in_int64 head'"
  shows "(IsArchival ht h \<longleftrightarrow> 0 < h \<and> h + pruningWindow ht < headHeight ht)
     \<and> (IsArchival ht h \<and> 0 < h' \<and> h' \<le> h \<longrightarrow> IsArchival ht h')
     \<and> (IsArchival ht h \<longrightarrow> IsArchival (SetHead head' ht) h)"
proof -
  have w: "wrap64 (x - pruningWindow ht) = x - pruningWindow ht" if "0 < x" "in_int64 x" for x
    using that assms(1,4) by (intro wrap64_id) (auto simp: in_int64_def Enabled_def min_int64_def max_int64_def)
  show ?thesis using assms w [of "headHeight ht"] w [of head']
    by (auto simp: IsArchival_def SetHead_def Enabled_def Let_def)
qed

theorem archival_window_witness:
  "IsArchival (SetHead 1000 (NewHeightTracker 100)) 899 \<and> \<not> IsArchival (SetHead 1000 (NewHeightTracker 100)) 900
   \<and> IsArchival (SetHead 2000 (SetHead 1000 (NewHeightTracker 100))) 899"
  using archival_window [of "SetHead 1000 (NewHeightTracker 100)" 2000 899]
    archival_window [of "SetHead 1000 (NewHeightTracker 100)" 2000 900]
  by (simp add: Enabled_def SetHead_def NewHeightTracker_def in_int64_def min_int64_def max_int64_def)

subsection \<open>Heights in documents\<close>

text \<open>Bundles to evaluate decimal texts and plain documents with the simplifier.\<close>

lemmas decimal_simps = parse_int_opt_def parse_int64_def Let_def is_digit_def digits_val_def digit_val_def
  in_int64_def min_int64_def max_int64_def

lemmas plain_simps = plain_def plain_char_def

lemma plain_val_depth: "plain_val d v \<Longrightarrow> plain_val 0 v"
proof -
  have "plain_val d v \<Longrightarrow> e \<le> d \<Longrightarrow> plain_val e v" for d e
  proof (induction d v arbitrary: e rule: plain_val.induct)
    case (2 d vs)
    then show ?case by (auto simp: list_all_iff)
  next
    case (3 d ms)
    show ?case using 3(2,3) 3(1) by (fastforce simp: list_all_iff)
  qed simp_all
  then show "plain_val d v \<Longrightarrow> plain_val 0 v" by blast
qed

lemma render_ends: "render v \<noteq> [] \<and> solid (hd (render v)) \<and> solid (last (render v))"
proof (cases v)
  case (VInt i)
  have "solid (last (show_nat n))" for n
    using show_nat_digits [of n] by (intro solid_digit) (simp add: list_all_iff)
  moreover have "solid (hd (show_nat n))" for n
    using show_nat_digits [of n] by (intro solid_digit) (simp add: list_all_iff)
  ultimately show ?thesis using VInt by (simp add: show_int_def solid_def)
qed (simp_all add: quoted_def solid_def)

lemma trim_space_render [simp]: "trim_space (render v) = render v"
  using render_ends by (intro trim_space_solid) blast+

text \<open>The height a document's value stands for; 0 when it stands for none.\<close>

fun height_of :: "jval \<Rightarrow> int" where
  "height_of (VInt i) = (if in_int64 i then i else 0)"
| "height_of (VStr s) = (case parse_int_opt s of None \<Rightarrow> 0 | Some h \<Rightarrow> h)"
| "height_of _ = 0"

lemma parse_int_opt_show_int:
  "parse_int_opt (show_int i) = (if in_int64 i then Some i else None)"
proof (cases "in_int64 i")
  case True
  then show ?thesis using parse_show_int by (simp add: parse_int_opt_def)
next
  case False
  obtain c cs where c: "show_nat (nat i) = c # cs" "is_digit c"
    using show_nat_Cons by blast
  have "list_all is_digit (c # cs)" "digits_val (c # cs) = nat i"
    by (simp_all flip: c(1))
  with c False show ?thesis
    by (cases "i < 0") (auto simp: parse_int_opt_def parse_int64_def show_int_def Let_def in_int64_def
      digit_not_sign max_int64_def min_int64_def)
qed

lemma parse_int_opt_nondigit:
  "c \<noteq> CHR ''-'' \<Longrightarrow> c \<noteq> CHR ''+'' \<Longrightarrow> \<not> is_digit c \<Longrightarrow> parse_int_opt (c # cs) = None"
  by (simp add: parse_int_opt_def parse_int64_def Let_def)

lemma parseHeight_render:
  assumes "plain_val 0 v"
  shows "parseHeight (render v) = height_of v"
proof (cases v)
  case (VInt i)
  obtain c cs where c: "show_int i = c # cs" "c = CHR ''-'' \<or> is_digit c" by (rule show_int_head)
  then have "c \<noteq> CHR 0x22" by (auto simp: is_digit_def)
  with c VInt parse_int_opt_show_int [of i] trim_space_render [of v] show ?thesis
    by (simp add: parseHeight_def)
next
  case (VStr s)
  have "unmarshal_string (render v) = Some s"
    using json_parse_render [OF assms] VStr by (simp add: unmarshal_string_def)
  moreover have "trim_space (render v) = render v" by simp
  ultimately show ?thesis using VStr by (simp add: parseHeight_def quoted_def)
qed (use trim_space_render [of v] in \<open>simp_all add: parseHeight_def parse_int_opt_nondigit is_digit_def split: if_splits\<close>)

text \<open>Where the documents in a body with several members come from: the last member whose name
  folds to the field's name.\<close>

lemma set_raw_field_skip:
  "\<forall>(k, v) \<in> set post. fold_name k \<noteq> name \<Longrightarrow>
     foldl (set_raw_field name) acc (map (\<lambda>(k, v). (k, render v, annot v)) post) = acc"
  by (induction post arbitrary: acc) (auto simp: set_raw_field_def)

lemma unmarshal_raw_struct_render:
  assumes "plain_val 0 (VObj (pre @ (k, v) # post))" "fold_name k = name"
    "\<forall>(k, v) \<in> set post. fold_name k \<noteq> name"
  shows "unmarshal_raw_struct name (render (VObj (pre @ (k, v) # post))) = Some (render v)"
  using json_parse_render [OF assms(1)] assms(2) set_raw_field_skip [OF assms(3)]
  by (simp add: unmarshal_raw_struct_def decode_raw_struct_def checked_def set_raw_field_def)

lemma unmarshal_raw_list_render:
  "plain_val 0 (VArr vs) \<Longrightarrow> unmarshal_raw_list (render (VArr vs)) = Some (map render vs)"
  using json_parse_render [of "VArr vs"] by (simp add: unmarshal_raw_list_def)

lemma unmarshal_raw_map_render:
  "plain_val 0 (VObj ms) \<Longrightarrow>
     unmarshal_raw_map (render (VObj ms)) = Some (map_option render \<circ> map_of (rev ms))"
proof -
  assume "plain_val 0 (VObj ms)"
  moreover have "map_of (map (\<lambda>(k, v). (k, render v)) xs) = map_option render \<circ> map_of xs" for xs
    by (induction xs) auto
  ultimately show ?thesis using json_parse_render [of "VObj ms"]
    by (simp add: unmarshal_raw_map_def rev_map o_def case_prod_unfold del: render.simps)
qed

lemma plain_val_member:
  "plain_val d (VObj ms) \<Longrightarrow> (k, v) \<in> set ms \<Longrightarrow> plain_val 0 v"
  by (auto simp: list_all_iff intro: plain_val_depth)

text \<open>The height of a parameter list or object.\<close>

fun params_height :: "nat \<Rightarrow> jval \<Rightarrow> int" where
  "params_height i (VArr vs) = (if i < length vs then height_of (vs ! i) else 0)"
| "params_height i (VObj ms) =
     (case map_of (rev ms) ''height'' of
        Some v \<Rightarrow> height_of v
      | None \<Rightarrow> (case map_of (rev ms) ''Height'' of Some v \<Rightarrow> height_of v | None \<Rightarrow> 0))"
| "params_height i _ = 0"

lemma fold_name_params [simp]: "fold_name ''params'' = ''params''"
  by code_simp

lemma fold_name_other: "fold_name ''id'' \<noteq> ''params''" "fold_name ''method'' \<noteq> ''params''" "fold_name ''jsonrpc'' \<noteq> ''params''"
  by code_simp+

text \<open>On every compact request document of a height-bearing method, the height is the one the
  last \<open>params\<close> member gives: at the method's position in an array, as number or decimal string,
  or under \<open>height\<close> (else \<open>Height\<close>) in an object, and 0 (latest) for everything else.\<close>

theorem extract_height_document:
  assumes "map_of heightBearingMethods method = Some (int idx)"
    "plain_val 0 (VObj (pre @ (''params'', v) # post))"
    "\<forall>(k, v) \<in> set post. fold_name k \<noteq> ''params''"
  shows "ExtractHeight method (render (VObj (pre @ (''params'', v) # post))) = params_height idx v"
proof -
  have pv: "plain_val 0 v" by (rule plain_val_member [OF assms(2), of "''params''"]) simp
  have hv: "\<And>w. w \<in> set (case v of VArr vs \<Rightarrow> vs | VObj ms \<Rightarrow> map snd ms | _ \<Rightarrow> []) \<Longrightarrow> parseHeight (render w) = height_of w"
    using pv by (fastforce intro!: parseHeight_render intro: plain_val_depth simp: list_all_iff split: jval.splits)
  have raw: "unmarshal_raw_struct ''params'' (render (VObj (pre @ (''params'', v) # post))) = Some (render v)"
    by (rule unmarshal_raw_struct_render [OF assms(2) _ assms(3)]) simp
  have ne: "render v \<noteq> []" using render_ends by blast
  have start: "ExtractHeight method (render (VObj (pre @ (''params'', v) # post))) =
     (if hd (render v) = CHR ''['' then
        (case unmarshal_raw_list (render v) of
           None \<Rightarrow> 0
         | Some ps \<Rightarrow> if length ps \<le> idx then 0 else parseHeight (ps ! idx))
      else (case unmarshal_raw_map (render v) of
              None \<Rightarrow> 0
            | Some m \<Rightarrow> first_height m [''height'', ''Height'']))"
    using ne by (simp add: ExtractHeight_def assms(1) raw Let_def split: option.split del: render.simps)
  show ?thesis
  proof (cases v)
    case (VArr vs)
    with start unmarshal_raw_list_render [of vs] pv hv show ?thesis by simp
  next
    case (VObj ms)
    have "map_of (rev ms) k = Some w \<Longrightarrow> parseHeight (render w) = height_of w" for k w
      using hv [of w] VObj by (force dest!: map_of_SomeD)
    moreover have "hd (render (VObj ms)) \<noteq> CHR ''[''" by simp
    ultimately show ?thesis using start unmarshal_raw_map_render [of ms] pv VObj
      by (auto simp del: render.simps split: option.splits)
  next
    case (VInt i)
    obtain c cs where "show_int i = c # cs" "c = CHR ''-'' \<or> is_digit c" by (rule show_int_head)
    then have "hd (render v) \<noteq> CHR ''[''" using VInt by (auto simp: is_digit_def)
    with start json_parse_render [OF pv] VInt show ?thesis
      by (simp add: unmarshal_raw_map_def del: render.simps)
  qed (use start json_parse_render [OF pv] in \<open>simp_all add: unmarshal_raw_map_def quoted_def\<close>)
qed

theorem extract_height_document_witness:
  "ExtractHeight ''blob.Get''
     (render (VObj [(''id'', VInt 1), (''method'', VStr ''blob.Get''), (''params'', VArr [VStr ''286001'', VStr ''AAAA''])])) = 286001
   \<and> ExtractHeight ''block''
     (render (VObj ([] @ (''params'', VObj [(''height'', VInt 42)]) # [(''id'', VInt 1)]))) = 42"
proof -
  have "params_height 0 (VArr [VStr ''286001'', VStr ''AAAA'']) = 286001"
    "fold_name ''id'' \<noteq> ''params''"
    "plain_val 0 (VObj ([(''id'', VInt 1), (''method'', VStr ''blob.Get'')] @ (''params'', VArr [VStr ''286001'', VStr ''AAAA'']) # []))"
    "plain_val 0 (VObj ([] @ (''params'', VObj [(''height'', VInt 42)]) # [(''id'', VInt 1)]))"
    by (simp_all add: decimal_simps plain_simps max_nesting_def fold_name_other)
  moreover have "in_int64 42" by (simp add: decimal_simps)
  ultimately show ?thesis
    using extract_height_document [of "''blob.Get''" 0
        "[(''id'', VInt 1), (''method'', VStr ''blob.Get'')]" "VArr [VStr ''286001'', VStr ''AAAA'']" "[]"]
      extract_height_document [of "''block''" 0 "[]" "VObj [(''height'', VInt 42)]" "[(''id'', VInt 1)]"]
    by (simp add: heightBearingMethods_def del: render.simps)
qed

subsection \<open>Heights in query strings\<close>

text \<open>Text that needs no escape.\<close>

definition query_plain :: "string \<Rightarrow> bool" where
  "query_plain s \<longleftrightarrow> list_all (\<lambda>c. c \<notin> {CHR ''%'', CHR ''+'', CHR ''&'', CHR '';'', CHR ''=''}) s"

lemma query_unescape_plain: "query_plain s \<Longrightarrow> query_unescape s = Some s"
  by (induction s) (simp_all add: query_plain_def)

lemma query_parts_pair:
  assumes "query_plain k" "query_plain v"
  shows "query_parts ((k @ CHR ''='' # v) # ps) = ((k, v) # fst (query_parts ps), snd (query_parts ps))"
proof -
  have n: "CHR ''='' \<notin> set k" "CHR '';'' \<notin> set k" "CHR '';'' \<notin> set v"
    using assms by (auto simp: query_plain_def list_all_iff)
  then have "cut_byte (k @ CHR ''='' # v) (CHR ''='') = (k, v)"
    by (simp add: cut_byte_def index_byte_append)
  with n assms show ?thesis by (simp add: Let_def split_beta query_unescape_plain)
qed

definition query_of :: "(string \<times> string) list \<Rightarrow> string" where
  "query_of ps = join_with ''&'' (map (\<lambda>(k, v). k @ CHR ''='' # v) ps)"

lemma parse_query_of:
  assumes "list_all (\<lambda>(k, v). query_plain k \<and> query_plain v) ps" "ps \<noteq> []"
  shows "parse_query (query_of ps) = (ps, True)"
proof -
  have "list_all (\<lambda>w. CHR ''&'' \<notin> set w) (map (\<lambda>(k, v). k @ CHR ''='' # v) ps)"
    unfolding list_all_iff
  proof
    fix w assume "w \<in> set (map (\<lambda>(k, v). k @ CHR ''='' # v) ps)"
    then obtain k v where kv: "(k, v) \<in> set ps" "w = k @ CHR ''='' # v" by auto
    then have "query_plain k" "query_plain v" using assms(1) by (auto simp: list_all_iff)
    with kv(2) show "CHR ''&'' \<notin> set w" by (auto simp: query_plain_def list_all_iff)
  qed
  then have "split_on (CHR ''&'') (query_of ps) = map (\<lambda>(k, v). k @ CHR ''='' # v) ps"
    unfolding query_of_def using assms(2) by (intro split_join) (simp_all only: list_all_iff map_is_Nil_conv simp_thms)
  moreover have "query_parts (map (\<lambda>(k, v). k @ CHR ''='' # v) qs) = (qs, True)"
    if "list_all (\<lambda>(k, v). query_plain k \<and> query_plain v) qs" for qs
    using that by (induction qs) (auto simp: query_parts_pair simp del: query_parts.simps(2))
  ultimately show ?thesis using assms(1) by (simp add: parse_query_def)
qed

text \<open>From a query string the height is the value of the first \<open>height\<close> parameter, wherever
  it stands among others; an absent, out-of-range or non-numeric one counts as latest.\<close>

theorem extract_height_query:
  assumes "list_all (\<lambda>(k, v). query_plain k \<and> query_plain v) ps" "ps \<noteq> []"
  shows "ExtractHeightFromQuery (query_of ps) =
     (case map_of ps ''height'' of
        None \<Rightarrow> 0
      | Some v \<Rightarrow> (case parse_int_opt v of None \<Rightarrow> 0 | Some h \<Rightarrow> h))"
proof -
  have "query_of ps \<noteq> []"
    using assms(2) by (cases ps; cases "tl ps") (auto simp: query_of_def)
  moreover have "parse_int_opt [] = None" by (simp add: parse_int_opt_def parse_int64_def)
  ultimately show ?thesis
    by (auto simp: ExtractHeightFromQuery_def parse_query_of [OF assms] values_get_def Let_def split: option.splits)
qed

theorem extract_height_query_witness:
  "ExtractHeightFromQuery ''prove=true&height=286001&height=7'' = 286001"
proof -
  let ?ps = "[(''prove'', ''true''), (''height'', ''286001''), (''height'', ''7'')]"
  have "list_all (\<lambda>(k, v). query_plain k \<and> query_plain v) ?ps" "query_of ?ps = ''prove=true&height=286001&height=7''"
    "parse_int_opt ''286001'' = Some 286001"
    by (simp_all add: query_plain_def query_of_def decimal_simps)
  then show ?thesis using extract_height_query [of ?ps] by simp
qed

end
