(* ===== verification/Balancer.thy ===== *)
theory Balancer
  imports Latency Config
begin

text \<open>
  \<open>internal/proxy/balancer.go\<close>: selection of an endpoint of a pool, by round-robin until a
  latency is known, then by the lowest average with a tenth of the choices at random.

  The two calls to \<open>math/rand/v2\<close> in \<open>Next\<close> are the argument \<open>draw\<close>: the float compared with
  the exploration rate and the random index below a bound. \<open>good_draw\<close> is the documented range
  of the index.
\<close>

record draw =
  rnd_float :: rat
  rnd_int :: "nat \<Rightarrow> nat"

definition good_draw :: "draw \<Rightarrow> bool" where
  "good_draw r \<longleftrightarrow> (\<forall>n > 0. rnd_int r n < n)"

definition explorationRate :: rat where "explorationRate = 1 / 10"

definition exploring :: "draw \<Rightarrow> bool" where
  "exploring r \<longleftrightarrow> rnd_float r < f64_round explorationRate"

record endpoint_stats =
  st_URL :: string
  st_EWMALatencyMs :: f64
  st_RequestCount :: "64 word"

record balancer =
  bal_endpoints :: endpoints
  bal_counter :: "64 word"
  bal_latencies :: "ewma list"
  bal_index :: "string \<rightharpoonup> nat"

text \<open>The constructor's loop: a later occurrence of a URL overwrites the index of an earlier one.\<close>

fun index_endpoints :: "nat \<Rightarrow> endpoints \<Rightarrow> (string \<rightharpoonup> nat) \<Rightarrow> (string \<rightharpoonup> nat)" where
  "index_endpoints i [] m = m"
| "index_endpoints i (ep # eps) m = index_endpoints (Suc i) eps (m(ep \<mapsto> i))"

definition NewBalancer :: "endpoints \<Rightarrow> balancer" where
  "NewBalancer eps =
     \<lparr>bal_endpoints = eps, bal_counter = 0, bal_latencies = map (\<lambda>_. new_ewma) eps,
      bal_index = index_endpoints 0 eps Map.empty\<rparr>"

definition max_f64 :: rat where "max_f64 = (2 ^ 53 - 1) * 2 ^ 971"

text \<open>The scan for the lowest average; it stops at the first endpoint without a sample.\<close>

fun pick_fastest :: "nat \<Rightarrow> f64 \<Rightarrow> nat \<Rightarrow> ewma list \<Rightarrow> nat" where
  "pick_fastest bestIdx bestVal i [] = bestIdx"
| "pick_fastest bestIdx bestVal i (l # ls) =
     (if ewma_Count l = 0 then i
      else if ewma_Value l < bestVal then pick_fastest i (ewma_Value l) (Suc i) ls
      else pick_fastest bestIdx bestVal (Suc i) ls)"

definition has_data :: "balancer \<Rightarrow> bool" where
  "has_data b \<longleftrightarrow> list_ex (\<lambda>l. 0 < ewma_Count l) (bal_latencies b)"

definition balancer_Next :: "draw \<Rightarrow> balancer \<Rightarrow> string \<times> balancer" where
  "balancer_Next r b =
     (let n = length (bal_endpoints b)
      in if n = 0 then ([], b)
         else if n = 1 then (bal_endpoints b ! 0, b)
         else if \<not> has_data b then
           (let counter' = bal_counter b + 1; idx = counter' - 1
            in (bal_endpoints b ! (unat idx mod n), b\<lparr>bal_counter := counter'\<rparr>))
         else if exploring r then (bal_endpoints b ! rnd_int r n, b)
         else (bal_endpoints b ! pick_fastest 0 max_f64 0 (bal_latencies b), b))"

definition balancer_RecordLatency :: "string \<Rightarrow> int \<Rightarrow> balancer \<Rightarrow> balancer" where
  "balancer_RecordLatency ep d b =
     (case bal_index b ep of
        None \<Rightarrow> b
      | Some i \<Rightarrow> b\<lparr>bal_latencies := (bal_latencies b)[i := ewma_Update d (bal_latencies b ! i)]\<rparr>)"

definition balancer_Stats :: "balancer \<Rightarrow> endpoint_stats list" where
  "balancer_Stats b =
     map (\<lambda>(ep, l). \<lparr>st_URL = ep, st_EWMALatencyMs = ewma_Value l, st_RequestCount = ewma_Count l\<rparr>)
       (zip (bal_endpoints b) (bal_latencies b))"

definition balancer_All :: "balancer \<Rightarrow> endpoints" where "balancer_All b = bal_endpoints b"
definition balancer_Len :: "balancer \<Rightarrow> nat" where "balancer_Len b = length (bal_endpoints b)"

subsection \<open>Well-formedness\<close>

definition balancer_wf :: "balancer \<Rightarrow> bool" where
  "balancer_wf b \<longleftrightarrow>
     length (bal_latencies b) = length (bal_endpoints b) \<and>
     (\<forall>ep i. bal_index b ep = Some i \<longrightarrow> i < length (bal_endpoints b) \<and> bal_endpoints b ! i = ep)"

text \<open>The index of a URL is its last position.\<close>

lemma index_endpoints_eq:
  "index_endpoints k eps m ep = Some i \<longleftrightarrow>
     (ep \<in> set eps \<and> k \<le> i \<and> i < k + length eps \<and> eps ! (i - k) = ep \<and> ep \<notin> set (drop (Suc i - k) eps))
     \<or> (ep \<notin> set eps \<and> m ep = Some i)"
proof (induction eps arbitrary: k m)
  case Nil
  then show ?case by simp
next
  case (Cons e eps)
  show ?case
  proof (cases "k < i")
    case True
    then obtain j where "i = Suc (k + j)" using less_imp_Suc_add by blast
    then show ?thesis unfolding index_endpoints.simps Cons.IH
      by (auto simp: in_set_conv_nth Suc_diff_le)
  next
    case False
    then show ?thesis unfolding index_endpoints.simps Cons.IH by (cases "i = k") auto
  qed
qed

lemma NewBalancer_wf: "balancer_wf (NewBalancer eps)"
  by (auto simp: balancer_wf_def NewBalancer_def index_endpoints_eq)

lemma RecordLatency_frame [simp]:
  "bal_endpoints (balancer_RecordLatency ep d b) = bal_endpoints b"
  "bal_index (balancer_RecordLatency ep d b) = bal_index b"
  "bal_counter (balancer_RecordLatency ep d b) = bal_counter b"
  "length (bal_latencies (balancer_RecordLatency ep d b)) = length (bal_latencies b)"
  by (auto simp: balancer_RecordLatency_def split: option.splits)

lemma Next_frame [simp]:
  "bal_endpoints (snd (balancer_Next r b)) = bal_endpoints b"
  "bal_index (snd (balancer_Next r b)) = bal_index b"
  "bal_latencies (snd (balancer_Next r b)) = bal_latencies b"
  by (auto simp: balancer_Next_def Let_def)

lemma RecordLatency_wf [simp]: "balancer_wf b \<Longrightarrow> balancer_wf (balancer_RecordLatency ep d b)"
  by (simp add: balancer_wf_def)

lemma Next_wf [simp]: "balancer_wf b \<Longrightarrow> balancer_wf (snd (balancer_Next r b))"
  by (simp add: balancer_wf_def)

subsection \<open>Selection by latency\<close>

lemma pick_fastest_unmeasured:
  "j < length ls \<Longrightarrow> ewma_Count (ls ! j) = 0 \<Longrightarrow> \<forall>k < j. ewma_Count (ls ! k) \<noteq> 0 \<Longrightarrow>
     pick_fastest bi bv i ls = i + j"
proof (induction ls arbitrary: bi bv i j)
  case Nil
  then show ?case by simp
next
  case (Cons l ls)
  show ?case
  proof (cases j)
    case 0
    with Cons.prems show ?thesis by simp
  next
    case (Suc j')
    with Cons.prems have "ewma_Count l \<noteq> 0" "\<forall>k < j'. ewma_Count (ls ! k) \<noteq> 0"
      by fastforce+
    with Cons.IH [of j'] Cons.prems Suc show ?thesis by simp
  qed
qed

text \<open>With a sample everywhere the scan finds the first position of the least value, or keeps
  its start when no value is below the initial bound.\<close>

definition least_at :: "ewma list \<Rightarrow> nat \<Rightarrow> bool" where
  "least_at ls j \<longleftrightarrow> j < length ls
     \<and> (\<forall>k < length ls. ewma_Value (ls ! j) \<le> ewma_Value (ls ! k))
     \<and> (\<forall>k < j. ewma_Value (ls ! j) < ewma_Value (ls ! k))"

lemma least_at_Cons_0:
  "(\<forall>x \<in> set ls. ewma_Value l \<le> ewma_Value x) \<Longrightarrow> least_at (l # ls) 0"
  by (auto simp: least_at_def nth_Cons split: nat.splits)

lemma least_at_Cons_Suc:
  "least_at ls j \<Longrightarrow> ewma_Value (ls ! j) < ewma_Value l \<Longrightarrow> least_at (l # ls) (Suc j)"
  by (auto simp: least_at_def nth_Cons split: nat.splits)

lemma pick_fastest_measured:
  assumes "\<forall>l \<in> set ls. ewma_Count l \<noteq> 0"
  shows "(pick_fastest bi bv i ls = bi \<and> (\<forall>l \<in> set ls. bv \<le> ewma_Value l))
       \<or> (\<exists>j. pick_fastest bi bv i ls = i + j \<and> least_at ls j \<and> ewma_Value (ls ! j) < bv)"
  using assms
proof (induction ls arbitrary: bi bv i)
  case Nil
  then show ?case by simp
next
  case (Cons l ls)
  then have c: "ewma_Count l \<noteq> 0" and IH: "\<And>bi bv i.
      (pick_fastest bi bv i ls = bi \<and> (\<forall>l \<in> set ls. bv \<le> ewma_Value l))
      \<or> (\<exists>j. pick_fastest bi bv i ls = i + j \<and> least_at ls j \<and> ewma_Value (ls ! j) < bv)"
    by auto
  show ?case
  proof (cases "ewma_Value l < bv")
    case True
    with IH [of i "ewma_Value l" "Suc i"] c show ?thesis
      by (auto intro: least_at_Cons_0 dest: least_at_Cons_Suc)
  next
    case False
    have "least_at (l # ls) (Suc j)" if "least_at ls j" "ewma_Value (ls ! j) < bv" for j
      using that False by (intro least_at_Cons_Suc) simp_all
    with IH [of bi bv "Suc i"] False c show ?thesis by auto
  qed
qed

lemma Next_latency:
  assumes "2 \<le> length (bal_endpoints b)" "has_data b" "\<not> exploring r"
  shows "fst (balancer_Next r b) = bal_endpoints b ! pick_fastest 0 max_f64 0 (bal_latencies b)"
proof -
  from assms(1) have "bal_endpoints b \<noteq> []" by auto
  with assms show ?thesis by (simp add: balancer_Next_def Let_def)
qed

text \<open>Once every endpoint has a sample, a choice that is not exploratory goes to an
  endpoint whose average is the lowest of the pool, the first such one in the configured order.\<close>

theorem next_picks_fastest:
  assumes "balancer_wf b" "2 \<le> length (bal_endpoints b)" "\<not> exploring r"
    "\<forall>l \<in> set (bal_latencies b). 0 < ewma_Count l \<and> ewma_Value l < max_f64"
  shows "\<exists>j. fst (balancer_Next r b) = bal_endpoints b ! j \<and> least_at (bal_latencies b) j"
proof -
  let ?ls = "bal_latencies b"
  have len: "length ?ls = length (bal_endpoints b)" using assms(1) by (simp add: balancer_wf_def)
  then have ne: "?ls ! 0 \<in> set ?ls" using assms(2) len by (intro nth_mem) linarith
  then have "has_data b" using assms(4) by (auto simp: has_data_def list_ex_iff)
  moreover have "\<not> (\<forall>l \<in> set ?ls. max_f64 \<le> ewma_Value l)" using assms(4) ne by fastforce
  moreover have "\<forall>l \<in> set ?ls. ewma_Count l \<noteq> 0" using assms(4) by auto
  ultimately show ?thesis
    using pick_fastest_measured [of ?ls 0 max_f64 0] Next_latency [of b r] assms(2,3) by auto
qed

definition sample_pool :: balancer where
  "sample_pool = fold (\<lambda>(ep, d). balancer_RecordLatency ep d)
     [(''http://a'', 9000000), (''http://b'', 4000000), (''http://c'', 4000000)]
     (NewBalancer [''http://a'', ''http://b'', ''http://c''])"

definition steady :: draw where "steady = \<lparr>rnd_float = 1 / 2, rnd_int = (\<lambda>n. 0)\<rparr>"

lemma steady_draw [simp]: "good_draw steady" "\<not> exploring steady"
proof -
  have "f64_round explorationRate \<le> f64_round (1 / 2)"
    by (intro f64_round_mono) (simp add: explorationRate_def)
  also have "f64_round (1 / 2) = 1 / 2" using f64_round_exact [of 1 "- 1"] by simp
  finally show "\<not> exploring steady" by (simp add: exploring_def steady_def)
qed (simp add: good_draw_def steady_def)

lemma sample_pool_eq:
  "sample_pool = \<lparr>bal_endpoints = [''http://a'', ''http://b'', ''http://c''], bal_counter = 0,
     bal_latencies = [\<lparr>ewma_val = 9, ewma_count = 1\<rparr>, \<lparr>ewma_val = 4, ewma_count = 1\<rparr>, \<lparr>ewma_val = 4, ewma_count = 1\<rparr>],
     bal_index = [''http://a'' \<mapsto> 0, ''http://b'' \<mapsto> 1, ''http://c'' \<mapsto> 2]\<rparr>"
proof -
  have "sample_ms 9000000 = 9" "sample_ms 4000000 = 4"
    using f64_round_exact [of 9 0] f64_round_exact [of 4 0] by (simp_all add: sample_ms_def f64_div_def)
  then show ?thesis
    by (simp add: sample_pool_def NewBalancer_def balancer_RecordLatency_def ewma_Update_def new_ewma_def ewma_mix_def
      numeral_2_eq_2)
qed

theorem next_picks_fastest_witness:
  "\<exists>j. fst (balancer_Next steady sample_pool) = bal_endpoints sample_pool ! j
     \<and> least_at (bal_latencies sample_pool) j"
proof (rule next_picks_fastest)
  show "balancer_wf sample_pool"
    by (auto simp: sample_pool_eq balancer_wf_def split: if_splits)
qed (simp_all add: sample_pool_eq ewma_Count_def ewma_Value_def max_f64_def)

text \<open>A choice without exploration goes to the first endpoint that has no sample yet, so
  that it gets measured, whatever the averages of the others.\<close>

theorem next_probes_unmeasured:
  assumes "2 \<le> length (bal_endpoints b)" "has_data b" "\<not> exploring r"
    "j < length (bal_latencies b)" "ewma_Count (bal_latencies b ! j) = 0"
    "\<forall>k < j. ewma_Count (bal_latencies b ! k) \<noteq> 0"
  shows "fst (balancer_Next r b) = bal_endpoints b ! j"
  using Next_latency [OF assms(1-3)] pick_fastest_unmeasured [OF assms(4-6)] by simp

definition half_pool :: balancer where
  "half_pool = balancer_RecordLatency ''http://a'' 9000000 (NewBalancer [''http://a'', ''http://b''])"

theorem next_probes_unmeasured_witness: "fst (balancer_Next steady half_pool) = ''http://b''"
proof -
  have "fst (balancer_Next steady half_pool) = bal_endpoints half_pool ! 1"
    by (rule next_probes_unmeasured)
      (simp_all add: half_pool_def has_data_def NewBalancer_def balancer_RecordLatency_def
        ewma_Update_def new_ewma_def ewma_Count_def)
  then show ?thesis by (simp add: half_pool_def NewBalancer_def)
qed

subsection \<open>Safety, round-robin and history\<close>

lemma pick_fastest_range: "pick_fastest bi bv i ls = bi \<or> (i \<le> pick_fastest bi bv i ls \<and> pick_fastest bi bv i ls < i + length ls)"
proof (induction ls arbitrary: bi bv i)
  case Nil
  then show ?case by simp
next
  case (Cons l ls)
  from Cons.IH [of i "ewma_Value l" "Suc i"] Cons.IH [of bi bv "Suc i"] show ?case by auto
qed

lemma balancer_Next_in:
  assumes "balancer_wf b" "good_draw r" "bal_endpoints b \<noteq> []"
  shows "fst (balancer_Next r b) \<in> set (bal_endpoints b)"
proof -
  have "pick_fastest 0 max_f64 0 (bal_latencies b) < length (bal_endpoints b)"
    using pick_fastest_range [of 0 max_f64 0 "bal_latencies b"] assms(1,3) by (auto simp: balancer_wf_def)
  with assms(2,3) show ?thesis by (simp add: balancer_Next_def Let_def good_draw_def)
qed

lemma unat_lt_2_64: "unat (w :: 64 word) < 2 ^ 64" "unat (w :: 64 word) \<le> 18446744073709551616"
  using unsigned_less [of w, where ?'a = nat] by (simp_all add: less_imp_le)

fun next_seq :: "draw list \<Rightarrow> balancer \<Rightarrow> string list \<times> balancer" where
  "next_seq [] b = ([], b)"
| "next_seq (r # rs) b =
     (let (u, b1) = balancer_Next r b; (us, b2) = next_seq rs b1 in (u # us, b2))"

lemma Next_round_robin:
  assumes "\<not> has_data b" "bal_endpoints b \<noteq> []" "n = length (bal_endpoints b)"
  shows "fst (balancer_Next r b) = bal_endpoints b ! (unat (bal_counter b) mod n)"
    "n \<noteq> 1 \<Longrightarrow> bal_counter (snd (balancer_Next r b)) = bal_counter b + 1"
  using assms by (simp_all add: balancer_Next_def Let_def)

lemma next_seq_round_robin:
  assumes "\<not> has_data b" "bal_endpoints b \<noteq> []" "unat (bal_counter b) + length rs \<le> 2 ^ 64"
  shows "fst (next_seq rs b) = map (\<lambda>i. bal_endpoints b ! ((unat (bal_counter b) + i) mod length (bal_endpoints b))) [0..<length rs]"
  using assms
proof (induction rs arbitrary: b)
  case Nil
  then show ?case by simp
next
  case (Cons r rs)
  let ?b = "snd (balancer_Next r b)" and ?n = "length (bal_endpoints b)"
  have h: "\<not> has_data ?b" using Cons.prems(1) by (simp add: has_data_def)
  have c: "?n = 1 \<or> rs = [] \<or> unat (bal_counter ?b) = Suc (unat (bal_counter b))"
  proof (cases "?n = 1 \<or> rs = []")
    case False
    then have "unat (bal_counter b) + 1 < 2 ^ 64" using Cons.prems(3) by (cases rs) simp_all
    then have "unat (bal_counter b + 1) = Suc (unat (bal_counter b))" by (simp add: unat_word_ariths(1))
    with False Next_round_robin(2) [of b ?n r] Cons.prems(1,2) show ?thesis by simp
  qed auto
  have le: "unat (bal_counter ?b) + length rs \<le> 2 ^ 64 \<or> ?n = 1"
    using c Cons.prems(3) by (auto simp: unat_lt_2_64)
  show ?case
  proof (cases "?n = 1")
    case True
    then have same: "bal_counter ?b = bal_counter b" by (auto simp: balancer_Next_def)
    with True Cons.IH [of ?b] Cons.prems h Next_round_robin(1) [of b ?n r] show ?thesis
      by (simp add: Let_def split_beta map_replicate_const)
  next
    case False
    with le have "fst (next_seq rs ?b) = map (\<lambda>i. bal_endpoints b ! ((unat (bal_counter ?b) + i) mod ?n)) [0..<length rs]"
      using Cons.IH [of ?b] h Cons.prems(2) by simp
    also have "\<dots> = map (\<lambda>i. bal_endpoints b ! ((unat (bal_counter b) + i) mod ?n)) [Suc 0..<Suc (length rs)]"
      using c False by (auto simp: map_Suc_upt [symmetric] simp del: upt_Suc)
    finally have "fst (next_seq rs ?b) = \<dots>" .
    with Cons.prems Next_round_robin(1) [of b ?n r] show ?thesis
      by (simp add: Let_def split_beta upt_conv_Cons del: upt_Suc)
  qed
qed

text \<open>Before any latency is recorded, one turn of the pool visits every endpoint exactly
  once, in the configured order starting at the counter, as long as the counter does not wrap
  around its 64 bits during the turn.\<close>

theorem round_robin_turn:
  assumes "\<not> has_data b" "bal_endpoints b \<noteq> []" "length rs = length (bal_endpoints b)"
    "unat (bal_counter b) + length rs \<le> 2 ^ 64"
  shows "fst (next_seq rs b) = rotate (unat (bal_counter b)) (bal_endpoints b)
     \<and> mset (fst (next_seq rs b)) = mset (bal_endpoints b)"
proof -
  have "fst (next_seq rs b) = rotate (unat (bal_counter b)) (bal_endpoints b)"
    using next_seq_round_robin [OF assms(1,2,4)] assms(2,3)
    by (intro nth_equalityI) (simp_all add: nth_rotate add.commute)
  moreover have "mset (drop k xs @ take k xs) = mset xs" for k and xs :: "string list"
    by (metis append_take_drop_id mset_append union_commute)
  ultimately show ?thesis by (simp add: rotate_drop_take del: mset_append)
qed

theorem round_robin_turn_witness:
  "fst (next_seq [steady, steady] (snd (balancer_Next steady (NewBalancer [''http://a'', ''http://b'']))))
     = [''http://b'', ''http://a'']"
proof -
  let ?b = "snd (balancer_Next steady (NewBalancer [''http://a'', ''http://b'']))"
  have f: "bal_endpoints ?b = [''http://a'', ''http://b'']" "bal_counter ?b = 1" "\<not> has_data ?b"
    by (simp_all add: balancer_Next_def NewBalancer_def has_data_def new_ewma_def ewma_Count_def)
  then show ?thesis using round_robin_turn [of ?b "[steady, steady]"] by simp
qed

text \<open>The operations a pool goes through: choices and recorded durations, in any order.\<close>

datatype bal_op = OpNext draw | OpRecord string int

fun bal_step :: "bal_op \<Rightarrow> balancer \<Rightarrow> balancer" where
  "bal_step (OpNext r) b = snd (balancer_Next r b)"
| "bal_step (OpRecord ep d) b = balancer_RecordLatency ep d b"

definition bal_run :: "bal_op list \<Rightarrow> balancer \<Rightarrow> balancer" where
  "bal_run ops b = fold bal_step ops b"

fun recorded :: "string \<Rightarrow> bal_op list \<Rightarrow> int list" where
  "recorded u [] = []"
| "recorded u (OpRecord ep d # ops) = (if ep = u then d # recorded u ops else recorded u ops)"
| "recorded u (OpNext r # ops) = recorded u ops"

lemma bal_run_frame [simp]:
  "bal_endpoints (bal_run ops b) = bal_endpoints b"
  "bal_index (bal_run ops b) = bal_index b"
  "length (bal_latencies (bal_run ops b)) = length (bal_latencies b)"
proof (induction ops arbitrary: b)
  case (Cons op ops)
  {
    case 1
    with Cons show ?case by (cases op) (simp_all add: bal_run_def)
  next
    case 2
    with Cons show ?case by (cases op) (simp_all add: bal_run_def)
  next
    case 3
    with Cons show ?case by (cases op) (simp_all add: bal_run_def)
  }
qed (simp_all add: bal_run_def)

lemma bal_run_wf: "balancer_wf b \<Longrightarrow> balancer_wf (bal_run ops b)"
  by (simp add: balancer_wf_def)

text \<open>Whatever happened to a pool before (any choices, any recorded durations) and whatever
  the random numbers, a choice is one of the configured endpoints: no index is out of range.\<close>

theorem next_member:
  assumes "good_draw r" "eps \<noteq> []"
  shows "fst (balancer_Next r (bal_run ops (NewBalancer eps))) \<in> set eps"
  using balancer_Next_in [OF bal_run_wf [OF NewBalancer_wf] assms(1), of ops eps] assms(2)
  by (simp add: NewBalancer_def)

theorem next_member_witness:
  "fst (balancer_Next steady (bal_run [OpRecord ''http://b'' 9] (NewBalancer [''http://a'', ''http://b''])))
     \<in> {''http://a'', ''http://b''}"
  using next_member [OF steady_draw(1), of "[''http://a'', ''http://b'']"] by simp

lemma bal_run_latency:
  assumes "i < length (bal_latencies b)" "\<forall>ep. bal_index b ep = Some i \<longleftrightarrow> ep = u"
  shows "bal_latencies (bal_run ops b) ! i = fold ewma_Update (recorded u ops) (bal_latencies b ! i)"
  using assms
proof (induction ops arbitrary: b)
  case Nil
  then show ?case by (simp add: bal_run_def)
next
  case (Cons op ops)
  have "bal_latencies (bal_step op b) ! i = fold ewma_Update (recorded u [op]) (bal_latencies b ! i)"
  proof (cases op)
    case (OpRecord ep d)
    have "bal_index b ep = Some i \<longleftrightarrow> ep = u" using Cons.prems(2) by blast
    with OpRecord Cons.prems(1) show ?thesis
      by (cases "bal_index b ep"; cases "ep = u") (simp_all add: balancer_RecordLatency_def)
  qed simp
  moreover have "recorded u (op # ops) = recorded u [op] @ recorded u ops" by (cases op) simp_all
  moreover have "bal_run (op # ops) b = bal_run ops (bal_step op b)" by (simp add: bal_run_def)
  moreover have "i < length (bal_latencies (bal_step op b))" "bal_index (bal_step op b) = bal_index b"
    using Cons.prems(1) by (cases op; simp)+
  ultimately show ?case using Cons.IH [of "bal_step op b"] Cons.prems(2) by simp
qed

text \<open>With distinct URLs, the statistics after any interleaving of choices and recordings
  are, for every endpoint, the moving average of exactly the durations recorded under its own URL
  in order: no recording is lost, none reaches another endpoint, and unknown URLs are ignored.\<close>

theorem stats_are_history:
  assumes "distinct eps"
  shows "balancer_Stats (bal_run ops (NewBalancer eps)) =
     map (\<lambda>u. let e = fold ewma_Update (recorded u ops) new_ewma
               in \<lparr>st_URL = u, st_EWMALatencyMs = ewma_Value e, st_RequestCount = ewma_Count e\<rparr>) eps"
proof (rule nth_equalityI)
  fix i assume "i < length (balancer_Stats (bal_run ops (NewBalancer eps)))"
  then have i: "i < length eps" by (simp add: balancer_Stats_def NewBalancer_def)
  have "distinct (take i eps @ eps ! i # drop (Suc i) eps)" using assms i by (simp add: id_take_nth_drop [symmetric])
  then have "eps ! i \<notin> set (drop (Suc i) eps)" by simp
  with i have "\<forall>ep. bal_index (NewBalancer eps) ep = Some i \<longleftrightarrow> ep = eps ! i"
    by (simp add: NewBalancer_def index_endpoints_eq) (use nth_mem [OF i] in blast)
  from bal_run_latency [OF _ this, of ops] i
  have "bal_latencies (bal_run ops (NewBalancer eps)) ! i = fold ewma_Update (recorded (eps ! i) ops) new_ewma"
    by (simp add: NewBalancer_def)
  with i show "balancer_Stats (bal_run ops (NewBalancer eps)) ! i =
      map (\<lambda>u. let e = fold ewma_Update (recorded u ops) new_ewma
        in \<lparr>st_URL = u, st_EWMALatencyMs = ewma_Value e, st_RequestCount = ewma_Count e\<rparr>) eps ! i"
    by (simp add: balancer_Stats_def Let_def NewBalancer_def)
qed (simp add: balancer_Stats_def NewBalancer_def)

theorem stats_are_history_witness:
  "map st_RequestCount (balancer_Stats (bal_run [OpRecord ''http://a'' 5, OpRecord ''http://x'' 7, OpRecord ''http://a'' 9]
     (NewBalancer [''http://a'', ''http://b'']))) = [2, 0]"
  by (subst stats_are_history) (simp_all add: Let_def ewma_Update_def new_ewma_def ewma_Count_def)

text \<open>When the first URL of a pool is repeated further on, its latencies are recorded under
  the later position, so the first position never gets a sample, and from the first recorded
  latency on every choice without exploration goes to that URL, however slow it is.\<close>

theorem duplicate_url_captures:
  assumes "u \<in> set eps" "has_data (bal_run ops (NewBalancer (u # eps)))" "\<not> exploring r"
  shows "fst (balancer_Next r (bal_run ops (NewBalancer (u # eps)))) = u"
proof -
  let ?b = "NewBalancer (u # eps)"
  have "bal_index ?b ep \<noteq> Some 0" for ep
    using assms(1) by (auto simp: NewBalancer_def index_endpoints_eq)
  then have inv: "ewma_Count (bal_latencies (bal_run ops b) ! 0) = 0"
    if "bal_index b = bal_index ?b" "bal_latencies b \<noteq> []" "ewma_Count (bal_latencies b ! 0) = 0" for b
    using that
  proof (induction ops arbitrary: b)
    case (Cons op ops)
    have "bal_latencies (bal_step op b) ! 0 = bal_latencies b ! 0"
    proof (cases op)
      case (OpRecord ep d)
      have "bal_index b ep \<noteq> Some 0" using Cons.prems(1) [of ep] Cons.prems(2) by simp
      with OpRecord show ?thesis
        by (cases "bal_index b ep") (auto simp: balancer_RecordLatency_def)
    qed simp
    moreover have "bal_index (bal_step op b) = bal_index b" "length (bal_latencies (bal_step op b)) = length (bal_latencies b)"
        by (cases op; simp)+
    moreover from this(2) have "bal_latencies (bal_step op b) \<noteq> []" using Cons.prems(3) by auto
    ultimately show ?case using Cons.IH [of "bal_step op b"] Cons.prems by (simp add: bal_run_def)
  qed (simp add: bal_run_def)
  have "ewma_Count (bal_latencies (bal_run ops ?b) ! 0) = 0"
    by (rule inv) (simp_all add: NewBalancer_def new_ewma_def ewma_Count_def)
  then have "pick_fastest 0 max_f64 0 (bal_latencies (bal_run ops ?b)) = 0 + 0"
    by (intro pick_fastest_unmeasured) (simp_all add: NewBalancer_def)
  moreover have "2 \<le> length (bal_endpoints (bal_run ops ?b))"
    using assms(1) by (cases eps) (simp_all add: NewBalancer_def)
  ultimately show ?thesis using Next_latency [OF _ assms(2,3)] by (simp add: NewBalancer_def)
qed

theorem duplicate_url_captures_witness:
  "fst (balancer_Next steady (bal_run [OpRecord ''http://a'' 9000000000, OpRecord ''http://b'' 1000000]
     (NewBalancer [''http://a'', ''http://b'', ''http://a'']))) = ''http://a''"
  by (rule duplicate_url_captures)
    (simp_all add: bal_run_def has_data_def balancer_RecordLatency_def NewBalancer_def ewma_Update_def
      new_ewma_def ewma_Count_def)

end
