(* ===== verification/Router.thy ===== *)
theory Router
  imports Height Balancer
begin

text \<open>
  \<open>internal/proxy/router.go\<close>: from a request body to a backend and the endpoint to forward to.

  A \<open>Backend\<close> is a string in the source, compared with six constants, and stays one here. The
  router's map of pools becomes a function field; \<open>buildBalancers\<close> fills it with the six
  entries. Errors carry the text the source builds, with the underlying \<open>encoding/json\<close>
  message left out.
\<close>

type_synonym backend = string

definition BackendCelestiaAppRPC :: backend where "BackendCelestiaAppRPC = ''celestia-app-rpc''"
definition BackendCelestiaNodeRPC :: backend where "BackendCelestiaNodeRPC = ''celestia-node-rpc''"
definition BackendCelestiaNodeArchivalRPC :: backend where
  "BackendCelestiaNodeArchivalRPC = ''celestia-node-archival-rpc''"
definition BackendCelestiaAppArchivalRPC :: backend where
  "BackendCelestiaAppArchivalRPC = ''celestia-app-archival-rpc''"
definition BackendCelestiaAppGRPC :: backend where "BackendCelestiaAppGRPC = ''celestia-app-grpc''"
definition BackendCelestiaAppP2P :: backend where "BackendCelestiaAppP2P = ''celestia-app-p2p''"

lemmas backend_consts = BackendCelestiaAppRPC_def BackendCelestiaNodeRPC_def
  BackendCelestiaNodeArchivalRPC_def BackendCelestiaAppArchivalRPC_def BackendCelestiaAppGRPC_def
  BackendCelestiaAppP2P_def

definition daNamespaces :: "string list" where
  "daNamespaces = [''blob'', ''header'', ''share'', ''das'', ''state'', ''p2p'', ''node'']"

record route_decision =
  rd_Backend :: backend
  rd_TargetURL :: string
  rd_Method :: string

record router =
  balancers :: "backend \<rightharpoonup> balancer"
  heightTracker :: "height_tracker option"

definition buildBalancers :: "backends_config \<Rightarrow> backend \<rightharpoonup> balancer" where
  "buildBalancers b =
     [BackendCelestiaAppRPC \<mapsto> NewBalancer (CelestiaAppRPC b),
      BackendCelestiaNodeRPC \<mapsto> NewBalancer (CelestiaNodeRPC b),
      BackendCelestiaNodeArchivalRPC \<mapsto> NewBalancer (CelestiaNodeArchivalRPC b),
      BackendCelestiaAppArchivalRPC \<mapsto> NewBalancer (CelestiaAppArchivalRPC b),
      BackendCelestiaAppGRPC \<mapsto> NewBalancer (CelestiaAppGRPC b),
      BackendCelestiaAppP2P \<mapsto> NewBalancer (CelestiaAppP2P b)]"

definition NewRouter :: "backends_config \<Rightarrow> router" where
  "NewRouter b =
     \<lparr>balancers = buildBalancers b, heightTracker = Some (NewHeightTracker (PruningWindow b))\<rparr>"

definition NewRouterWithTracker :: "backends_config \<Rightarrow> height_tracker option \<Rightarrow> router" where
  "NewRouterWithTracker b ht = \<lparr>balancers = buildBalancers b, heightTracker = ht\<rparr>"

text \<open>\<open>TargetURL\<close> falls back from an archival pool without endpoints to the pruned one.\<close>

function router_TargetURL :: "draw \<Rightarrow> backend \<Rightarrow> router \<Rightarrow> string \<times> router" where
  "router_TargetURL d backend r =
     (case balancers r backend of
        Some bal \<Rightarrow>
          if 0 < balancer_Len bal then
            (let (u, bal') = balancer_Next d bal
             in (u, r\<lparr>balancers := (balancers r)(backend \<mapsto> bal')\<rparr>))
          else if backend = BackendCelestiaNodeArchivalRPC then router_TargetURL d BackendCelestiaNodeRPC r
          else if backend = BackendCelestiaAppArchivalRPC then router_TargetURL d BackendCelestiaAppRPC r
          else ([], r)
      | None \<Rightarrow>
          if backend = BackendCelestiaNodeArchivalRPC then router_TargetURL d BackendCelestiaNodeRPC r
          else if backend = BackendCelestiaAppArchivalRPC then router_TargetURL d BackendCelestiaAppRPC r
          else ([], r))"
  by pat_completeness auto
termination
  by (relation "measure (\<lambda>(d, b, r). if b = BackendCelestiaNodeArchivalRPC \<or> b = BackendCelestiaAppArchivalRPC then 1 else 0)")
    (auto simp: backend_consts)

declare router_TargetURL.simps [simp del]

definition extractNamespace :: "string \<Rightarrow> string" where
  "extractNamespace method = (case index_byte method (CHR ''.'') of None \<Rightarrow> method | Some idx \<Rightarrow> take idx method)"

definition resolveBackend :: "string \<Rightarrow> backend" where
  "resolveBackend method =
     (let ns = extractNamespace method
      in if ns \<in> set daNamespaces then BackendCelestiaNodeRPC else BackendCelestiaAppRPC)"

definition archivalBackend :: "backend \<Rightarrow> backend" where
  "archivalBackend pruned =
     (if pruned = BackendCelestiaNodeRPC then BackendCelestiaNodeArchivalRPC
      else if pruned = BackendCelestiaAppRPC then BackendCelestiaAppArchivalRPC
      else pruned)"

definition router_AllEndpoints :: "backend \<Rightarrow> router \<Rightarrow> endpoints" where
  "router_AllEndpoints backend r =
     (case balancers r backend of Some bal \<Rightarrow> balancer_All bal | None \<Rightarrow> [])"

definition HasArchivalBackend :: "backend \<Rightarrow> router \<Rightarrow> bool" where
  "HasArchivalBackend backend r =
     (let archival = archivalBackend backend
      in if archival = backend then False
         else case balancers r archival of Some bal \<Rightarrow> 0 < balancer_Len bal | None \<Rightarrow> False)"

definition router_RecordLatency :: "backend \<Rightarrow> string \<Rightarrow> int \<Rightarrow> router \<Rightarrow> router" where
  "router_RecordLatency backend endpoint d r =
     (case balancers r backend of
        Some bal \<Rightarrow> r\<lparr>balancers := (balancers r)(backend \<mapsto> balancer_RecordLatency endpoint d bal)\<rparr>
      | None \<Rightarrow> r)"

definition router_EndpointStats :: "backend \<Rightarrow> router \<Rightarrow> endpoint_stats list" where
  "router_EndpointStats backend r =
     (case balancers r backend of Some bal \<Rightarrow> balancer_Stats bal | None \<Rightarrow> [])"

text \<open>The method of a request, whether it is a batch, and the error if any.\<close>

definition parseJSONRPCMethod :: "string \<Rightarrow> string \<times> bool \<times> string option" where
  "parseJSONRPCMethod body =
     (if body = [] then ([], False, Some ''empty request body'')
      else let trimmed = trim_space body
           in if trimmed = [] then ([], False, Some ''empty request body'')
              else if hd trimmed = CHR ''['' then
                (case unmarshal_str_structs ''method'' body of
                   None \<Rightarrow> ([], True, Some ''invalid JSON-RPC batch'')
                 | Some [] \<Rightarrow> ([], True, Some ''empty JSON-RPC batch'')
                 | Some (m # ms) \<Rightarrow>
                     if m = [] then ([], True, Some ''missing method in first batch entry'')
                     else (m, True, None))
              else
                (case unmarshal_str_struct ''method'' body of
                   None \<Rightarrow> ([], False, Some ''invalid JSON-RPC request'')
                 | Some m \<Rightarrow>
                     if m = [] then ([], False, Some ''missing method field in JSON-RPC request'')
                     else (m, False, None)))"

definition route_backend :: "router \<Rightarrow> string \<Rightarrow> string \<Rightarrow> backend" where
  "route_backend r method body =
     (let backend = resolveBackend method
      in case heightTracker r of
           None \<Rightarrow> backend
         | Some ht \<Rightarrow>
             if Enabled ht then
               (let height = ExtractHeight method body
                in if IsArchival ht height then archivalBackend backend else backend)
             else backend)"

definition router_Route :: "draw \<Rightarrow> string \<Rightarrow> router \<Rightarrow> route_decision result \<times> router" where
  "router_Route d body r =
     (if body = [] then
        (let (u, r') = router_TargetURL d BackendCelestiaAppRPC r
         in (Inr \<lparr>rd_Backend = BackendCelestiaAppRPC, rd_TargetURL = u, rd_Method = []\<rparr>, r'))
      else case parseJSONRPCMethod body of (method, _, err) \<Rightarrow>
        (case err of
           Some e \<Rightarrow> (Inl (''parsing JSON-RPC request: '' @ e), r)
         | None \<Rightarrow>
             (let backend = route_backend r method body;
                  (u, r') = router_TargetURL d backend r
              in (Inr \<lparr>rd_Backend = backend, rd_TargetURL = u, rd_Method = method\<rparr>, r'))))"

subsection \<open>Pools\<close>

definition router_wf :: "router \<Rightarrow> bool" where
  "router_wf r \<longleftrightarrow> (\<forall>b bal. balancers r b = Some bal \<longrightarrow> balancer_wf bal)"

text \<open>The pool a backend is served from: its own, or the pruned one for an archival backend
  without endpoints.\<close>

definition serving :: "backend \<Rightarrow> router \<Rightarrow> backend" where
  "serving b r =
     (if router_AllEndpoints b r \<noteq> [] then b
      else if b = BackendCelestiaNodeArchivalRPC then BackendCelestiaNodeRPC
      else if b = BackendCelestiaAppArchivalRPC then BackendCelestiaAppRPC
      else b)"

lemma AllEndpoints_pool:
  "router_AllEndpoints b r \<noteq> [] \<longleftrightarrow> (\<exists>bal. balancers r b = Some bal \<and> 0 < balancer_Len bal)"
  by (auto simp: router_AllEndpoints_def balancer_All_def balancer_Len_def split: option.splits)

lemma backend_distinct [simp]:
  "BackendCelestiaNodeRPC \<noteq> BackendCelestiaNodeArchivalRPC" "BackendCelestiaNodeRPC \<noteq> BackendCelestiaAppArchivalRPC"
  "BackendCelestiaAppRPC \<noteq> BackendCelestiaNodeArchivalRPC" "BackendCelestiaAppRPC \<noteq> BackendCelestiaAppArchivalRPC"
  "BackendCelestiaAppRPC \<noteq> BackendCelestiaNodeRPC" "BackendCelestiaNodeArchivalRPC \<noteq> BackendCelestiaAppArchivalRPC"
  "BackendCelestiaNodeRPC \<noteq> BackendCelestiaAppRPC" "BackendCelestiaAppArchivalRPC \<noteq> BackendCelestiaNodeArchivalRPC"
  "BackendCelestiaNodeArchivalRPC \<noteq> BackendCelestiaNodeRPC" "BackendCelestiaAppArchivalRPC \<noteq> BackendCelestiaAppRPC"
  by (simp_all add: backend_consts)

text \<open>One step of \<open>TargetURL\<close> on the serving pool.\<close>

definition pool_next :: "draw \<Rightarrow> backend \<Rightarrow> router \<Rightarrow> string \<times> router" where
  "pool_next d b r =
     (case balancers r b of
        None \<Rightarrow> ([], r)
      | Some bal \<Rightarrow>
          if balancer_Len bal = 0 then ([], r)
          else (fst (balancer_Next d bal),
                r\<lparr>balancers := (balancers r)(b \<mapsto> snd (balancer_Next d bal))\<rparr>))"

lemma TargetURL_serving: "router_TargetURL d b r = pool_next d (serving b r) r"
proof -
  have plain: "router_TargetURL d b r = pool_next d b r"
    if "b \<noteq> BackendCelestiaNodeArchivalRPC" "b \<noteq> BackendCelestiaAppArchivalRPC" for b
    using that by (simp add: router_TargetURL.simps [of d b] pool_next_def split_beta Let_def split: option.split)
  show ?thesis
  proof (cases "router_AllEndpoints b r = []")
    case True
    then have "router_TargetURL d b r =
        (if b = BackendCelestiaNodeArchivalRPC then router_TargetURL d BackendCelestiaNodeRPC r
         else if b = BackendCelestiaAppArchivalRPC then router_TargetURL d BackendCelestiaAppRPC r
         else ([], r))"
      using AllEndpoints_pool [of b r] by (auto simp: router_TargetURL.simps [of d b] split: option.split)
    moreover have "pool_next d b r = ([], r)"
      using AllEndpoints_pool [of b r] True by (auto simp: pool_next_def split: option.split)
    ultimately show ?thesis using True by (simp add: serving_def plain)
  next
    case False
    then show ?thesis using AllEndpoints_pool [of b r]
      by (auto simp: router_TargetURL.simps [of d b] serving_def pool_next_def split_beta Let_def)
  qed
qed

lemma pool_next_frame [simp]:
  "heightTracker (snd (pool_next d b r)) = heightTracker r"
  "router_AllEndpoints b' (snd (pool_next d b r)) = router_AllEndpoints b' r"
  "router_wf r \<Longrightarrow> router_wf (snd (pool_next d b r))"
  by (auto simp: pool_next_def router_AllEndpoints_def balancer_All_def router_wf_def split: option.splits)

lemma pool_next_member:
  "router_wf r \<Longrightarrow> good_draw d \<Longrightarrow> router_AllEndpoints b r \<noteq> [] \<Longrightarrow>
     fst (pool_next d b r) \<in> set (router_AllEndpoints b r)"
  unfolding AllEndpoints_pool
  by (auto simp: pool_next_def router_AllEndpoints_def balancer_All_def balancer_Len_def router_wf_def
      intro!: balancer_Next_in)

lemma RecordLatency_router_frame [simp]:
  "heightTracker (router_RecordLatency b ep t r) = heightTracker r"
  "router_AllEndpoints b' (router_RecordLatency b ep t r) = router_AllEndpoints b' r"
  "router_wf r \<Longrightarrow> router_wf (router_RecordLatency b ep t r)"
  by (auto simp: router_RecordLatency_def router_AllEndpoints_def balancer_All_def router_wf_def split: option.splits)

text \<open>
  What the forwarding code needs of a router: choices and recorded latencies leave the pools'
  endpoints alone, and a choice is an endpoint of the serving pool. The handler, the WebSocket
  proxy and the raw TCP and gRPC proxies use a router through this interface only.
\<close>

locale endpoint_router =
  fixes ok :: "'s \<Rightarrow> bool"
    and target :: "draw \<Rightarrow> backend \<Rightarrow> 's \<Rightarrow> string \<times> 's"
    and endpoints_of :: "backend \<Rightarrow> 's \<Rightarrow> string list"
    and record_latency :: "backend \<Rightarrow> string \<Rightarrow> int \<Rightarrow> 's \<Rightarrow> 's"
    and served_by :: "backend \<Rightarrow> 's \<Rightarrow> backend"
  assumes target_ok: "ok s \<Longrightarrow> ok (snd (target d b s))"
    and target_endpoints: "endpoints_of b' (snd (target d b s)) = endpoints_of b' s"
    and target_member: "ok s \<Longrightarrow> good_draw d \<Longrightarrow> endpoints_of (served_by b s) s \<noteq> [] \<Longrightarrow>
          fst (target d b s) \<in> set (endpoints_of (served_by b s) s)"
    and record_ok: "ok s \<Longrightarrow> ok (record_latency b ep t s)"
    and record_endpoints: "endpoints_of b' (record_latency b ep t s) = endpoints_of b' s"
    and served_cong: "(\<And>b. endpoints_of b s = endpoints_of b s') \<Longrightarrow> served_by b s = served_by b s'"
begin

definition use :: "(draw \<times> backend) + (backend \<times> string \<times> int) \<Rightarrow> 's \<Rightarrow> 's" where
  "use op s = (case op of Inl (d, b) \<Rightarrow> snd (target d b s) | Inr (b, ep, t) \<Rightarrow> record_latency b ep t s)"

lemma use_frame: "ok s \<Longrightarrow> ok (use op s)" "endpoints_of b (use op s) = endpoints_of b s"
  by (auto simp: use_def target_ok record_ok target_endpoints record_endpoints split: sum.splits)

lemma uses_frame: "ok s \<Longrightarrow> ok (fold use ops s)" "endpoints_of b (fold use ops s) = endpoints_of b s"
  by (induction ops arbitrary: s) (simp_all add: use_frame)

lemma target_stays_in_pool:
  assumes "ok s" "good_draw d" "endpoints_of (served_by b s) s \<noteq> []"
  shows "fst (target d b (fold use ops s)) \<in> set (endpoints_of (served_by b s) s)"
  using target_member [OF uses_frame(1) [OF assms(1)] assms(2), of b ops] assms(3)
    served_cong [of "fold use ops s" s b] by (simp add: uses_frame(2))

end

interpretation rt: endpoint_router router_wf router_TargetURL router_AllEndpoints router_RecordLatency serving
  by unfold_locales (auto simp: TargetURL_serving pool_next_member serving_def)

subsection \<open>Methods in documents\<close>

text \<open>A request object whose \<open>method\<close> members, however spelled, are strings; the last one counts.\<close>

fun request_doc :: "jval \<Rightarrow> bool" where
  "request_doc (VObj ms) = list_all (\<lambda>(k, v). fold_name k = ''method'' \<longrightarrow> (case v of VStr s \<Rightarrow> True | _ \<Rightarrow> False)) ms"
| "request_doc _ = False"

fun last_method :: "string \<Rightarrow> (string \<times> jval) list \<Rightarrow> string" where
  "last_method acc [] = acc"
| "last_method acc ((k, v) # ms) =
     (if fold_name k = ''method'' then (case v of VStr s \<Rightarrow> last_method s ms | _ \<Rightarrow> last_method acc ms)
      else last_method acc ms)"

fun doc_method :: "jval \<Rightarrow> string" where
  "doc_method (VObj ms) = last_method [] ms"
| "doc_method _ = []"

lemma decode_method:
  "request_doc v \<Longrightarrow> decode_str_struct ''method'' (annot v) = (doc_method v, False)"
proof (cases v)
  case (VObj ms)
  have "list_all (\<lambda>(k, v). fold_name k = ''method'' \<longrightarrow> (case v of VStr s \<Rightarrow> True | _ \<Rightarrow> False)) ms \<Longrightarrow>
      foldl (set_str_field ''method'') (acc, False) (map (\<lambda>(k, v). (k, render v, annot v)) ms) = (last_method acc ms, False)" for acc
    by (induction ms arbitrary: acc) (auto simp: set_str_field_def split: jval.splits)
  moreover assume "request_doc v"
  ultimately show ?thesis using VObj by (simp add: decode_str_struct_def)
qed auto

lemma render_obj_hd: "request_doc v \<Longrightarrow> hd (render v) = CHR 0x7B"
  by (cases v) simp_all

lemma parse_method_single:
  assumes "plain_val 0 v" "request_doc v" "doc_method v \<noteq> []"
  shows "parseJSONRPCMethod (render v) = (doc_method v, False, None)"
proof -
  have "unmarshal_str_struct ''method'' (render v) = Some (doc_method v)"
    using json_parse_render [OF assms(1)] decode_method [OF assms(2)]
    by (simp add: unmarshal_str_struct_def checked_def)
  then show ?thesis using render_ends [of v] render_obj_hd [OF assms(2)] assms(3)
    by (simp add: parseJSONRPCMethod_def Let_def)
qed

lemma parse_method_batch:
  assumes "plain_val 0 (VArr (v # vs))" "list_all request_doc (v # vs)" "doc_method v \<noteq> []"
  shows "parseJSONRPCMethod (render (VArr (v # vs))) = (doc_method v, True, None)"
proof -
  have "unmarshal_str_structs ''method'' (render (VArr (v # vs))) = Some (map doc_method (v # vs))"
    using json_parse_render [OF assms(1)] assms(2) decode_method
    by (auto simp: unmarshal_str_structs_def Let_def list_all_iff list_ex_iff simp del: render.simps)
  then show ?thesis using trim_space_render [of "VArr (v # vs)"] assms(3)
    by (simp add: parseJSONRPCMethod_def Let_def)
qed

lemma extractNamespace_in:
  assumes "CHR ''.'' \<notin> set ns"
  shows "extractNamespace m = ns \<longleftrightarrow> (m = ns \<or> prefix (ns @ ''.'') m)"
proof (cases "index_byte m (CHR ''.'')")
  case None
  then have "CHR ''.'' \<notin> set m" by (simp add: index_byte_None)
  then show ?thesis using None by (auto simp: extractNamespace_def prefix_def)
next
  case (Some i)
  have "m = take i m @ CHR ''.'' # drop (Suc i) m" by (rule index_byte_split [OF Some])
  moreover have "CHR ''.'' \<notin> set (take i m)" "length (take i m) = i"
    using index_byte_Some [OF Some] by simp_all
  ultimately obtain a t where m: "m = a @ CHR ''.'' # t" "CHR ''.'' \<notin> set a" "length a = i"
    by blast
  then have "extractNamespace m = a" using Some by (simp add: extractNamespace_def)
  moreover have "m \<noteq> ns" using m assms by auto
  moreover have "ns = a" if "prefix (ns @ ''.'') m"
  proof -
    from that obtain z where z: "m = ns @ CHR ''.'' # z" by (auto simp: prefix_def)
    with assms have "index_byte m (CHR ''.'') = Some (length ns)" by (simp add: index_byte_append)
    with Some m z show ?thesis by simp
  qed
  moreover have "prefix (a @ ''.'') m" using m by simp
  ultimately show ?thesis by blast
qed

lemma resolveBackend_node:
  "resolveBackend m = BackendCelestiaNodeRPC \<longleftrightarrow> (\<exists>ns \<in> set daNamespaces. m = ns \<or> prefix (ns @ ''.'') m)"
proof -
  have "CHR ''.'' \<notin> set ns" if "ns \<in> set daNamespaces" for ns
    using that by (auto simp: daNamespaces_def)
  then have "extractNamespace m \<in> set daNamespaces \<longleftrightarrow> (\<exists>ns \<in> set daNamespaces. m = ns \<or> prefix (ns @ ''.'') m)"
    using extractNamespace_in by metis
  then show ?thesis by (simp add: resolveBackend_def Let_def)
qed

definition archival_request :: "router \<Rightarrow> string \<Rightarrow> string \<Rightarrow> bool" where
  "archival_request r method body =
     (case heightTracker r of None \<Rightarrow> False | Some ht \<Rightarrow> IsArchival ht (ExtractHeight method body))"

lemma route_backend_eq:
  "route_backend r m body = (if archival_request r m body then archivalBackend (resolveBackend m) else resolveBackend m)"
  using IsArchival_needs by (auto simp: route_backend_def archival_request_def Let_def split: option.splits)

text \<open>C9: A compact request document whose method is a string goes to the DA node when its
  method is one of the seven namespaces or starts with one and a dot, else to the app's RPC; to
  the archival twin of that backend when its height lies below the pruning window; and the
  decision carries the method the document names last.\<close>

theorem route_request:
  assumes "plain_val 0 v" "request_doc v" "doc_method v \<noteq> []"
  shows "fst (router_Route d (render v) r) = Inr
     (let base = (if \<exists>ns \<in> set daNamespaces. doc_method v = ns \<or> prefix (ns @ ''.'') (doc_method v)
                  then BackendCelestiaNodeRPC else BackendCelestiaAppRPC);
          backend = (if archival_request r (doc_method v) (render v) then archivalBackend base else base)
      in \<lparr>rd_Backend = backend, rd_TargetURL = fst (router_TargetURL d backend r), rd_Method = doc_method v\<rparr>)"
proof -
  have "(if \<exists>ns \<in> set daNamespaces. doc_method v = ns \<or> prefix (ns @ ''.'') (doc_method v)
      then BackendCelestiaNodeRPC else BackendCelestiaAppRPC) = resolveBackend (doc_method v)"
    by (simp only: resolveBackend_node [symmetric]) (simp add: resolveBackend_def Let_def)
  moreover have "render v \<noteq> []" using render_ends by blast
  ultimately show ?thesis
    by (simp add: router_Route_def parse_method_single [OF assms] route_backend_eq Let_def split_beta)
qed

definition sample_backends :: backends_config where
  "sample_backends =
     \<lparr>CelestiaAppRPC = [''http://app''], CelestiaNodeRPC = [''http://node''],
      CelestiaNodeArchivalRPC = [''http://arch''], CelestiaAppArchivalRPC = [],
      CelestiaAppGRPC = [], CelestiaAppP2P = [], PruningWindow = 100, HealthCheckInterval = 30000000000\<rparr>"

definition sample_request :: jval where
  "sample_request = VObj [(''method'', VStr ''blob.Get''), (''params'', VArr [VInt 7])]"

lemma fold_name_method [simp]: "fold_name ''method'' = ''method''" "fold_name ''params'' \<noteq> ''method''"
  by code_simp+

lemma sample_request_props:
  "plain_val 0 sample_request" "request_doc sample_request" "doc_method sample_request = ''blob.Get''"
  by (simp_all add: sample_request_def max_nesting_def plain_simps)

theorem route_request_witness:
  "map_sum id rd_Backend (fst (router_Route steady (render sample_request) (NewRouter sample_backends)))
     = Inr BackendCelestiaNodeRPC"
proof -
  have "\<not> archival_request (NewRouter sample_backends) m b" for m b
    by (simp add: archival_request_def NewRouter_def IsArchival_def NewHeightTracker_def Let_def)
  then show ?thesis
    using route_request [of sample_request steady "NewRouter sample_backends"]
    by (simp add: sample_request_props daNamespaces_def)
qed

lemma ExtractHeight_batch:
  assumes "plain_val 0 (VArr vs)"
  shows "ExtractHeight m (render (VArr vs)) = 0"
  using json_parse_render [OF assms]
  by (simp add: ExtractHeight_def unmarshal_raw_struct_def decode_raw_struct_def checked_def
      del: render.simps split: option.split)

text \<open>A batch is routed by its first request alone, to the pruned backend: no other request
  of the batch and no height in it has any influence, even when every request asks for a height
  that only the archival node keeps.\<close>

theorem route_batch:
  assumes "plain_val 0 (VArr (v # vs))" "list_all request_doc (v # vs)" "doc_method v \<noteq> []"
  shows "fst (router_Route d (render (VArr (v # vs))) r) = Inr
     \<lparr>rd_Backend = resolveBackend (doc_method v),
      rd_TargetURL = fst (router_TargetURL d (resolveBackend (doc_method v)) r), rd_Method = doc_method v\<rparr>"
proof -
  have "\<not> archival_request r m (render (VArr (v # vs)))" for m
    by (simp add: archival_request_def ExtractHeight_batch [OF assms(1)] del: render.simps split: option.split)
  moreover have "render (VArr (v # vs)) \<noteq> []" by simp
  ultimately show ?thesis
    by (simp add: router_Route_def parse_method_batch [OF assms] route_backend_eq Let_def split_beta
        del: render.simps)
qed

theorem route_batch_witness:
  "map_sum id rd_Backend (fst (router_Route steady (render (VArr [sample_request, VObj [(''method'', VStr ''status'')]]))
     (NewRouterWithTracker sample_backends (Some (SetHead 5000 (NewHeightTracker 100))))))
     = Inr BackendCelestiaNodeRPC"
proof -
  have "plain_val 0 (VArr [sample_request, VObj [(''method'', VStr ''status'')]])"
    by (simp add: sample_request_def max_nesting_def plain_simps)
  moreover have "resolveBackend ''blob.Get'' = BackendCelestiaNodeRPC"
    by (simp add: resolveBackend_def extractNamespace_def daNamespaces_def Let_def)
  ultimately show ?thesis
    using route_batch [of sample_request "[VObj [(''method'', VStr ''status'')]]" steady
        "NewRouterWithTracker sample_backends (Some (SetHead 5000 (NewHeightTracker 100)))"]
    by (simp add: sample_request_props del: render.simps)
qed

subsection \<open>Runs of a router\<close>

datatype router_op =
    RtRoute draw string
  | RtTarget draw backend
  | RtRecord backend string int
  | RtHead int

definition router_SetHead :: "int \<Rightarrow> router \<Rightarrow> router" where
  "router_SetHead h r = r\<lparr>heightTracker := map_option (SetHead h) (heightTracker r)\<rparr>"

fun router_step :: "router_op \<Rightarrow> router \<Rightarrow> router" where
  "router_step (RtRoute d body) r = snd (router_Route d body r)"
| "router_step (RtTarget d b) r = snd (router_TargetURL d b r)"
| "router_step (RtRecord b ep t) r = router_RecordLatency b ep t r"
| "router_step (RtHead h) r = router_SetHead h r"

lemma router_Route_frame:
  "router_AllEndpoints b (snd (router_Route d body r)) = router_AllEndpoints b r"
  "router_wf r \<Longrightarrow> router_wf (snd (router_Route d body r))"
  by (simp_all add: router_Route_def TargetURL_serving split_beta Let_def split: option.split)

lemma router_step_frame:
  "router_AllEndpoints b (router_step op r) = router_AllEndpoints b r"
  "router_wf r \<Longrightarrow> router_wf (router_step op r)"
proof -
  show "router_AllEndpoints b (router_step op r) = router_AllEndpoints b r"
    by (cases op) (simp_all add: router_Route_frame TargetURL_serving router_SetHead_def router_AllEndpoints_def [of b "r\<lparr>heightTracker := h\<rparr>" for h] router_AllEndpoints_def [of b r])
  show "router_wf r \<Longrightarrow> router_wf (router_step op r)"
    by (cases op) (simp_all add: router_Route_frame TargetURL_serving router_SetHead_def router_wf_def [of "r\<lparr>heightTracker := h\<rparr>" for h] router_wf_def [of r])
qed

lemma router_run_frame:
  "router_AllEndpoints b (fold router_step ops r) = router_AllEndpoints b r"
  "router_wf r \<Longrightarrow> router_wf (fold router_step ops r)"
  by (induction ops arbitrary: r) (simp_all add: router_step_frame)

lemma NewRouter_wf: "router_wf (NewRouter cfg)"
  by (auto simp: router_wf_def NewRouter_def buildBalancers_def NewBalancer_wf split: if_splits)

text \<open>The endpoints the configuration gives a routed backend.\<close>

definition serving_endpoints :: "backends_config \<Rightarrow> backend \<Rightarrow> endpoints" where
  "serving_endpoints cfg b =
     (if b = BackendCelestiaAppRPC then CelestiaAppRPC cfg
      else if b = BackendCelestiaNodeRPC then CelestiaNodeRPC cfg
      else if b = BackendCelestiaAppArchivalRPC then
        (if CelestiaAppArchivalRPC cfg \<noteq> [] then CelestiaAppArchivalRPC cfg else CelestiaAppRPC cfg)
      else (if CelestiaNodeArchivalRPC cfg \<noteq> [] then CelestiaNodeArchivalRPC cfg else CelestiaNodeRPC cfg))"

lemma NewRouter_endpoints [simp]:
  "router_AllEndpoints BackendCelestiaAppRPC (NewRouter cfg) = CelestiaAppRPC cfg"
  "router_AllEndpoints BackendCelestiaNodeRPC (NewRouter cfg) = CelestiaNodeRPC cfg"
  "router_AllEndpoints BackendCelestiaNodeArchivalRPC (NewRouter cfg) = CelestiaNodeArchivalRPC cfg"
  "router_AllEndpoints BackendCelestiaAppArchivalRPC (NewRouter cfg) = CelestiaAppArchivalRPC cfg"
  by (simp_all add: NewRouter_def router_AllEndpoints_def buildBalancers_def backend_consts NewBalancer_def balancer_All_def)

lemma Route_backends:
  assumes "router_Route d body r = (Inr rd, r')"
  shows "rd_Backend rd \<in> {BackendCelestiaAppRPC, BackendCelestiaNodeRPC,
      BackendCelestiaAppArchivalRPC, BackendCelestiaNodeArchivalRPC}
    \<and> rd_TargetURL rd = fst (router_TargetURL d (rd_Backend rd) r)"
  using assms
  by (auto simp: router_Route_def split_beta Let_def route_backend_eq resolveBackend_def archivalBackend_def
      split: if_splits option.splits)

text \<open>In a router built from a configuration with both pruned pools, after any sequence of
  requests, choices, recorded latencies and new heads, a routed request targets one of the
  configured endpoints of its backend; an archival backend without endpoints uses its pruned twin.\<close>

theorem route_target_configured:
  assumes "CelestiaAppRPC cfg \<noteq> []" "CelestiaNodeRPC cfg \<noteq> []" "good_draw d"
    "router_Route d body (fold router_step ops (NewRouter cfg)) = (Inr rd, r')"
  shows "rd_TargetURL rd \<in> set (serving_endpoints cfg (rd_Backend rd))"
proof -
  let ?r = "fold router_step ops (NewRouter cfg)"
  note b = Route_backends [OF assms(4)]
  have ep: "router_AllEndpoints (serving (rd_Backend rd) ?r) ?r = serving_endpoints cfg (rd_Backend rd)"
    using b by (auto simp: serving_def router_run_frame serving_endpoints_def)
  have "serving_endpoints cfg (rd_Backend rd) \<noteq> []" using assms(1,2) by (simp add: serving_endpoints_def)
  with ep b show ?thesis
    using rt.target_member [OF router_run_frame(2) [OF NewRouter_wf] assms(3), of "rd_Backend rd" ops cfg] by simp
qed

theorem route_target_configured_witness:
  "rd_TargetURL (projr (fst (router_Route steady [] (router_step (RtHead 9) (NewRouter sample_backends)))))
     \<in> {''http://app''}"
proof -
  obtain rd r' where rd: "router_Route steady [] (fold router_step [RtHead 9] (NewRouter sample_backends)) = (Inr rd, r')"
      "rd_Backend rd = BackendCelestiaAppRPC"
    by (simp add: router_Route_def split_beta)
  with route_target_configured [OF _ _ steady_draw(1) rd(1)] show ?thesis
    by (simp add: sample_backends_def serving_endpoints_def)
qed

text \<open>The handler's test whether an archival retry is worth while is exact: it holds only for
  the two RPC backends, and then the archival target is an endpoint of the archival pool itself,
  never the fallback.\<close>

theorem has_archival_exact:
  assumes "router_wf r" "good_draw d" "HasArchivalBackend b r"
  shows "b \<in> {BackendCelestiaAppRPC, BackendCelestiaNodeRPC} \<and> archivalBackend b \<noteq> b
     \<and> fst (router_TargetURL d (archivalBackend b) r) \<in> set (router_AllEndpoints (archivalBackend b) r)"
proof -
  have ne: "archivalBackend b \<noteq> b" and ep: "router_AllEndpoints (archivalBackend b) r \<noteq> []"
    using assms(3) AllEndpoints_pool by (auto simp: HasArchivalBackend_def Let_def split: if_splits option.splits)
  have "serving (archivalBackend b) r = archivalBackend b" using ep by (simp add: serving_def)
  with rt.target_member [OF assms(1,2), of "archivalBackend b"] ep
  have "fst (router_TargetURL d (archivalBackend b) r) \<in> set (router_AllEndpoints (archivalBackend b) r)" by simp
  with ne show ?thesis by (auto simp: archivalBackend_def split: if_splits)
qed

theorem has_archival_exact_witness:
  "fst (router_TargetURL steady (archivalBackend BackendCelestiaNodeRPC) (NewRouter sample_backends)) \<in> {''http://arch''}"
proof -
  have "HasArchivalBackend BackendCelestiaNodeRPC (NewRouter sample_backends)"
    by (simp add: HasArchivalBackend_def archivalBackend_def NewRouter_def buildBalancers_def backend_consts
        sample_backends_def NewBalancer_def balancer_Len_def)
  from has_archival_exact [OF NewRouter_wf steady_draw(1) this] show ?thesis
    by (simp add: archivalBackend_def sample_backends_def)
qed

end
