(* ===== verification/Cache.thy ===== *)
theory Cache
  imports TokenStore Float64
begin

text \<open>
  \<open>internal/cache\<close>: which responses may be cached, the key of an entry, and the three caches (Redis,
  no-op, instrumented) behind one interface. \<open>H\<close> is SHA-256; Redis is a map from keys to values with
  their expiry, read at \<open>ce_now\<close>, and a command fails when \<open>ce_ok\<close> is false.
\<close>

record cache_env =
  ce_now :: int
  ce_ok :: bool

record redis_cache =
  rc_data :: "string \<rightharpoonup> string \<times> int"
  rc_ttl :: int
  rc_maxEntrySize :: int

definition NewRedisCache :: "int \<Rightarrow> int \<Rightarrow> redis_cache" where
  "NewRedisCache cfg_ttl cfg_max =
     (let ttl = (if cfg_ttl = 0 then 720 * 3600 * 1000000000 else cfg_ttl);
          maxEntrySize = (if cfg_max = 0 then 5 * 1024 * 1024 else cfg_max)
      in \<lparr>rc_data = Map.empty, rc_ttl = ttl, rc_maxEntrySize = maxEntrySize\<rparr>)"

definition Key :: "(string \<Rightarrow> string) \<Rightarrow> string \<Rightarrow> int \<Rightarrow> string \<Rightarrow> string" where
  "Key H method height params =
     method @ '':'' @ show_int height @ '':'' @ hex_encode (take 16 (H params))"

definition redis_Get ::
  "(string \<Rightarrow> string) \<Rightarrow> cache_env \<Rightarrow> string \<Rightarrow> int \<Rightarrow> string \<Rightarrow> redis_cache \<Rightarrow> string option \<times> redis_cache" where
  "redis_Get H e method height params c =
     (let key = Key H method height params
      in if \<not> ce_ok e then (None, c)
         else case rc_data c key of
           None \<Rightarrow> (None, c)
         | Some (v, expires) \<Rightarrow> if expires \<le> ce_now e then (None, c) else (Some v, c))"

definition redis_Set ::
  "(string \<Rightarrow> string) \<Rightarrow> cache_env \<Rightarrow> string \<Rightarrow> int \<Rightarrow> string \<Rightarrow> string \<Rightarrow> redis_cache \<Rightarrow> redis_cache" where
  "redis_Set H e method height params response c =
     (if rc_maxEntrySize c < int (length response) then c
      else let key = Key H method height params
           in if ce_ok e then c\<lparr>rc_data := (rc_data c)(key \<mapsto> (response, ce_now e + rc_ttl c))\<rparr> else c)"

definition cacheableMethods :: "string list" where
  "cacheableMethods =
     [''header.GetByHeight'', ''blob.Get'', ''blob.GetAll'', ''blob.GetProof'', ''share.GetEDS'',
      ''share.GetSharesByNamespace'', ''share.GetNamespaceData'', ''block'', ''block_results'',
      ''validators'', ''commit'', ''header'']"

definition nonCacheableMethods :: "string list" where
  "nonCacheableMethods =
     [''header.NetworkHead'', ''header.SyncState'', ''state.Balance'', ''status'', ''health'', ''net_info'',
      ''node.Info'', ''broadcast_tx_sync'', ''broadcast_tx_async'', ''broadcast_tx_commit'', ''blob.Submit'',
      ''state.SubmitTx'', ''state.Transfer'', ''state.SubmitPayForBlob'', ''state.CancelUnbondingDelegation'',
      ''state.BeginRedelegate'', ''state.Undelegate'', ''state.Delegate'']"

definition IsCacheable :: "string \<Rightarrow> int \<Rightarrow> bool" where
  "IsCacheable method height =
     (if height \<le> 0 then False
      else if method \<in> set nonCacheableMethods then False
      else method \<in> set cacheableMethods)"

text \<open>The no-op cache.\<close>

definition noop_Get :: "cache_env \<Rightarrow> string \<Rightarrow> int \<Rightarrow> string \<Rightarrow> unit \<Rightarrow> string option \<times> unit" where
  "noop_Get e method height params c = (None, c)"

definition noop_Set :: "cache_env \<Rightarrow> string \<Rightarrow> int \<Rightarrow> string \<Rightarrow> string \<Rightarrow> unit \<Rightarrow> unit" where
  "noop_Set e method height params response c = c"

text \<open>The instrumented cache: an inner cache and its counters.\<close>

record cache_metrics =
  cm_Hits :: nat
  cm_Misses :: nat
  cm_Sets :: nat
  cm_Skipped :: nat
  cm_HitRatio :: f64
  cm_totalRequests :: f64
  cm_totalHits :: f64

definition new_cache_metrics :: cache_metrics where
  "new_cache_metrics = \<lparr>cm_Hits = 0, cm_Misses = 0, cm_Sets = 0, cm_Skipped = 0, cm_HitRatio = 0,
     cm_totalRequests = 0, cm_totalHits = 0\<rparr>"

definition count_get :: "bool \<Rightarrow> cache_metrics \<Rightarrow> cache_metrics" where
  "count_get hit m =
     (let m = (if hit then m\<lparr>cm_Hits := cm_Hits m + 1, cm_totalHits := f64_add (cm_totalHits m) 1\<rparr>
               else m\<lparr>cm_Misses := cm_Misses m + 1\<rparr>);
          m = m\<lparr>cm_totalRequests := f64_add (cm_totalRequests m) 1\<rparr>
      in if 0 < cm_totalRequests m
         then m\<lparr>cm_HitRatio := f64_div (cm_totalHits m) (cm_totalRequests m)\<rparr> else m)"

definition instrumented_Get ::
  "('e \<Rightarrow> string \<Rightarrow> int \<Rightarrow> string \<Rightarrow> 's \<Rightarrow> string option \<times> 's) \<Rightarrow>
   'e \<Rightarrow> string \<Rightarrow> int \<Rightarrow> string \<Rightarrow> 's \<times> cache_metrics \<Rightarrow> string option \<times> 's \<times> cache_metrics" where
  "instrumented_Get get e method height params cm =
     (case cm of (c, m) \<Rightarrow>
        (case get e method height params c of (data, c') \<Rightarrow> (data, c', count_get (data \<noteq> None) m)))"

definition instrumented_Set ::
  "('e \<Rightarrow> string \<Rightarrow> int \<Rightarrow> string \<Rightarrow> string \<Rightarrow> 's \<Rightarrow> 's) \<Rightarrow>
   'e \<Rightarrow> string \<Rightarrow> int \<Rightarrow> string \<Rightarrow> string \<Rightarrow> 's \<times> cache_metrics \<Rightarrow> 's \<times> cache_metrics" where
  "instrumented_Set put e method height params response cm =
     (case cm of (c, m) \<Rightarrow> (put e method height params response c, m\<lparr>cm_Sets := cm_Sets m + 1\<rparr>))"

subsection \<open>Keys\<close>

lemma hex_digit_inj: "m < 16 \<Longrightarrow> n < 16 \<Longrightarrow> hex_digit m = hex_digit n \<Longrightarrow> m = n"
proof -
  have d: "distinct ''0123456789abcdef''" by simp
  assume "m < 16" "n < 16" "hex_digit m = hex_digit n"
  then show "m = n" using nth_eq_iff_index_eq [OF d, of m n] by (simp add: hex_digit_def)
qed

lemma hex_digit_no_colon: "n < 16 \<Longrightarrow> hex_digit n \<noteq> CHR '':''"
proof -
  assume "n < 16"
  then have "hex_digit n \<in> set ''0123456789abcdef''" unfolding hex_digit_def by (intro nth_mem) simp
  then show ?thesis by auto
qed

lemma hex_encode_Cons: "hex_encode (c # cs) = hex_digit (of_char c div 16) # hex_digit (of_char c mod 16) # hex_encode cs"
  by (simp add: hex_encode_def)

lemma byte_div16: "(of_char c :: nat) div 16 < 16"
  using nat_of_char_less_256 [of c] by (simp only: div_less_iff_less_mult)

lemma hex_encode_inj: "hex_encode a = hex_encode b \<Longrightarrow> a = b"
proof (induction a arbitrary: b)
  case Nil
  then show ?case by (cases b) (simp_all add: hex_encode_def)
next
  case (Cons c cs)
  then obtain d ds where b: "b = d # ds" by (cases b) (simp_all add: hex_encode_def)
  with Cons.prems have e: "hex_digit (of_char c div 16) = hex_digit (of_char d div 16)"
      "hex_digit (of_char c mod 16) = hex_digit (of_char d mod 16)" "hex_encode cs = hex_encode ds"
    by (simp_all add: hex_encode_Cons)
  have "(of_char c :: nat) div 16 = of_char d div 16" using e(1) by (intro hex_digit_inj byte_div16)
  moreover have "(of_char c :: nat) mod 16 = of_char d mod 16" using e(2) by (intro hex_digit_inj) simp_all
  ultimately have "(of_char c :: nat) = of_char d" by (metis div_mult_mod_eq)
  then have "c = d" by simp
  with b Cons.IH [OF e(3)] show ?case by simp
qed

lemma hex_encode_no_colon: "CHR '':'' \<notin> set (hex_encode a)"
proof (induction a)
  case (Cons c cs)
  then show ?case using hex_digit_no_colon [OF byte_div16 [of c]] hex_digit_no_colon [of "of_char c mod 16"]
    by (auto simp: hex_encode_Cons)
qed (simp add: hex_encode_def)

lemma show_int_no_colon: "CHR '':'' \<notin> set (show_int i)"
proof -
  have "\<not> is_digit (CHR '':'')" by (simp add: is_digit_def)
  then have "CHR '':'' \<notin> set (show_nat n)" for n using show_nat_digits [of n] by (auto simp: list_all_iff)
  then show ?thesis by (simp add: show_int_def)
qed

lemma last_colon:
  assumes "CHR '':'' \<notin> set x" "CHR '':'' \<notin> set y" "a @ CHR '':'' # x = b @ CHR '':'' # y"
  shows "a = b \<and> x = y"
proof -
  from assms(3) have "rev x @ CHR '':'' # rev a = rev y @ CHR '':'' # rev b"
    by (metis append.assoc append_Cons append_Nil rev.simps(2) rev_append)
  moreover have "length (rev x) = length (rev y)"
    using index_byte_append [of "CHR '':''" "rev x" "rev a"] index_byte_append [of "CHR '':''" "rev y" "rev b"]
      calculation assms(1,2) by simp
  ultimately show ?thesis by simp
qed

lemma cache_key_inj:
  "Key H m h p = Key H m' h' p' \<longleftrightarrow> m = m' \<and> h = h' \<and> take 16 (H p) = take 16 (H p')"
proof
  assume k: "Key H m h p = Key H m' h' p'"
  have "m @ '':'' @ show_int h = m' @ '':'' @ show_int h' \<and> hex_encode (take 16 (H p)) = hex_encode (take 16 (H p'))"
    using k by (intro last_colon hex_encode_no_colon) (simp add: Key_def)
  then have e: "m @ CHR '':'' # show_int h = m' @ CHR '':'' # show_int h'" "take 16 (H p) = take 16 (H p')"
    using hex_encode_inj by auto
  from last_colon [OF show_int_no_colon show_int_no_colon e(1)] e(2)
  show "m = m' \<and> h = h' \<and> take 16 (H p) = take 16 (H p')" by simp
qed (auto simp: Key_def)

text \<open>A key determines the method, the height and the 128-bit fingerprint of the body: two
  requests share a cache entry only when their methods and heights are equal and their bodies
  agree on the first 16 bytes of their hash, whatever the method names contain.\<close>

theorem cache_key_injective:
  "Key H m h p = Key H m' h' p' \<longleftrightarrow> m = m' \<and> h = h' \<and> take 16 (H p) = take 16 (H p')"
  by (rule cache_key_inj)

subsection \<open>The interface\<close>

text \<open>
  What the handler relies on: a hit is something that was stored under the same method and height
  and an equal fingerprint of the body. \<open>held\<close> is what the cache holds, whether or not it has
  expired.
\<close>

locale response_cache =
  fixes get :: "'e \<Rightarrow> string \<Rightarrow> int \<Rightarrow> string \<Rightarrow> 's \<Rightarrow> string option \<times> 's"
    and put :: "'e \<Rightarrow> string \<Rightarrow> int \<Rightarrow> string \<Rightarrow> string \<Rightarrow> 's \<Rightarrow> 's"
    and held :: "'s \<Rightarrow> string \<Rightarrow> int \<Rightarrow> string \<Rightarrow> string option"
    and same :: "string \<Rightarrow> string \<Rightarrow> bool"
  assumes get_held: "fst (get e m h p s) = Some r \<Longrightarrow> held s m h p = Some r"
    and get_keeps: "held (snd (get e m h p s)) m' h' p' = held s m' h' p'"
    and put_held: "held (put e m h p r s) m' h' p' = Some r' \<Longrightarrow>
          (r' = r \<and> m' = m \<and> h' = h \<and> same p p') \<or> held s m' h' p' = Some r'"
begin

definition cache_op :: "('e \<times> string \<times> int \<times> string \<times> string option) \<Rightarrow> 's \<Rightarrow> 's" where
  "cache_op op s =
     (case op of (e, m, h, p, None) \<Rightarrow> snd (get e m h p s) | (e, m, h, p, Some r) \<Rightarrow> put e m h p r s)"

lemma held_was_put:
  assumes "held (fold cache_op ops s) m h p = Some r"
  shows "held s m h p = Some r \<or> (\<exists>e p'. (e, m, h, p', Some r) \<in> set ops \<and> same p' p)"
  using assms
proof (induction ops arbitrary: s)
  case (Cons op ops)
  obtain e m' h' p' ro where op: "op = (e, m', h', p', ro)" by (metis surj_pair)
  from Cons.prems have "held (fold cache_op ops (cache_op op s)) m h p = Some r" by simp
  from Cons.IH [OF this] show ?case
  proof
    assume a: "held (cache_op op s) m h p = Some r"
    show ?thesis
    proof (cases ro)
      case None
      with a show ?thesis by (simp add: op cache_op_def get_keeps)
    next
      case (Some r')
      with a have "(r = r' \<and> m = m' \<and> h = h' \<and> same p' p) \<or> held s m h p = Some r"
        using put_held [of e m' h' p' r' s m h p r] by (simp add: op cache_op_def)
      with Some show ?thesis by (auto simp: op)
    qed
  qed auto
qed simp

lemma hit_was_put:
  assumes "\<And>m h p. held s m h p = None" "fst (get e m h p (fold cache_op ops s)) = Some r"
  shows "\<exists>e p'. (e, m, h, p', Some r) \<in> set ops \<and> same p' p"
  using held_was_put [OF get_held [OF assms(2)]] assms(1) by auto

lemma instrumented:
  "response_cache (instrumented_Get get) (instrumented_Set put) (\<lambda>cm. held (fst cm)) same"
  by unfold_locales
    (auto simp: instrumented_Get_def instrumented_Set_def split_beta get_keeps intro: get_held dest: put_held)

end

definition redis_held :: "(string \<Rightarrow> string) \<Rightarrow> redis_cache \<Rightarrow> string \<Rightarrow> int \<Rightarrow> string \<Rightarrow> string option" where
  "redis_held H c m h p = map_option fst (rc_data c (Key H m h p))"

definition same_print :: "(string \<Rightarrow> string) \<Rightarrow> string \<Rightarrow> string \<Rightarrow> bool" where
  "same_print H p p' \<longleftrightarrow> take 16 (H p) = take 16 (H p')"

interpretation redis: response_cache "redis_Get H" "redis_Set H" "redis_held H" "same_print H" for H
proof
  show "redis_held H (redis_Set H e m h p r s) m' h' p' = Some r' \<Longrightarrow>
      (r' = r \<and> m' = m \<and> h' = h \<and> same_print H p p') \<or> redis_held H s m' h' p' = Some r'" for e m h p r s m' h' p' r'
    by (auto simp: redis_held_def redis_Set_def Let_def same_print_def cache_key_inj split: if_splits)
qed (auto simp: redis_held_def redis_Get_def Let_def split: if_splits option.splits)

interpretation noop: response_cache noop_Get noop_Set "\<lambda>_ _ _ _. None" "\<lambda>_ _. False"
  by unfold_locales (simp_all add: noop_Get_def)

interpretation counted: response_cache "instrumented_Get (redis_Get H)" "instrumented_Set (redis_Set H)"
    "\<lambda>cm. redis_held H (fst cm)" "same_print H" for H
  by (rule redis.instrumented)

text \<open>A use of the instrumented Redis cache: a lookup, or a store when a response is given.\<close>

definition cache_step ::
  "(string \<Rightarrow> string) \<Rightarrow> cache_env \<times> string \<times> int \<times> string \<times> string option \<Rightarrow> redis_cache \<times> cache_metrics \<Rightarrow> redis_cache \<times> cache_metrics" where
  "cache_step H op cm =
     (case op of
        (e, m, h, p, None) \<Rightarrow> snd (instrumented_Get (redis_Get H) e m h p cm)
      | (e, m, h, p, Some r) \<Rightarrow> instrumented_Set (redis_Set H) e m h p r cm)"

lemma cache_step_op: "cache_step H = counted.cache_op H"
  by (intro ext) (simp add: cache_step_def counted.cache_op_def split: prod.split option.split)

text \<open>Through the instrumented Redis cache, a hit is a response that was stored earlier for the
  same method, the same height and a body with the same fingerprint, whatever failed or expired in
  between.\<close>

theorem cache_hit_was_stored:
  assumes "fst (instrumented_Get (redis_Get H) e m h p
      (fold (cache_step H) ops (NewRedisCache ttl mx, new_cache_metrics))) = Some r"
  shows "\<exists>e' p'. (e', m, h, p', Some r) \<in> set ops \<and> take 16 (H p') = take 16 (H p)"
  using counted.hit_was_put [OF _ assms [unfolded cache_step_op]]
  by (auto simp: redis_held_def NewRedisCache_def Let_def same_print_def)

theorem cache_hit_was_stored_witness:
  "\<exists>e' p'. (e', ''block'', 7 :: int, p', Some ''ok'') \<in> set [(\<lparr>ce_now = 5, ce_ok = True\<rparr>, ''block'', 7, ''x'', Some ''ok'')]
     \<and> take 16 (id p') = take 16 (id ''x'')"
  by (rule cache_hit_was_stored [of id "\<lparr>ce_now = 6, ce_ok = True\<rparr>" _ _ _ _ 10 100])
    (simp add: instrumented_Get_def instrumented_Set_def redis_Get_def redis_Set_def cache_step_def NewRedisCache_def Let_def)

end
