(* ===== verification/Handler.thy ===== *)
theory Handler
  imports Middleware Router Cache
begin

text \<open>
  \<open>internal/proxy/handler.go\<close>: the handler of a proxied HTTP request, from the body to the response.

  \<open>url.Parse\<close>, the exchange with a backend and the cache are fields of \<open>deps\<close>: the exchange gives the
  backend's response after \<open>httputil.ReverseProxy\<close> removed the hop-by-hop headers, or \<open>None\<close> for a
  transport error, and how long it took; a response body arrives whole. The requests sent out are
  recorded in \<open>hs_sent\<close>.
\<close>

record target =
  tg_Scheme :: string
  tg_Host :: string
  tg_String :: string

record out_request =
  or_Scheme :: string
  or_Host :: string
  or_Path :: string
  or_RawQuery :: string
  or_Body :: "string option"
  or_ContentLength :: int
  or_Header :: headers

record upstream =
  us_Status :: int
  us_Header :: headers
  us_Body :: string

record ('c, 'w) deps =
  dp_maxBodySize :: int
  dp_draw :: draw
  dp_parse :: "string \<Rightarrow> target option"
  dp_exchange :: "out_request \<Rightarrow> 'w \<Rightarrow> upstream option \<times> int \<times> 'w"
  dp_get :: "string \<Rightarrow> int \<Rightarrow> string \<Rightarrow> 'c \<Rightarrow> string option \<times> 'c"
  dp_set :: "string \<Rightarrow> int \<Rightarrow> string \<Rightarrow> string \<Rightarrow> 'c \<Rightarrow> 'c"

record ('c, 'w) hstate =
  hs_router :: router
  hs_cache :: 'c
  hs_world :: 'w
  hs_sent :: "out_request list"

definition HeaderXDABackend :: string where "HeaderXDABackend = ''X-Da-Backend''"
definition HeaderXCacheStatus :: string where "HeaderXCacheStatus = ''X-Cache-Status''"

definition unavailable_body :: string where
  "unavailable_body = render (VObj [(''error'', VStr ''backend unavailable'')])"

subsection \<open>Pruned blocks\<close>

definition pruned_phrases :: "string list" where
  "pruned_phrases =
     [''is not available'', ''block not found'', ''header not found'', ''lowest height is'',
      ''height must be less than or equal'', ''could not find results'']"

definition isPrunedError :: "int \<Rightarrow> string \<Rightarrow> bool" where
  "isPrunedError statusCode body =
     (if statusCode \<noteq> 200 \<and> statusCode \<noteq> 500 then False
      else if body = [] then False
      else case unmarshal_raw_struct ''error'' body of
        None \<Rightarrow> False
      | Some err \<Rightarrow>
          if err = [] \<or> err = ''null'' then False
          else let errStr = to_lower err in list_ex (\<lambda>p. sublist p errStr) pruned_phrases)"

text \<open>A compact answer with one \<open>error\<close> member reports a pruned block when the member's text has a phrase.\<close>

lemma fold_name_error: "fold_name ''error'' = ''error''"
  by code_simp

lemma isPruned_document:
  assumes "plain_val 0 (VObj (pre @ (''error'', e) # post))" "\<forall>(k, v) \<in> set post. fold_name k \<noteq> ''error''"
  shows "isPrunedError code (render (VObj (pre @ (''error'', e) # post))) \<longleftrightarrow>
    (code = 200 \<or> code = 500) \<and> render e \<noteq> ''null'' \<and> (\<exists>p \<in> set pruned_phrases. sublist p (to_lower (render e)))"
proof -
  have "unmarshal_raw_struct ''error'' (render (VObj (pre @ (''error'', e) # post))) = Some (render e)"
    by (rule unmarshal_raw_struct_render [OF assms(1)]) (use assms(2) in \<open>auto simp: fold_name_error\<close>)
  moreover have "render e \<noteq> []" "render (VObj (pre @ (''error'', e) # post)) \<noteq> []" using render_ends by blast+
  ultimately show ?thesis
    by (auto simp: isPrunedError_def Let_def list_ex_iff simp del: render.simps)
qed

subsection \<open>The outgoing request\<close>

definition director :: "target \<Rightarrow> string \<Rightarrow> string \<Rightarrow> string option \<Rightarrow> ctx \<Rightarrow> out_request" where
  "director t path rawQuery body c =
     \<lparr>or_Scheme = tg_Scheme t, or_Host = tg_Host t,
      or_Path = (if path \<noteq> [] \<and> path \<noteq> ''/'' then path else ''/''), or_RawQuery = rawQuery,
      or_Body = (case body of Some b \<Rightarrow> Some b | None \<Rightarrow> rq_Body c),
      or_ContentLength = (case body of Some b \<Rightarrow> int (length b) | None \<Rightarrow> rq_ContentLength c),
      or_Header = rq_Header c\<rparr>"

text \<open>One exchange: the request is sent and the time it took goes to the router.\<close>

definition exchange ::
  "('c, 'w) deps \<Rightarrow> backend \<Rightarrow> string \<Rightarrow> out_request \<Rightarrow> ('c, 'w) hstate \<Rightarrow> upstream option \<times> ('c, 'w) hstate" where
  "exchange dp backend endpointURL out s =
     (case dp_exchange dp out (hs_world s) of (resp, elapsed, w) \<Rightarrow>
        (resp, s\<lparr>hs_world := w, hs_sent := hs_sent s @ [out],
                 hs_router := router_RecordLatency backend endpointURL elapsed (hs_router s)\<rparr>))"

subsection \<open>The direct path\<close>

text \<open>\<open>ModifyResponse\<close>: the response's headers with ours, and the cache afterwards.\<close>

definition modify_response ::
  "('c, 'w) deps \<Rightarrow> ctx \<Rightarrow> route_decision \<Rightarrow> int \<Rightarrow> string \<Rightarrow> bool \<Rightarrow> upstream \<Rightarrow> 'c \<Rightarrow> upstream \<times> 'c" where
  "modify_response dp c decision height body shouldCache resp cache =
     (let reqID = stringFromCtx (cv_RequestID c);
          h = (if reqID \<noteq> [] then hdr_set (us_Header resp) HeaderXRequestID reqID else us_Header resp);
          h = hdr_set h HeaderXDABackend (rd_Backend decision)
      in if shouldCache \<and> us_Status resp = 200 then
           (if \<not> isPrunedError (us_Status resp) (us_Body resp) then
              (resp\<lparr>us_Header := hdr_set h HeaderXCacheStatus ''MISS''\<rparr>,
               dp_set dp (rd_Method decision) height body (us_Body resp) cache)
            else (resp\<lparr>us_Header := h\<rparr>, cache))
         else (resp\<lparr>us_Header := h\<rparr>, cache))"

text \<open>The reverse proxy adds the response's header values to those already set.\<close>

definition copy_headers :: "headers \<Rightarrow> headers \<Rightarrow> headers" where
  "copy_headers dst src =
     (\<lambda>k. case src k of None \<Rightarrow> dst k | Some vs \<Rightarrow> Some ((case dst k of Some ws \<Rightarrow> ws | None \<Rightarrow> []) @ vs))"

definition serve_response :: "upstream \<Rightarrow> ctx \<Rightarrow> ctx" where
  "serve_response resp c =
     write_body (us_Body resp) (write_header (us_Status resp)
       (c\<lparr>rs_Header := copy_headers (rs_Header c) (us_Header resp)\<rparr>))"

definition proxyDirect ::
  "('c, 'w) deps \<Rightarrow> route_decision \<Rightarrow> target \<Rightarrow> string \<Rightarrow> string \<Rightarrow> string option \<Rightarrow> int \<Rightarrow> bool \<Rightarrow> ('c, 'w) hstate handler" where
  "proxyDirect dp decision t path rawQuery body height shouldCache s c =
     (let out = director t path rawQuery body c;
          b = (case body of Some b \<Rightarrow> b | None \<Rightarrow> [])
      in case exchange dp (rd_Backend decision) (rd_TargetURL decision) out s of
           (None, s') \<Rightarrow> (None, write_body unavailable_body (write_header 502 c), s')
         | (Some resp, s') \<Rightarrow>
             (case modify_response dp c decision height b shouldCache resp (hs_cache s') of (resp', cache') \<Rightarrow>
                (None, serve_response resp' c, s'\<lparr>hs_cache := cache'\<rparr>)))"

subsection \<open>The retry path\<close>

text \<open>\<open>tryEndpoint\<close> with its buffered response; a transport error reads as a 502.\<close>

definition tryEndpoint ::
  "('c, 'w) deps \<Rightarrow> ctx \<Rightarrow> target \<Rightarrow> string \<Rightarrow> string \<Rightarrow> string option \<Rightarrow> backend \<Rightarrow> string \<Rightarrow> ('c, 'w) hstate \<Rightarrow>
   upstream \<times> ('c, 'w) hstate" where
  "tryEndpoint dp c t path rawQuery body backend endpointURL s =
     (case exchange dp backend endpointURL (director t path rawQuery body c) s of
        (Some resp, s') \<Rightarrow> (resp, s')
      | (None, s') \<Rightarrow> (\<lparr>us_Status = 502, us_Header = Map.empty, us_Body = unavailable_body\<rparr>, s'))"

text \<open>\<open>Header().Set\<close> in a loop keeps the last value of each name.\<close>

definition set_headers :: "headers \<Rightarrow> headers \<Rightarrow> headers" where
  "set_headers dst src = (\<lambda>k. case src k of Some (v # vs) \<Rightarrow> Some [last (v # vs)] | _ \<Rightarrow> dst k)"

definition flushBuffered ::
  "('c, 'w) deps \<Rightarrow> upstream \<Rightarrow> backend \<Rightarrow> string \<Rightarrow> int \<Rightarrow> string \<Rightarrow> bool \<Rightarrow> ('c, 'w) hstate handler" where
  "flushBuffered dp buf backend meth height reqBody shouldCache s c =
     (let reqID = stringFromCtx (cv_RequestID c);
          c = c\<lparr>rs_Header := set_headers (rs_Header c) (us_Header buf)\<rparr>;
          c = (if reqID \<noteq> [] then set_resp_header HeaderXRequestID reqID c else c);
          c = set_resp_header HeaderXDABackend backend c;
          store = (shouldCache \<and> us_Status buf = 200 \<and> \<not> isPrunedError (us_Status buf) (us_Body buf));
          c = (if store then set_resp_header HeaderXCacheStatus ''MISS'' c else c);
          s = (if store then s\<lparr>hs_cache := dp_set dp meth height reqBody (us_Body buf) (hs_cache s)\<rparr> else s)
      in (None, write_body (us_Body buf) (write_header (us_Status buf) c), s))"

text \<open>The loops over a pool: the first response that is not a pruned error, or the last one had.\<close>

fun try_pool ::
  "('c, 'w) deps \<Rightarrow> ctx \<Rightarrow> string \<Rightarrow> string \<Rightarrow> string option \<Rightarrow> backend \<Rightarrow> string option \<Rightarrow> endpoints \<Rightarrow>
   upstream \<Rightarrow> ('c, 'w) hstate \<Rightarrow> bool \<times> upstream \<times> ('c, 'w) hstate" where
  "try_pool dp c path rawQuery body backend tried [] buf s = (False, buf, s)"
| "try_pool dp c path rawQuery body backend tried (ep # eps) buf s =
     (if Some ep = tried then try_pool dp c path rawQuery body backend tried eps buf s
      else case dp_parse dp ep of
        None \<Rightarrow> try_pool dp c path rawQuery body backend tried eps buf s
      | Some t \<Rightarrow>
          (case tryEndpoint dp c t path rawQuery body backend ep s of (buf', s') \<Rightarrow>
             if \<not> isPrunedError (us_Status buf') (us_Body buf') then (True, buf', s')
             else try_pool dp c path rawQuery body backend tried eps buf' s'))"

definition proxyWithRetry ::
  "('c, 'w) deps \<Rightarrow> route_decision \<Rightarrow> target \<Rightarrow> string \<Rightarrow> string \<Rightarrow> string option \<Rightarrow> int \<Rightarrow> bool \<Rightarrow> ('c, 'w) hstate handler" where
  "proxyWithRetry dp decision t path rawQuery body height shouldCache s c =
     (let b = (case body of Some b \<Rightarrow> b | None \<Rightarrow> []);
          backend = rd_Backend decision;
          m = rd_Method decision
      in case tryEndpoint dp c t path rawQuery body backend (rd_TargetURL decision) s of (buf, s1) \<Rightarrow>
        if \<not> isPrunedError (us_Status buf) (us_Body buf) then flushBuffered dp buf backend m height b shouldCache s1 c
        else case try_pool dp c path rawQuery body backend (Some (tg_String t))
                    (router_AllEndpoints backend (hs_router s1)) buf s1 of (found, buf, s2) \<Rightarrow>
          if found then flushBuffered dp buf backend m height b shouldCache s2 c
          else if HasArchivalBackend backend (hs_router s2) then
            (case try_pool dp c path rawQuery body (archivalBackend backend) None
                    (router_AllEndpoints (archivalBackend backend) (hs_router s2)) buf s2 of (found, buf, s3) \<Rightarrow>
               if found then
                 flushBuffered dp buf (archivalBackend backend) m height b shouldCache s3
                   (c\<lparr>cv_Backend := Some (archivalBackend backend)\<rparr>)
               else flushBuffered dp buf backend m height b shouldCache s3 c)
          else flushBuffered dp buf backend m height b shouldCache s2 c)"

subsection \<open>The handler\<close>

text \<open>\<open>io.LimitReader\<close> and \<open>io.ReadAll\<close>: the bytes read, or \<open>None\<close> when the stream fails before the limit.\<close>

definition read_limited :: "int \<Rightarrow> bool \<Rightarrow> string \<Rightarrow> string option" where
  "read_limited n fails b =
     (if n \<le> 0 then Some []
      else if fails \<and> int (length b) < n then None
      else Some (take (nat n) b))"

definition serve_cached :: "route_decision \<Rightarrow> string \<Rightarrow> ctx \<Rightarrow> ctx" where
  "serve_cached decision cached c =
     (let reqID = stringFromCtx (cv_RequestID c);
          c = set_resp_header ''Content-Type'' ''application/json'' c;
          c = set_resp_header HeaderXDABackend (rd_Backend decision) c;
          c = set_resp_header HeaderXCacheStatus ''HIT'' c;
          c = (if reqID \<noteq> [] then set_resp_header HeaderXRequestID reqID c else c)
      in write_body cached (write_header 200 c))"

definition method_forbidden :: "string \<Rightarrow> token_info option \<Rightarrow> bool" where
  "method_forbidden m ti = (m \<noteq> [] \<and> (case ti of Some info \<Rightarrow> \<not> IsMethodAllowed info m | None \<Rightarrow> False))"

definition canRetry :: "backend \<Rightarrow> int \<Rightarrow> router \<Rightarrow> bool" where
  "canRetry backend height r =
     (0 < height \<and> (1 < length (router_AllEndpoints backend r) \<or> HasArchivalBackend backend r))"

definition request_height :: "string \<Rightarrow> string \<Rightarrow> string \<Rightarrow> int" where
  "request_height m rawQuery b =
     (let height = ExtractHeight m b in if height = 0 then ExtractHeightFromQuery rawQuery else height)"

text \<open>After routing and authorization: the cache, then the backends.\<close>

definition serve_decision ::
  "('c, 'w) deps \<Rightarrow> route_decision \<Rightarrow> string \<Rightarrow> string \<Rightarrow> string option \<Rightarrow> ('c, 'w) hstate handler" where
  "serve_decision dp decision path rawQuery body s c =
     (let b = (case body of Some b \<Rightarrow> b | None \<Rightarrow> []);
          m = rd_Method decision;
          height = request_height m rawQuery b;
          shouldCache = IsCacheable m height
      in case (if shouldCache then dp_get dp m height b (hs_cache s) else (None, hs_cache s)) of
           (Some cached, cache') \<Rightarrow> (None, serve_cached decision cached c, s\<lparr>hs_cache := cache'\<rparr>)
         | (None, cache') \<Rightarrow>
             (let s = s\<lparr>hs_cache := cache'\<rparr>
              in case dp_parse dp (rd_TargetURL decision) of
                   None \<Rightarrow> (Some (HTTPError 502 ''backend configuration error''), c, s)
                 | Some t \<Rightarrow>
                     if canRetry (rd_Backend decision) height (hs_router s)
                     then proxyWithRetry dp decision t path rawQuery body height shouldCache s c
                     else proxyDirect dp decision t path rawQuery body height shouldCache s c))"

definition HandleRequest :: "('c, 'w) deps \<Rightarrow> ('c, 'w) hstate handler" where
  "HandleRequest dp s c =
     (let path = rq_Path c;
          rawQuery = rq_RawQuery c;
          body = (case rq_Body c of
                    None \<Rightarrow> Inr None
                  | Some b \<Rightarrow>
                      (case read_limited (wrap64 (dp_maxBodySize dp + 1)) (rq_BodyFails c) b of
                         None \<Rightarrow> Inl (HTTPError 400 ''failed to read request body'')
                       | Some b \<Rightarrow>
                           if dp_maxBodySize dp < int (length b)
                           then Inl (HTTPError 413 ''request body too large'') else Inr (Some b)))
      in case body of
           Inl e \<Rightarrow> (Some e, c, s)
         | Inr body \<Rightarrow>
             (case router_Route (dp_draw dp) (case body of Some b \<Rightarrow> b | None \<Rightarrow> []) (hs_router s) of
                (Inl e, r) \<Rightarrow> (Some (HTTPError 400 e), c, s\<lparr>hs_router := r\<rparr>)
              | (Inr decision, r) \<Rightarrow>
                  (let s = s\<lparr>hs_router := r\<rparr>;
                       c = c\<lparr>cv_Backend := Some (rd_Backend decision), cv_RPCMethod := Some (rd_Method decision)\<rparr>
                   in if method_forbidden (rd_Method decision) (cv_TokenInfo c)
                      then (Some (HTTPError 403 ''method not allowed for this token''), c, s)
                      else serve_decision dp decision path rawQuery body s c)))"

subsection \<open>What is sent, and where\<close>

definition same_pools :: "('c, 'w) hstate \<Rightarrow> ('c, 'w) hstate \<Rightarrow> bool" where
  "same_pools s s' \<longleftrightarrow> (\<forall>b. router_AllEndpoints b (hs_router s') = router_AllEndpoints b (hs_router s))
     \<and> (router_wf (hs_router s) \<longrightarrow> router_wf (hs_router s'))"

text \<open>The requests sent between two states are the incoming one, directed to endpoints of \<open>eps\<close>.\<close>

definition sends ::
  "('c, 'w) deps \<Rightarrow> ctx \<Rightarrow> string \<Rightarrow> string \<Rightarrow> string option \<Rightarrow> string set \<Rightarrow> ('c, 'w) hstate \<Rightarrow> ('c, 'w) hstate \<Rightarrow> bool" where
  "sends dp c path rawQuery body eps s s' \<longleftrightarrow> same_pools s s' \<and>
     (\<exists>new. hs_sent s' = hs_sent s @ new \<and>
        (\<forall>out \<in> set new. \<exists>ep \<in> eps. \<exists>t. dp_parse dp ep = Some t \<and> out = director t path rawQuery body c))"

lemma same_pools_refl [simp]: "same_pools s s"
  by (simp add: same_pools_def)

lemma same_pools_endpoints: "same_pools s s' \<Longrightarrow> router_AllEndpoints b (hs_router s') = router_AllEndpoints b (hs_router s)"
  by (simp add: same_pools_def)

lemma same_pools_cache [simp]:
  "same_pools s (s'\<lparr>hs_cache := x\<rparr>) \<longleftrightarrow> same_pools s s'" "same_pools (s\<lparr>hs_cache := x\<rparr>) s' \<longleftrightarrow> same_pools s s'"
  by (simp_all add: same_pools_def)

lemma sends_refl [intro]: "sends dp c path q body eps s s"
  by (simp add: sends_def)

lemma sends_trans:
  assumes "sends dp c path q body eps s1 s2" "sends dp c path q body eps s2 s3"
  shows "sends dp c path q body eps s1 s3"
proof -
  let ?P = "\<lambda>new. \<forall>out \<in> set new. \<exists>ep \<in> eps. \<exists>t. dp_parse dp ep = Some t \<and> out = director t path q body c"
  obtain n1 where "hs_sent s2 = hs_sent s1 @ n1" "?P n1" using assms(1) unfolding sends_def by blast
  moreover obtain n2 where "hs_sent s3 = hs_sent s2 @ n2" "?P n2" using assms(2) unfolding sends_def by blast
  moreover have "same_pools s1 s3" using assms by (auto simp: sends_def same_pools_def)
  ultimately show ?thesis unfolding sends_def by (intro conjI exI [of _ "n1 @ n2"]) (simp_all add: ball_Un)
qed

lemma sends_mono: "sends dp c path q body eps s s' \<Longrightarrow> eps \<subseteq> eps' \<Longrightarrow> sends dp c path q body eps' s s'"
  unfolding sends_def by blast

lemma sends_cache [simp]:
  "sends dp c path q body eps s (s'\<lparr>hs_cache := x\<rparr>) \<longleftrightarrow> sends dp c path q body eps s s'"
  "sends dp c path q body eps (s\<lparr>hs_cache := x\<rparr>) s' \<longleftrightarrow> sends dp c path q body eps s s'"
  by (simp_all add: sends_def)

lemma exchange_sends:
  assumes "exchange dp backend u (director t path q body c) s = (resp, s')" "dp_parse dp ep = Some t" "ep \<in> eps"
  shows "sends dp c path q body eps s s'"
proof -
  have s': "hs_sent s' = hs_sent s @ [director t path q body c]"
      "\<exists>el. hs_router s' = router_RecordLatency backend u el (hs_router s)"
    using assms(1) by (auto simp: exchange_def split: prod.splits)
  have "same_pools s s'" using s'(2) by (auto simp: same_pools_def)
  with s' assms(2,3) show ?thesis unfolding sends_def by (intro conjI exI [of _ "[director t path q body c]"]) auto
qed

lemma tryEndpoint_sends:
  assumes "tryEndpoint dp c t path q body backend u s = (buf, s')" "dp_parse dp ep = Some t" "ep \<in> eps"
  shows "sends dp c path q body eps s s'"
  using assms exchange_sends [OF _ assms(2,3)]
  by (auto simp: tryEndpoint_def split: prod.splits option.splits)

lemma try_pool_sends:
  "try_pool dp c path q body backend tried pool buf s = (found, buf', s') \<Longrightarrow> set pool \<subseteq> eps \<Longrightarrow>
     sends dp c path q body eps s s'"
proof (induction dp c path q body backend tried pool buf s rule: try_pool.induct)
  case (2 dp c path q body backend tried ep pool buf s)
  show ?case
  proof (cases "Some ep = tried \<or> dp_parse dp ep = None")
    case True
    with 2 show ?thesis by (auto split: if_splits)
  next
    case False
    then obtain t buf1 s1 where t: "dp_parse dp ep = Some t" "tryEndpoint dp c t path q body backend ep s = (buf1, s1)"
      by (metis not_Some_eq surj_pair)
    have s1: "sends dp c path q body eps s s1" using tryEndpoint_sends [OF t(2,1)] 2(5) by simp
    show ?thesis
    proof (cases "isPrunedError (us_Status buf1) (us_Body buf1)")
      case True
      with 2(4) False t have "try_pool dp c path q body backend tried pool buf1 s1 = (found, buf', s')" by auto
      with 2(3) False t True 2(5) s1 sends_trans show ?thesis by force
    next
      case notPruned: False
      with 2(4) False t s1 show ?thesis by auto
    qed
  qed
qed auto

lemma flush_sends:
  "flushBuffered dp buf b m h rb sc s c = (err, c', s') \<Longrightarrow> sends dp d path q body eps s s'"
  by (auto simp: flushBuffered_def Let_def)

lemma HasArchival_iff:
  "HasArchivalBackend b r \<longleftrightarrow> archivalBackend b \<noteq> b \<and> router_AllEndpoints (archivalBackend b) r \<noteq> []"
  unfolding AllEndpoints_pool by (auto simp: HasArchivalBackend_def Let_def split: option.splits)

lemma proxyDirect_sends:
  assumes "proxyDirect dp d t path q body height sc s c = (err, c', s')" "dp_parse dp ep = Some t" "ep \<in> eps"
  shows "sends dp c path q body eps s s'"
proof -
  obtain resp s1 where x: "exchange dp (rd_Backend d) (rd_TargetURL d) (director t path q body c) s = (resp, s1)"
    by (metis surj_pair)
  from exchange_sends [OF x assms(2,3)] assms(1) x show ?thesis
    by (auto simp: proxyDirect_def Let_def split: option.splits prod.splits)
qed

lemma proxyWithRetry_sends:
  assumes "proxyWithRetry dp d t path q body height sc s c = (err, c', s')" "dp_parse dp ep = Some t"
    "insert ep (set (router_AllEndpoints (rd_Backend d) (hs_router s))
       \<union> set (router_AllEndpoints (archivalBackend (rd_Backend d)) (hs_router s))) \<subseteq> eps"
  shows "sends dp c path q body eps s s'"
proof -
  obtain buf s1 where t1: "tryEndpoint dp c t path q body (rd_Backend d) (rd_TargetURL d) s = (buf, s1)" by (metis surj_pair)
  have s1: "sends dp c path q body eps s s1" using tryEndpoint_sends [OF t1 assms(2)] assms(3) by simp
  show ?thesis
  proof (cases "isPrunedError (us_Status buf) (us_Body buf)")
    case False
    then have "sends dp c path q body eps s1 s'"
      using assms(1) t1 by (auto simp: proxyWithRetry_def Let_def intro: flush_sends)
    with s1 show ?thesis by (rule sends_trans)
  next
    case True
    obtain found buf2 s2 where p2: "try_pool dp c path q body (rd_Backend d) (Some (tg_String t))
        (router_AllEndpoints (rd_Backend d) (hs_router s1)) buf s1 = (found, buf2, s2)" by (metis surj_pair)
    have e1: "router_AllEndpoints b (hs_router s1) = router_AllEndpoints b (hs_router s)" for b
      using s1 by (simp add: sends_def same_pools_def)
    have s2: "sends dp c path q body eps s1 s2" using try_pool_sends [OF p2] assms(3) e1 by simp
    then have e2: "router_AllEndpoints b (hs_router s2) = router_AllEndpoints b (hs_router s)" for b
      using e1 by (simp add: sends_def same_pools_def)
    obtain found3 buf3 s3 where p3: "try_pool dp c path q body (archivalBackend (rd_Backend d)) None
        (router_AllEndpoints (archivalBackend (rd_Backend d)) (hs_router s2)) buf2 s2 = (found3, buf3, s3)" by (metis surj_pair)
    have s3: "sends dp c path q body eps s2 s3" using try_pool_sends [OF p3] assms(3) e2 by simp
    have "sends dp c path q body eps s2 s'"
      using assms(1) True t1 p2 p3 s3
      by (auto simp: proxyWithRetry_def Let_def split: if_splits intro: flush_sends sends_trans)
    with s1 s2 show ?thesis by (blast intro: sends_trans)
  qed
qed

lemma serve_decision_sends:
  assumes "serve_decision dp d path q body s c = (err, c', s')"
    "insert (rd_TargetURL d) (set (router_AllEndpoints (rd_Backend d) (hs_router s))
       \<union> set (router_AllEndpoints (archivalBackend (rd_Backend d)) (hs_router s))) \<subseteq> eps"
  shows "sends dp c path q body eps s s'"
proof -
  define b where "b = (case body of Some b \<Rightarrow> b | None \<Rightarrow> [])"
  define h where "h = request_height (rd_Method d) q b"
  obtain hit cache' where g: "(if IsCacheable (rd_Method d) h then dp_get dp (rd_Method d) h b (hs_cache s) else (None, hs_cache s)) = (hit, cache')"
    by (metis surj_pair)
  have eq: "serve_decision dp d path q body s c =
      (case hit of
         Some cached \<Rightarrow> (None, serve_cached d cached c, s\<lparr>hs_cache := cache'\<rparr>)
       | None \<Rightarrow>
           (case dp_parse dp (rd_TargetURL d) of
              None \<Rightarrow> (Some (HTTPError 502 ''backend configuration error''), c, s\<lparr>hs_cache := cache'\<rparr>)
            | Some t \<Rightarrow>
                if canRetry (rd_Backend d) h (hs_router s)
                then proxyWithRetry dp d t path q body h (IsCacheable (rd_Method d) h) (s\<lparr>hs_cache := cache'\<rparr>) c
                else proxyDirect dp d t path q body h (IsCacheable (rd_Method d) h) (s\<lparr>hs_cache := cache'\<rparr>) c))"
    unfolding serve_decision_def Let_def b_def [symmetric] h_def [symmetric] g by (simp split: option.split)
  show ?thesis
  proof (cases "hit = None \<and> dp_parse dp (rd_TargetURL d) \<noteq> None")
    case False
    with assms(1) show ?thesis by (auto simp: eq split: option.splits)
  next
    case True
    then obtain t where t: "dp_parse dp (rd_TargetURL d) = Some t" by blast
    let ?s = "s\<lparr>hs_cache := cache'\<rparr>"
    have "serve_decision dp d path q body s c =
        (if canRetry (rd_Backend d) h (hs_router s)
         then proxyWithRetry dp d t path q body h (IsCacheable (rd_Method d) h) ?s c
         else proxyDirect dp d t path q body h (IsCacheable (rd_Method d) h) ?s c)"
      using True t by (simp add: eq)
    then have "sends dp c path q body eps ?s s'"
      using assms t proxyWithRetry_sends [OF _ t, of d path q body h _ ?s c err c' s' eps]
        proxyDirect_sends [OF _ t, of d path q body h _ ?s c err c' s' eps]
      by (auto split: if_splits)
    then show ?thesis by simp
  qed
qed

definition within_limit :: "('c, 'w) deps \<Rightarrow> ctx \<Rightarrow> string \<Rightarrow> bool" where
  "within_limit dp c b \<longleftrightarrow> rq_Body c = Some b \<and> \<not> rq_BodyFails c \<and> int (length b) \<le> dp_maxBodySize dp
     \<and> dp_maxBodySize dp < max_int64"

definition routed_ctx :: "route_decision \<Rightarrow> ctx \<Rightarrow> ctx" where
  "routed_ctx d c = c\<lparr>cv_Backend := Some (rd_Backend d), cv_RPCMethod := Some (rd_Method d)\<rparr>"

lemma limit_no_wrap: "0 \<le> m \<Longrightarrow> m < max_int64 \<Longrightarrow> wrap64 (m + 1) = m + 1"
  by (intro wrap64_id) (simp add: in_int64_def min_int64_def max_int64_def)

lemma read_limited_fits: "int (length b) \<le> m \<Longrightarrow> read_limited (m + 1) False b = Some b"
  by (simp add: read_limited_def)

lemma HandleRequest_within:
  assumes "within_limit dp c b"
  shows "HandleRequest dp s c =
     (case router_Route (dp_draw dp) b (hs_router s) of
        (Inl e, r) \<Rightarrow> (Some (HTTPError 400 e), c, s\<lparr>hs_router := r\<rparr>)
      | (Inr d, r) \<Rightarrow>
          if method_forbidden (rd_Method d) (cv_TokenInfo c)
          then (Some (HTTPError 403 ''method not allowed for this token''), routed_ctx d c, s\<lparr>hs_router := r\<rparr>)
          else serve_decision dp d (rq_Path c) (rq_RawQuery c) (Some b) (s\<lparr>hs_router := r\<rparr>) (routed_ctx d c))"
proof -
  have "0 \<le> dp_maxBodySize dp" using assms by (simp add: within_limit_def)
  then have "read_limited (wrap64 (dp_maxBodySize dp + 1)) (rq_BodyFails c) b = Some b"
    using assms limit_no_wrap read_limited_fits by (simp add: within_limit_def)
  with assms show ?thesis
    by (simp add: HandleRequest_def within_limit_def Let_def routed_ctx_def split: prod.split sum.split)
qed

text \<open>Every other body ends the request before routing.\<close>

lemma Handle_rejects_or_within:
  assumes "rq_Body c = Some b" "0 \<le> dp_maxBodySize dp" "dp_maxBodySize dp < max_int64"
  shows "(\<exists>e. HandleRequest dp s c = (Some e, c, s)) \<or> within_limit dp c b"
proof -
  let ?m = "dp_maxBodySize dp"
  have w: "wrap64 (?m + 1) = ?m + 1" using assms(2,3) by (rule limit_no_wrap)
  show ?thesis
  proof (cases "int (length b) \<le> ?m")
    case True
    then show ?thesis using assms w
      by (cases "rq_BodyFails c") (auto simp: within_limit_def HandleRequest_def Let_def read_limited_def)
  next
    case False
    then have "nat (?m + 1) \<le> length b" by linarith
    then have "?m < int (length (take (nat (?m + 1)) b))" using assms(2) by simp
    then show ?thesis using assms(1,2) False w
      by (auto simp: HandleRequest_def Let_def read_limited_def)
  qed
qed

definition rpc_backends :: "backend set" where
  "rpc_backends = {BackendCelestiaAppRPC, BackendCelestiaNodeRPC, BackendCelestiaAppArchivalRPC, BackendCelestiaNodeArchivalRPC}"

definition pruned_pools :: "router \<Rightarrow> bool" where
  "pruned_pools r \<longleftrightarrow> router_AllEndpoints BackendCelestiaAppRPC r \<noteq> [] \<and> router_AllEndpoints BackendCelestiaNodeRPC r \<noteq> []"

lemma Route_target_pool:
  assumes "router_wf r" "good_draw d" "pruned_pools r" "router_Route d body r = (Inr rd, r')"
  shows "\<exists>bk \<in> rpc_backends. rd_TargetURL rd \<in> set (router_AllEndpoints bk r)"
    "rd_Backend rd \<in> rpc_backends" "archivalBackend (rd_Backend rd) \<in> rpc_backends"
proof -
  note b = Route_backends [OF assms(4)]
  show bb: "rd_Backend rd \<in> rpc_backends" using b by (auto simp: rpc_backends_def)
  then show "archivalBackend (rd_Backend rd) \<in> rpc_backends" by (auto simp: rpc_backends_def archivalBackend_def)
  have sv: "serving (rd_Backend rd) r \<in> rpc_backends" using bb by (auto simp: serving_def rpc_backends_def)
  have "router_AllEndpoints (serving (rd_Backend rd) r) r \<noteq> []"
    using assms(3) bb by (auto simp: serving_def pruned_pools_def rpc_backends_def)
  from rt.target_member [OF assms(1,2) this] b sv
  show "\<exists>bk \<in> rpc_backends. rd_TargetURL rd \<in> set (router_AllEndpoints bk r)" by auto
qed

lemma HandleRequest_outgoing:
  assumes "router_wf (hs_router s)" "good_draw (dp_draw dp)" "pruned_pools (hs_router s)"
    "rq_Body c = Some b" "0 \<le> dp_maxBodySize dp" "dp_maxBodySize dp < max_int64"
    "HandleRequest dp s c = (err, c', s')"
  shows "\<exists>new. hs_sent s' = hs_sent s @ new \<and> (\<forall>out \<in> set new.
     or_Path out = (if rq_Path c = [] then ''/'' else rq_Path c) \<and> or_RawQuery out = rq_RawQuery c
     \<and> or_Body out = Some b \<and> or_Header out = rq_Header c \<and> int (length b) \<le> dp_maxBodySize dp
     \<and> (\<exists>bk ep t. bk \<in> rpc_backends \<and> ep \<in> set (router_AllEndpoints bk (hs_router s)) \<and> dp_parse dp ep = Some t
          \<and> or_Scheme out = tg_Scheme t \<and> or_Host out = tg_Host t))"
proof (cases "within_limit dp c b")
  case False
  with Handle_rejects_or_within [OF assms(4-6)] obtain e where "HandleRequest dp s c = (Some e, c, s)" by blast
  with assms(7) show ?thesis by auto
next
  case True
  obtain rd r where route: "router_Route (dp_draw dp) b (hs_router s) = (rd, r)" by (metis surj_pair)
  show ?thesis
  proof (cases "\<exists>d. rd = Inr d \<and> \<not> method_forbidden (rd_Method d) (cv_TokenInfo c)")
    case False
    then have "hs_sent s' = hs_sent s"
      using assms(7) HandleRequest_within [OF True, of s] route by (cases rd) auto
    then show ?thesis by auto
  next
    case ok: True
    then obtain d where d: "rd = Inr d" "\<not> method_forbidden (rd_Method d) (cv_TokenInfo c)" by blast
    let ?s = "s\<lparr>hs_router := r\<rparr>" and ?eps = "{ep. \<exists>bk \<in> rpc_backends. ep \<in> set (router_AllEndpoints bk (hs_router s))}"
    have sd: "serve_decision dp d (rq_Path c) (rq_RawQuery c) (Some b) ?s (routed_ctx d c) = (err, c', s')"
      using assms(7) HandleRequest_within [OF True, of s] route d by simp
    have r: "router_AllEndpoints bk r = router_AllEndpoints bk (hs_router s)" for bk
      using router_Route_frame(1) [of bk "dp_draw dp" b "hs_router s"] route by simp
    note tp = Route_target_pool [OF assms(1-3) route [unfolded d(1)]]
    have "sends dp (routed_ctx d c) (rq_Path c) (rq_RawQuery c) (Some b) ?eps ?s s'"
      by (rule serve_decision_sends [OF sd]) (use tp r in auto)
    then obtain new where new: "hs_sent s' = hs_sent s @ new"
        "\<forall>out \<in> set new. \<exists>ep \<in> ?eps. \<exists>t. dp_parse dp ep = Some t \<and> out = director t (rq_Path c) (rq_RawQuery c) (Some b) (routed_ctx d c)"
      unfolding sends_def by auto
    show ?thesis
    proof (intro exI [of _ new] conjI ballI)
      show "hs_sent s' = hs_sent s @ new" by (rule new(1))
      fix out assume "out \<in> set new"
      with new(2) obtain ep t bk where o: "bk \<in> rpc_backends" "ep \<in> set (router_AllEndpoints bk (hs_router s))"
          "dp_parse dp ep = Some t" "out = director t (rq_Path c) (rq_RawQuery c) (Some b) (routed_ctx d c)" by auto
      then show "or_Path out = (if rq_Path c = [] then ''/'' else rq_Path c)" "or_RawQuery out = rq_RawQuery c"
          "or_Body out = Some b" "or_Header out = rq_Header c"
        by (auto simp: director_def routed_ctx_def)
      show "int (length b) \<le> dp_maxBodySize dp" using True by (simp add: within_limit_def)
      show "\<exists>bk ep t. bk \<in> rpc_backends \<and> ep \<in> set (router_AllEndpoints bk (hs_router s)) \<and> dp_parse dp ep = Some t
          \<and> or_Scheme out = tg_Scheme t \<and> or_Host out = tg_Host t"
        using o by (intro exI [of _ bk] exI [of _ ep] exI [of _ t]) (simp add: director_def)
    qed
  qed
qed

text \<open>Whatever the backends answer, every request the handler sends is the incoming one (same path,
  query, headers and whole body) and goes to an endpoint configured for one of the four RPC
  backends; a body over the limit or cut off is never forwarded, not even in part.\<close>

theorem forwarded_unchanged_to_configured:
  assumes "router_wf (hs_router s)" "good_draw (dp_draw dp)" "pruned_pools (hs_router s)"
    "rq_Body c = Some b" "0 \<le> dp_maxBodySize dp" "dp_maxBodySize dp < max_int64"
    "HandleRequest dp s c = (err, c', s')"
  shows "\<exists>new. hs_sent s' = hs_sent s @ new \<and> (\<forall>out \<in> set new.
     or_Path out = (if rq_Path c = [] then ''/'' else rq_Path c) \<and> or_RawQuery out = rq_RawQuery c
     \<and> or_Body out = Some b \<and> or_Header out = rq_Header c \<and> int (length b) \<le> dp_maxBodySize dp
     \<and> (\<exists>bk ep t. bk \<in> rpc_backends \<and> ep \<in> set (router_AllEndpoints bk (hs_router s)) \<and> dp_parse dp ep = Some t
          \<and> or_Scheme out = tg_Scheme t \<and> or_Host out = tg_Host t))"
  by (rule HandleRequest_outgoing [OF assms])

text \<open>A backend that answers every request with the block \<open>{}\<close>, no cache, two pools.\<close>

definition sample_deps :: "(unit, unit) deps" where
  "sample_deps = \<lparr>dp_maxBodySize = 1000, dp_draw = steady,
     dp_parse = (\<lambda>u. Some \<lparr>tg_Scheme = ''http'', tg_Host = u, tg_String = u\<rparr>),
     dp_exchange = (\<lambda>out w. (Some \<lparr>us_Status = 200, us_Header = Map.empty, us_Body = ''{}''\<rparr>, 5000000, w)),
     dp_get = (\<lambda>m h b c. (None, c)), dp_set = (\<lambda>m h b r c. c)\<rparr>"

definition sample_hstate :: "(unit, unit) hstate" where
  "sample_hstate = \<lparr>hs_router = NewRouter sample_backends, hs_cache = (), hs_world = (), hs_sent = []\<rparr>"

lemma sample_hstate_pools:
  "router_wf (hs_router sample_hstate)" "pruned_pools (hs_router sample_hstate)" "good_draw (dp_draw sample_deps)"
  by (simp_all add: sample_hstate_def NewRouter_wf pruned_pools_def sample_backends_def sample_deps_def)

theorem forwarded_unchanged_to_configured_witness:
  "list_all (\<lambda>out. or_Body out = Some (render sample_request))
     (hs_sent (snd (snd (HandleRequest sample_deps sample_hstate
        (new_ctx ''/'' [] Map.empty (render sample_request) ''1.2.3.4'')))))"
proof -
  let ?b = "render sample_request" let ?c = "new_ctx ''/'' [] Map.empty ?b ''1.2.3.4''"
  obtain err c' s' where h: "HandleRequest sample_deps sample_hstate ?c = (err, c', s')" by (metis surj_pair)
  have "rq_Body ?c = Some ?b" "0 \<le> dp_maxBodySize sample_deps" "dp_maxBodySize sample_deps < max_int64"
    by (simp_all add: new_ctx_def sample_deps_def max_int64_def)
  from forwarded_unchanged_to_configured [OF sample_hstate_pools(1,3,2) this h]
  obtain new where n: "hs_sent s' = hs_sent sample_hstate @ new" "\<forall>out \<in> set new. or_Body out = Some ?b" by blast
  have "hs_sent s' = new" using n(1) by (simp add: sample_hstate_def)
  with n(2) show ?thesis unfolding h list_all_iff by simp
qed

end
