(* ===== verification/WebSocket.thy ===== *)
theory WebSocket
  imports Handler
begin

text \<open>
  \<open>internal/proxy/websocket.go\<close>: the choice of the backend, the two handshakes and the two copying
  loops of a WebSocket connection.

  URLs, the dialer and the upgrader are fields of \<open>ws_deps\<close>. What a loop meets is a list of its
  rounds: what \<open>ReadMessage\<close> returns and whether the write succeeds. The session of a request is
  two such lists that end, given by the peers.
\<close>

definition IsWebSocketUpgrade :: "ctx \<Rightarrow> bool" where
  "IsWebSocketUpgrade c \<longleftrightarrow> fold_name (hdr_get (rq_Header c) ''Upgrade'') = ''websocket''"

definition resolveWSBackend :: "string \<Rightarrow> backend" where
  "resolveWSBackend path =
     (if path = ''/ws'' \<or> prefix ''/ws/'' path then BackendCelestiaNodeRPC else BackendCelestiaAppRPC)"

text \<open>A parsed URL, as far as it is looked at; \<open>ur_rest\<close> is everything else in it.\<close>

record url =
  ur_Scheme :: string
  ur_Path :: string
  ur_rest :: string

definition httpToWSURL :: "(string \<Rightarrow> url option) \<Rightarrow> (url \<Rightarrow> string) \<Rightarrow> string \<Rightarrow> string \<Rightarrow> string option" where
  "httpToWSURL parse to_string httpURL path =
     (case parse httpURL of
        None \<Rightarrow> None
      | Some u \<Rightarrow>
          (let u = u\<lparr>ur_Scheme := (if ur_Scheme u = ''https'' then ''wss'' else ''ws'')\<rparr>;
               u = u\<lparr>ur_Path := (if path = [] \<or> path = ''/'' then ''/websocket'' else path)\<rparr>
           in Some (to_string u)))"

subsection \<open>The copying loop\<close>

datatype ws_read = WsMsg nat string | WsErr "nat option"

definition CloseMessage :: nat where "CloseMessage = 8"

text \<open>\<open>FormatCloseMessage(CloseNormalClosure, "")\<close>: the code 1000 in two bytes.\<close>

definition normal_close :: "nat \<times> string" where
  "normal_close = (CloseMessage, [CHR 0x03, CHR 0xE8])"

record ws_dir =
  wd_written :: "(nat \<times> string) list"
  wd_done :: bool

definition idle_dir :: ws_dir where "idle_dir = \<lparr>wd_written = [], wd_done = False\<rparr>"

definition frame_round :: "ws_read \<times> bool \<Rightarrow> ws_dir \<Rightarrow> ws_dir" where
  "frame_round ev d =
     (case ev of
        (WsErr code, ok) \<Rightarrow> d\<lparr>wd_written := (if ok then wd_written d @ [normal_close] else wd_written d), wd_done := True\<rparr>
      | (WsMsg t m, True) \<Rightarrow> d\<lparr>wd_written := wd_written d @ [(t, m)]\<rparr>
      | (WsMsg t m, False) \<Rightarrow> d\<lparr>wd_done := True\<rparr>)"

fun proxyFrames :: "(ws_read \<times> bool) list \<Rightarrow> ws_dir \<Rightarrow> ws_dir" where
  "proxyFrames [] d = d"
| "proxyFrames (ev # evs) d = (let d' = frame_round ev d in if wd_done d' then d' else proxyFrames evs d')"

text \<open>The two loops run side by side; a step of the connection is a round of one of them.\<close>

type_synonym ws_conn = "ws_dir \<times> ws_dir"

inductive ws_step :: "(ws_read \<times> bool) + (ws_read \<times> bool) \<Rightarrow> ws_conn \<Rightarrow> ws_conn \<Rightarrow> bool" where
  from_client: "\<not> wd_done c2b \<Longrightarrow> ws_step (Inl ev) (c2b, b2c) (frame_round ev c2b, b2c)"
| from_backend: "\<not> wd_done b2c \<Longrightarrow> ws_step (Inr ev) (c2b, b2c) (c2b, frame_round ev b2c)"

inductive ws_steps :: "((ws_read \<times> bool) + (ws_read \<times> bool)) list \<Rightarrow> ws_conn \<Rightarrow> ws_conn \<Rightarrow> bool" where
  none: "ws_steps [] k k"
| more: "ws_steps evs k k1 \<Longrightarrow> ws_step ev k1 k2 \<Longrightarrow> ws_steps (evs @ [ev]) k k2"

inductive_cases ws_stepE: "ws_step ev k k'"
inductive_simps ws_step_Inl [simp]: "ws_step (Inl ev) k k'"
inductive_simps ws_step_Inr [simp]: "ws_step (Inr ev) k k'"

definition lefts :: "('a + 'b) list \<Rightarrow> 'a list" where
  "lefts xs = List.map_filter (\<lambda>x. case x of Inl a \<Rightarrow> Some a | Inr _ \<Rightarrow> None) xs"

definition rights :: "('a + 'b) list \<Rightarrow> 'b list" where
  "rights xs = List.map_filter (\<lambda>x. case x of Inl _ \<Rightarrow> None | Inr b \<Rightarrow> Some b) xs"

lemma lefts_simps [simp]: "lefts [] = []" "lefts (xs @ [Inl a]) = lefts xs @ [a]" "lefts (xs @ [Inr b]) = lefts xs"
  by (simp_all add: lefts_def map_filter_def)

lemma rights_simps [simp]: "rights [] = []" "rights (xs @ [Inr b]) = rights xs @ [b]" "rights (xs @ [Inl a]) = rights xs"
  by (simp_all add: rights_def map_filter_def)

lemma proxyFrames_snoc:
  "\<not> wd_done d \<Longrightarrow> \<not> wd_done (proxyFrames evs d) \<Longrightarrow> proxyFrames (evs @ [ev]) d = frame_round ev (proxyFrames evs d)"
  by (induction evs arbitrary: d) (simp_all add: Let_def split: if_splits)

text \<open>What a loop does with its rounds: it copies up to the first failure, and answers a failed read with
  a normal close.\<close>

definition copied :: "ws_read \<times> bool \<Rightarrow> bool" where
  "copied ev \<longleftrightarrow> (case ev of (WsMsg t m, ok) \<Rightarrow> ok | (WsErr _, ok) \<Rightarrow> False)"

definition msg_of :: "ws_read \<times> bool \<Rightarrow> nat \<times> string" where
  "msg_of ev = (case ev of (WsMsg t m, ok) \<Rightarrow> (t, m) | (WsErr _, ok) \<Rightarrow> normal_close)"

definition last_words :: "(ws_read \<times> bool) list \<Rightarrow> (nat \<times> string) list" where
  "last_words evs = (case evs of (WsErr _, True) # _ \<Rightarrow> [normal_close] | _ \<Rightarrow> [])"

lemma proxyFrames_eq:
  "\<not> wd_done d \<Longrightarrow> proxyFrames evs d =
     \<lparr>wd_written = wd_written d @ map msg_of (takeWhile copied evs) @ last_words (dropWhile copied evs),
      wd_done = (dropWhile copied evs \<noteq> [])\<rparr>"
proof (induction evs arbitrary: d)
  case Nil
  then show ?case by (cases d) (simp add: last_words_def)
next
  case (Cons ev evs)
  obtain r ok where ev: "ev = (r, ok)" by (metis surj_pair)
  show ?case
  proof (cases "copied ev")
    case True
    then obtain t m where "r = WsMsg t m" "ok" using ev by (auto simp: copied_def split: ws_read.splits)
    with Cons.IH [of "d\<lparr>wd_written := wd_written d @ [(t, m)]\<rparr>"] Cons.prems ev True show ?thesis
      by (simp add: frame_round_def msg_of_def Let_def)
  next
    case False
    with ev Cons.prems show ?thesis
      by (cases d) (auto simp: copied_def frame_round_def last_words_def Let_def split: ws_read.splits bool.splits)
  qed
qed

lemma ws_steps_loops:
  assumes "ws_steps evs k k'" "k = (idle_dir, idle_dir)"
  shows "k' = (proxyFrames (lefts evs) idle_dir, proxyFrames (rights evs) idle_dir)"
  using assms
proof (induction rule: ws_steps.induct)
  case (more evs k k1 ev k2)
  then have k1: "k1 = (proxyFrames (lefts evs) idle_dir, proxyFrames (rights evs) idle_dir)" by simp
  from more(2) show ?case unfolding k1
    by (cases ev) (auto simp: proxyFrames_snoc idle_dir_def)
qed simp

text \<open>C31: However the rounds of the two loops interleave, the connection has copied, in each direction
  alone, the messages read before that direction's first failure, in their order with type and
  payload unchanged; and a loop whose read fails ends with one normal close, whatever close code the
  peer had sent.\<close>

theorem ws_copies_each_way:
  assumes "ws_steps evs (idle_dir, idle_dir) (c2b, b2c)"
  shows "wd_written c2b = map msg_of (takeWhile copied (lefts evs)) @ last_words (dropWhile copied (lefts evs))
     \<and> wd_written b2c = map msg_of (takeWhile copied (rights evs)) @ last_words (dropWhile copied (rights evs))
     \<and> (wd_done c2b \<longleftrightarrow> dropWhile copied (lefts evs) \<noteq> []) \<and> (wd_done b2c \<longleftrightarrow> dropWhile copied (rights evs) \<noteq> [])"
proof -
  have "\<not> wd_done idle_dir" "wd_written idle_dir = []" by (simp_all add: idle_dir_def)
  with ws_steps_loops [OF assms refl] show ?thesis by (simp add: proxyFrames_eq)
qed

theorem ws_copies_each_way_witness:
  "wd_written (proxyFrames [(WsMsg 1 ''a'', True), (WsErr (Some 1001), True)] idle_dir) = [(1, ''a''), normal_close]"
proof -
  let ?a = "(WsMsg 1 ''a'', True)" and ?e = "(WsErr (Some 1001), True)" and ?d = idle_dir
  have s: "ws_steps evs k k1 \<Longrightarrow> ws_step ev k1 k2 \<Longrightarrow> evs' = evs @ [ev] \<Longrightarrow> ws_steps evs' k k2" for evs evs' ev k k1 k2
    using ws_steps.more by blast
  have "ws_steps [Inl ?a] (?d, ?d) (frame_round ?a ?d, ?d)" by (rule s [OF none]) (simp_all add: idle_dir_def)
  then have "ws_steps [Inl ?a, Inr ?a] (?d, ?d) (frame_round ?a ?d, frame_round ?a ?d)"
    by (rule s) (simp_all add: idle_dir_def)
  then have "ws_steps [Inl ?a, Inr ?a, Inl ?e] (?d, ?d) (frame_round ?e (frame_round ?a ?d), frame_round ?a ?d)"
    by (rule s) (simp_all add: idle_dir_def frame_round_def)
  moreover have "[Inl ?a, Inr ?a, Inl ?e] = (([] @ [Inl ?a]) @ [Inr ?a]) @ [Inl ?e]" by simp
  ultimately have "wd_written (frame_round ?e (frame_round ?a ?d)) = [(1, ''a''), normal_close]"
    using ws_copies_each_way [of "(([] @ [Inl ?a]) @ [Inr ?a]) @ [Inl ?e]"]
    by (simp only: lefts_simps) (simp add: copied_def msg_of_def last_words_def)
  then show ?thesis by (simp add: idle_dir_def frame_round_def Let_def)
qed

subsection \<open>The handler\<close>

record 'w ws_deps =
  wp_draw :: draw
  wp_parse :: "string \<Rightarrow> url option"
  wp_string :: "url \<Rightarrow> string"
  wp_dial :: "string \<Rightarrow> headers \<Rightarrow> 'w \<Rightarrow> bool \<times> 'w"
  wp_upgrade :: "ctx \<Rightarrow> (int \<times> string) option"
  wp_session :: "'w \<Rightarrow> (ws_read \<times> bool) list \<times> (ws_read \<times> bool) list \<times> 'w"

record 'w ws_state =
  wx_router :: router
  wx_world :: 'w
  wx_dialed :: "(string \<times> headers) list"
  wx_to_backend :: "(nat \<times> string) list"
  wx_to_client :: "(nat \<times> string) list"

definition backend_headers :: "ctx \<Rightarrow> headers" where
  "backend_headers c =
     (let auth = hdr_get (rq_Header c) ''Authorization''
      in if auth \<noteq> [] then hdr_set Map.empty ''Authorization'' auth else Map.empty)"

text \<open>A failing upgrade has written its own response. A context without a token name makes the type
  assertion panic; behind \<open>Auth\<close> there always is one.\<close>

definition ws_connect :: "'w ws_deps \<Rightarrow> string \<Rightarrow> headers \<Rightarrow> 'w ws_state handler" where
  "ws_connect dp wsURL hs s c =
     (case wp_dial dp wsURL hs (wx_world s) of (dialled, w) \<Rightarrow>
        (let s = s\<lparr>wx_world := w, wx_dialed := wx_dialed s @ [(wsURL, hs)]\<rparr>
         in if \<not> dialled then (Some (HTTPError 502 ''backend WebSocket unavailable''), c, s)
            else case wp_upgrade dp c of
              Some (code, text) \<Rightarrow> (None, write_body text (write_header code c), s)
            | None \<Rightarrow>
                if cv_TokenName c = None then (Some (PlainError ''panic''), c, s)
                else (case wp_session dp (wx_world s) of (from_c, from_b, w) \<Rightarrow>
                  (None, c, s\<lparr>wx_world := w,
                     wx_to_backend := wx_to_backend s @ wd_written (proxyFrames from_c idle_dir),
                     wx_to_client := wx_to_client s @ wd_written (proxyFrames from_b idle_dir)\<rparr>))))"

definition ws_Handle :: "'w ws_deps \<Rightarrow> 'w ws_state handler" where
  "ws_Handle dp s c =
     (let path = rq_Path c;
          backend = resolveWSBackend path
      in case router_TargetURL (wp_draw dp) backend (wx_router s) of (targetURL, r) \<Rightarrow>
        (let s = s\<lparr>wx_router := r\<rparr>
         in if targetURL = [] then (Some (HTTPError 502 ''no backend configured for WebSocket''), c, s)
            else case httpToWSURL (wp_parse dp) (wp_string dp) targetURL path of
              None \<Rightarrow> (Some (HTTPError 502 ''backend configuration error''), c, s)
            | Some wsURL \<Rightarrow>
                (let c = c\<lparr>cv_Backend := Some backend\<rparr> in ws_connect dp wsURL (backend_headers c) s c)))"

lemma ws_connect_dials:
  "ws_connect dp u hs s c = (err, c', s') \<Longrightarrow> wx_dialed s' = wx_dialed s @ [(u, hs)]"
  by (auto simp: ws_connect_def Let_def split: prod.splits option.splits if_splits)

lemma resolveWSBackend_rpc: "resolveWSBackend p \<in> {BackendCelestiaNodeRPC, BackendCelestiaAppRPC}"
  by (simp add: resolveWSBackend_def)

lemma ws_serving: "serving (resolveWSBackend p) r = resolveWSBackend p"
  using resolveWSBackend_rpc [of p]
  by (auto simp: serving_def backend_distinct backend_distinct [symmetric] simp del: not_Cons_self2)

text \<open>A WebSocket request dials at most one address: an endpoint configured for the backend of its
  path, under the scheme \<open>ws\<close> or \<open>wss\<close> and the request's path, with the client's
  \<open>Authorization\<close> as the only header.\<close>

theorem ws_dials_configured:
  assumes "router_wf (wx_router s)" "good_draw (wp_draw dp)" "router_AllEndpoints (resolveWSBackend (rq_Path c)) (wx_router s) \<noteq> []"
    "ws_Handle dp s c = (err, c', s')"
  shows "wx_dialed s' = wx_dialed s \<or>
    (\<exists>ep u hs. ep \<in> set (router_AllEndpoints (resolveWSBackend (rq_Path c)) (wx_router s)) \<and> wp_parse dp ep = Some u
       \<and> wx_dialed s' = wx_dialed s @
           [(wp_string dp (u\<lparr>ur_Scheme := (if ur_Scheme u = ''https'' then ''wss'' else ''ws''),
                             ur_Path := (if rq_Path c = [] \<or> rq_Path c = ''/'' then ''/websocket'' else rq_Path c)\<rparr>), hs)]
       \<and> dom hs \<subseteq> {''Authorization''} \<and> hdr_get hs ''Authorization'' = hdr_get (rq_Header c) ''Authorization'')"
proof -
  obtain ep r where t: "router_TargetURL (wp_draw dp) (resolveWSBackend (rq_Path c)) (wx_router s) = (ep, r)" by (metis surj_pair)
  have ep: "ep \<in> set (router_AllEndpoints (resolveWSBackend (rq_Path c)) (wx_router s))"
    using rt.target_member [OF assms(1,2), of "resolveWSBackend (rq_Path c)"] assms(3) t by (simp add: ws_serving)
  define hs where "hs = backend_headers (c\<lparr>cv_Backend := Some (resolveWSBackend (rq_Path c))\<rparr>)"
  have hs: "dom hs \<subseteq> {''Authorization''}" "hdr_get hs ''Authorization'' = hdr_get (rq_Header c) ''Authorization''"
    by (auto simp: hs_def backend_headers_def Let_def hdr_set_def hdr_get_def split: if_splits)
  let ?c = "c\<lparr>cv_Backend := Some (resolveWSBackend (rq_Path c))\<rparr>"
  have eq: "ws_Handle dp s c =
      (if ep = [] then (Some (HTTPError 502 ''no backend configured for WebSocket''), c, s\<lparr>wx_router := r\<rparr>)
       else case httpToWSURL (wp_parse dp) (wp_string dp) ep (rq_Path c) of
         None \<Rightarrow> (Some (HTTPError 502 ''backend configuration error''), c, s\<lparr>wx_router := r\<rparr>)
       | Some wsURL \<Rightarrow> ws_connect dp wsURL hs (s\<lparr>wx_router := r\<rparr>) ?c)"
    using t by (simp add: ws_Handle_def hs_def Let_def split: option.split)
  show ?thesis
  proof (cases "ep = [] \<or> wp_parse dp ep = None")
    case True
    then have "ep = [] \<or> httpToWSURL (wp_parse dp) (wp_string dp) ep (rq_Path c) = None" by (auto simp: httpToWSURL_def)
    then have "wx_dialed s' = wx_dialed s" using assms(4) by (auto simp: eq split: if_splits)
    then show ?thesis by (rule disjI1)
  next
    case False
    then obtain u where u: "wp_parse dp ep = Some u" by blast
    let ?u = "u\<lparr>ur_Scheme := (if ur_Scheme u = ''https'' then ''wss'' else ''ws''),
               ur_Path := (if rq_Path c = [] \<or> rq_Path c = ''/'' then ''/websocket'' else rq_Path c)\<rparr>"
    have "ws_connect dp (wp_string dp ?u) hs (s\<lparr>wx_router := r\<rparr>) ?c = (err, c', s')"
      using assms(4) False u by (simp add: eq httpToWSURL_def Let_def)
    from ws_connect_dials [OF this] have "wx_dialed s' = wx_dialed s @ [(wp_string dp ?u, hs)]" by simp
    with ep u hs show ?thesis by blast
  qed
qed

text \<open>No part of the token but its name matters to a WebSocket: an established connection carries
  every message of the client to the backend, in order and unchanged, whatever the scope and the
  allowlist, and the outcome is the same for every token.\<close>

theorem ws_passes_gate:
  assumes "fst (router_TargetURL (wp_draw dp) (resolveWSBackend (rq_Path c)) (wx_router s)) = ep" "ep \<noteq> []"
    "wp_parse dp ep = Some u" "\<And>a h w. fst (wp_dial dp a h w)" "\<And>c. wp_upgrade dp c = None" "cv_TokenName c \<noteq> None"
    "\<And>w. fst (wp_session dp w) = map (\<lambda>(t, m). (WsMsg t m, True)) msgs @ [(WsErr code, True)]"
    "ws_Handle dp s (c\<lparr>cv_TokenInfo := ti\<rparr>) = (err, c', s')"
  shows "err = None \<and> wx_to_backend s' = wx_to_backend s @ msgs @ [normal_close]"
proof -
  have cp: "takeWhile copied (map (\<lambda>(t, m). (WsMsg t m, True)) msgs @ rest) = map (\<lambda>(t, m). (WsMsg t m, True)) msgs @ takeWhile copied rest"
      "dropWhile copied (map (\<lambda>(t, m). (WsMsg t m, True)) msgs @ rest) = dropWhile copied rest" for rest
    by (induction msgs) (auto simp: copied_def)
  have "wd_written (proxyFrames (map (\<lambda>(t, m). (WsMsg t m, True)) msgs @ [(WsErr code, True)]) idle_dir) = msgs @ [normal_close]"
    by (simp add: proxyFrames_eq idle_dir_def cp) (simp add: copied_def last_words_def msg_of_def o_def split_beta)
  moreover obtain r where "router_TargetURL (wp_draw dp) (resolveWSBackend (rq_Path c)) (wx_router s) = (ep, r)"
    using assms(1) by (metis prod.collapse)
  ultimately show ?thesis using assms(2-8)
    by (auto simp: ws_Handle_def ws_connect_def httpToWSURL_def Let_def split_beta)
qed

text \<open>A backend that accepts every connection; the client sends one message and leaves.\<close>

definition sample_ws :: "unit ws_deps" where
  "sample_ws = \<lparr>wp_draw = steady, wp_parse = (\<lambda>u. Some \<lparr>ur_Scheme = ''http'', ur_Path = [], ur_rest = u\<rparr>),
     wp_string = (\<lambda>u. ur_Scheme u @ ''|'' @ ur_rest u @ ''|'' @ ur_Path u), wp_dial = (\<lambda>u h w. (True, w)),
     wp_upgrade = (\<lambda>c. None), wp_session = (\<lambda>w. ([(WsMsg 1 ''blob.Submit'', True), (WsErr None, True)], [(WsErr None, False)], w))\<rparr>"

definition sample_wx :: "unit ws_state" where
  "sample_wx = \<lparr>wx_router = NewRouter sample_backends, wx_world = (), wx_dialed = [], wx_to_backend = [], wx_to_client = []\<rparr>"

definition sample_ws_ctx :: ctx where
  "sample_ws_ctx = (new_ctx ''/ws'' [] [''Authorization'' \<mapsto> [''Bearer x'']] [] ''ip'')\<lparr>cv_TokenName := Some ''reader''\<rparr>"

lemma sample_ws_pool:
  "resolveWSBackend (rq_Path sample_ws_ctx) = BackendCelestiaNodeRPC"
  "router_AllEndpoints BackendCelestiaNodeRPC (wx_router sample_wx) = [''http://node'']"
  "router_wf (wx_router sample_wx)"
  by (simp_all add: resolveWSBackend_def sample_ws_ctx_def new_ctx_def sample_wx_def sample_backends_def NewRouter_wf)

lemma sample_ws_target: "fst (router_TargetURL (wp_draw sample_ws) (resolveWSBackend (rq_Path sample_ws_ctx)) (wx_router sample_wx)) = ''http://node''"
  using rt.target_member [OF sample_ws_pool(3) steady_draw(1), of BackendCelestiaNodeRPC] ws_serving [of "rq_Path sample_ws_ctx"]
  by (simp add: sample_ws_pool sample_ws_def)

theorem ws_dials_configured_witness:
  "map fst (wx_dialed (snd (snd (ws_Handle sample_ws sample_wx sample_ws_ctx)))) \<in> {[], [''ws|http://node|/ws'']}"
proof -
  obtain err c' s' where h: "ws_Handle sample_ws sample_wx sample_ws_ctx = (err, c', s')" by (metis surj_pair)
  have d: "good_draw (wp_draw sample_ws)" by (simp add: sample_ws_def)
  have ne: "router_AllEndpoints (resolveWSBackend (rq_Path sample_ws_ctx)) (wx_router sample_wx) \<noteq> []"
    by (simp add: sample_ws_pool)
  have p: "rq_Path sample_ws_ctx = ''/ws''" by (simp add: sample_ws_ctx_def new_ctx_def)
  have pool: "router_AllEndpoints (resolveWSBackend ''/ws'') (wx_router sample_wx) = [''http://node'']"
    using sample_ws_pool(1,2) p by simp
  have init: "wx_dialed sample_wx = []" by (simp add: sample_wx_def)
  from ws_dials_configured [OF sample_ws_pool(3) d ne h]
  have "map fst (wx_dialed s') \<in> {[], [''ws|http://node|/ws'']}"
    unfolding p pool init by (auto simp: sample_ws_def)
  then show ?thesis unfolding h by simp
qed

theorem ws_passes_gate_witness:
  "wx_to_backend (snd (snd (ws_Handle sample_ws sample_wx (sample_ws_ctx\<lparr>cv_TokenInfo :=
     Some \<lparr>ti_Name = ''reader'', ti_Enabled = True, ti_RateLimit = 0, ti_Scope = ''read-only'', ti_AllowedMethods = [], ti_ExpiresAt = None\<rparr>\<rparr>))))
   = [(1, ''blob.Submit''), normal_close]"
proof -
  let ?ti = "Some \<lparr>ti_Name = ''reader'', ti_Enabled = True, ti_RateLimit = 0, ti_Scope = ''read-only'', ti_AllowedMethods = [], ti_ExpiresAt = None\<rparr>"
  obtain err c' s' where h: "ws_Handle sample_ws sample_wx (sample_ws_ctx\<lparr>cv_TokenInfo := ?ti\<rparr>) = (err, c', s')" by (metis surj_pair)
  have "wx_to_backend sample_wx = []" by (simp add: sample_wx_def)
  with ws_passes_gate [where msgs = "[(1, ''blob.Submit'')]" and code = None, OF sample_ws_target _ _ _ _ _ _ h]
  show ?thesis unfolding h by (simp add: sample_ws_def sample_ws_ctx_def)
qed

end
