(* ===== verification/BatchWriter.thy ===== *)
theory BatchWriter
  imports LogStore
begin

text \<open>
  The asynchronous writer that \<open>sqliteStore\<close> and \<open>postgresStore\<close> (\<open>internal/logging/store.go\<close>,
  \<open>store_postgres.go\<close>) and \<open>LokiPusher\<close> (\<open>loki.go\<close>) share line by line: requests push entries into a
  channel of 1000, one goroutine collects them into batches of 100 and saves a batch when it is full,
  on every tick, and at shutdown.

  The goroutine's \<open>select\<close> is a choice between events, so a run is a list of events: pushes by any
  request, receives, ticks, the closing of \<open>done\<close>, and the shutdown branch. An event that may flush
  carries what the sink meets then (\<open>'e\<close>). The three sinks are in \<open>LogSinks\<close>; here they are the
  locale \<open>log_sink\<close>.
\<close>

record 'd writer =
  bw_chan :: "log_entry list"
  bw_chan_closed :: bool
  bw_done :: bool
  bw_running :: bool
  bw_batch :: "log_entry list"
  bw_sink :: 'd

definition chan_capacity :: nat where "chan_capacity = 1000"
definition batchSize :: nat where "batchSize = 100"

definition NewWriter :: "'d \<Rightarrow> 'd writer" where
  "NewWriter d = \<lparr>bw_chan = [], bw_chan_closed = False, bw_done = False, bw_running = True, bw_batch = [], bw_sink = d\<rparr>"

text \<open>Opening a store: its database and the goroutine that writes.\<close>

definition NewSQLiteStore :: "db_open \<Rightarrow> 'd \<Rightarrow> 'd writer result" where
  "NewSQLiteStore o1 d =
     (if \<not> do_Open o1 then Inl ''opening sqlite db''
      else if \<not> do_Tables o1 then Inl ''creating tables''
      else Inr (NewWriter d))"

definition NewPostgresStore :: "db_open \<Rightarrow> 'd \<Rightarrow> 'd writer result" where
  "NewPostgresStore o1 d =
     (if \<not> do_Open o1 then Inl ''opening postgres db''
      else if \<not> do_Ping o1 then Inl ''pinging postgres''
      else if \<not> do_Tables o1 then Inl ''creating tables''
      else Inr (NewWriter d))"

datatype 'e event = EvPush log_entry | EvRecv 'e | EvTick 'e | EvClose | EvShutdown 'e

definition flush :: "('e \<Rightarrow> log_entry list \<Rightarrow> 'd \<Rightarrow> 'd) \<Rightarrow> 'e \<Rightarrow> 'd writer \<Rightarrow> 'd writer" where
  "flush save e w =
     (if length (bw_batch w) = 0 then w else w\<lparr>bw_sink := save e (bw_batch w) (bw_sink w), bw_batch := []\<rparr>)"

text \<open>\<open>Push\<close>: a send on a closed channel panics, one on a full channel is dropped.\<close>

definition store_Push :: "log_entry \<Rightarrow> 'd writer \<Rightarrow> 'd writer outcome" where
  "store_Push e w =
     (if bw_chan_closed w then Panic
      else if length (bw_chan w) < chan_capacity then Done (w\<lparr>bw_chan := bw_chan w @ [e]\<rparr>)
      else Done w)"

text \<open>\<open>Close\<close> closes \<open>done\<close>; closing it twice panics.\<close>

definition store_Close :: "'d writer \<Rightarrow> 'd writer outcome" where
  "store_Close w = (if bw_done w then Panic else Done (w\<lparr>bw_done := True\<rparr>))"

definition writer_step :: "('e \<Rightarrow> log_entry list \<Rightarrow> 'd \<Rightarrow> 'd) \<Rightarrow> 'e event \<Rightarrow> 'd writer \<Rightarrow> 'd writer outcome" where
  "writer_step save ev w =
     (case ev of
        EvPush e \<Rightarrow> store_Push e w
      | EvRecv e \<Rightarrow>
          if \<not> bw_running w then Blocked
          else (case bw_chan w of
                  [] \<Rightarrow> Blocked
                | entry # rest \<Rightarrow>
                    (let w' = w\<lparr>bw_chan := rest, bw_batch := bw_batch w @ [entry]\<rparr>
                     in Done (if batchSize \<le> length (bw_batch w') then flush save e w' else w')))
      | EvTick e \<Rightarrow> if bw_running w then Done (flush save e w) else Blocked
      | EvClose \<Rightarrow> store_Close w
      | EvShutdown e \<Rightarrow>
          if bw_running w \<and> bw_done w then
            Done ((flush save e (w\<lparr>bw_chan_closed := True, bw_batch := bw_batch w @ bw_chan w, bw_chan := []\<rparr>))
                    \<lparr>bw_running := False\<rparr>)
          else Blocked)"

text \<open>A run; it ends early on a panic or a blocked event.\<close>

fun writer_run :: "('e \<Rightarrow> log_entry list \<Rightarrow> 'd \<Rightarrow> 'd) \<Rightarrow> 'e event list \<Rightarrow> 'd writer \<Rightarrow> 'd writer outcome" where
  "writer_run save [] w = Done w"
| "writer_run save (ev # evs) w =
     (case writer_step save ev w of Done w' \<Rightarrow> writer_run save evs w' | Blocked \<Rightarrow> Blocked | Panic \<Rightarrow> Panic)"

text \<open>The entries the channel took.\<close>

fun accepted :: "('e \<Rightarrow> log_entry list \<Rightarrow> 'd \<Rightarrow> 'd) \<Rightarrow> 'e event list \<Rightarrow> 'd writer \<Rightarrow> log_entry list" where
  "accepted save [] w = []"
| "accepted save (ev # evs) w =
     (case writer_step save ev w of
        Done w' \<Rightarrow>
          (case ev of EvPush e \<Rightarrow> if length (bw_chan w) < chan_capacity then e # accepted save evs w' else accepted save evs w'
           | _ \<Rightarrow> accepted save evs w')
      | _ \<Rightarrow> [])"

fun env_of :: "'e event \<Rightarrow> 'e option" where
  "env_of (EvRecv e) = Some e"
| "env_of (EvTick e) = Some e"
| "env_of (EvShutdown e) = Some e"
| "env_of _ = None"

definition pushed :: "'e event \<Rightarrow> 'd writer \<Rightarrow> log_entry list" where
  "pushed ev w = (case ev of EvPush e \<Rightarrow> if length (bw_chan w) < chan_capacity then [e] else [] | _ \<Rightarrow> [])"

lemma accepted_Cons:
  "accepted save (ev # evs) w = (case writer_step save ev w of Done w' \<Rightarrow> pushed ev w @ accepted save evs w' | _ \<Rightarrow> [])"
  by (simp add: pushed_def split: event.split outcome.split)

declare accepted.simps(2) [simp del] accepted_Cons [simp]

subsection \<open>The writer alone\<close>

text \<open>The buffers' bounds and what the flags say; no property of the sink is needed.\<close>

definition writer_wf :: "'d writer \<Rightarrow> bool" where
  "writer_wf w \<longleftrightarrow> length (bw_batch w) < batchSize \<and> length (bw_chan w) \<le> chan_capacity
     \<and> (if bw_running w then \<not> bw_chan_closed w else bw_batch w = [] \<and> bw_chan w = [] \<and> bw_chan_closed w \<and> bw_done w)"

lemma flush_frame [simp]:
  "bw_chan (flush save e w) = bw_chan w" "bw_chan_closed (flush save e w) = bw_chan_closed w"
  "bw_done (flush save e w) = bw_done w" "bw_running (flush save e w) = bw_running w" "bw_batch (flush save e w) = []"
  by (simp_all add: flush_def)

lemma NewWriter_wf: "writer_wf (NewWriter d)"
  by (simp add: writer_wf_def NewWriter_def batchSize_def)

lemma writer_step_wf:
  assumes "writer_wf w" "writer_step save ev w = Done w'"
  shows "writer_wf w'"
  using assms
  by (cases ev)
    (auto simp: writer_step_def store_Push_def store_Close_def writer_wf_def Let_def batchSize_def
      split: if_splits list.splits)

lemma writer_run_wf: "writer_wf w \<Longrightarrow> writer_run save evs w = Done w' \<Longrightarrow> writer_wf w'"
  by (induction evs arbitrary: w) (auto split: outcome.splits intro: writer_step_wf)

subsection \<open>Sinks\<close>

text \<open>
  What a sink promises: it keeps its own invariant, a save appends at the end an image of some of the
  batch's entries in their order, and of all of them when nothing fails.
\<close>

locale log_sink =
  fixes save :: "'e \<Rightarrow> log_entry list \<Rightarrow> 'd \<Rightarrow> 'd"
    and ok :: "'d \<Rightarrow> bool"
    and held :: "'d \<Rightarrow> 'v list"
    and image :: "log_entry \<Rightarrow> 'v"
    and healthy :: "'e \<Rightarrow> bool"
  assumes save_ok: "ok d \<Longrightarrow> ok (save e es d)"
    and save_some: "\<exists>kept. subseq kept es \<and> held (save e es d) = held d @ map image kept"
    and save_all: "healthy e \<Longrightarrow> held (save e es d) = held d @ map image es"
begin

lemma step_ok: "ok (bw_sink w) \<Longrightarrow> writer_step save ev w = Done w' \<Longrightarrow> ok (bw_sink w')"
  by (cases ev)
    (auto simp: writer_step_def store_Push_def store_Close_def Let_def flush_def save_ok split: if_splits list.splits)

definition in_flight :: "'d writer \<Rightarrow> 'v list" where
  "in_flight w = held (bw_sink w) @ map image (bw_batch w @ bw_chan w)"

lemma step_all:
  assumes "writer_step save ev w = Done w'" "list_all healthy (case env_of ev of Some e \<Rightarrow> [e] | None \<Rightarrow> [])"
  shows "in_flight w' = in_flight w @ map image (pushed ev w)"
  using assms
  by (cases ev)
    (auto simp: writer_step_def store_Push_def store_Close_def in_flight_def pushed_def Let_def flush_def save_all
      split: if_splits list.splits)

lemma run_all:
  "writer_run save evs w = Done w' \<Longrightarrow> list_all (\<lambda>ev. list_all healthy (case env_of ev of Some e \<Rightarrow> [e] | None \<Rightarrow> [])) evs \<Longrightarrow>
     in_flight w' = in_flight w @ map image (accepted save evs w)"
proof (induction evs arbitrary: w)
  case (Cons ev evs)
  then obtain w1 where s: "writer_step save ev w = Done w1" "writer_run save evs w1 = Done w'"
    by (auto split: outcome.splits)
  from Cons.IH [OF s(2)] step_all [OF s(1)] Cons.prems(2) s show ?case by simp
qed simp

text \<open>With failures: what is held and what is under way come from the accepted entries in order, each
  at most once.\<close>

definition tracks :: "'v list \<Rightarrow> log_entry list \<Rightarrow> 'd writer \<Rightarrow> bool" where
  "tracks before taken w \<longleftrightarrow>
     (\<exists>kept. held (bw_sink w) = before @ map image kept \<and> subseq (kept @ bw_batch w @ bw_chan w) taken)"

lemma tracks_save:
  assumes "held d = before @ map image kept" "subseq (kept @ es @ rest) taken"
  shows "\<exists>kept'. held (save e es d) = before @ map image kept' \<and> subseq (kept' @ rest) taken"
proof -
  obtain k where k: "subseq k es" "held (save e es d) = held d @ map image k" using save_some by blast
  have "subseq (kept @ k @ rest) (kept @ es @ rest)"
    using k(1) by (intro list_emb_append_mono subseq_order.refl) auto
  then have "subseq ((kept @ k) @ rest) taken" using assms(2) subseq_order.trans by force
  with k(2) assms(1) show ?thesis by (intro exI [of _ "kept @ k"]) simp
qed

lemma step_tracks:
  assumes "tracks before taken w" "writer_step save ev w = Done w'"
  shows "tracks before (taken @ pushed ev w) w'"
proof -
  obtain kept where k: "held (bw_sink w) = before @ map image kept" "subseq (kept @ bw_batch w @ bw_chan w) taken"
    using assms(1) by (auto simp: tracks_def)
  show ?thesis
  proof (cases ev)
    case (EvPush e)
    with assms(2) k show ?thesis
      by (auto simp: tracks_def writer_step_def store_Push_def pushed_def split: if_splits intro!: exI [of _ kept])
        (metis append.assoc list_emb_append_mono subseq_order.refl)+
  next
    case (EvRecv e)
    with assms(2) obtain x xs where c: "bw_chan w = x # xs"
      "w' = (let w' = w\<lparr>bw_chan := xs, bw_batch := bw_batch w @ [x]\<rparr>
             in if batchSize \<le> length (bw_batch w') then flush save e w' else w')"
      by (auto simp: writer_step_def Let_def split: if_splits list.splits)
    have "subseq (kept @ (bw_batch w @ [x]) @ xs) taken" using k(2) c(1) by simp
    from tracks_save [OF k(1) this, of e] k this c EvRecv show ?thesis
      by (auto simp: tracks_def pushed_def Let_def flush_def)
  next
    case (EvTick e)
    from tracks_save [OF k, of e] k EvTick assms(2) show ?thesis
      by (auto simp: tracks_def writer_step_def pushed_def flush_def split: if_splits)
  next
    case EvClose
    with assms(2) k show ?thesis by (auto simp: tracks_def writer_step_def store_Close_def pushed_def split: if_splits)
  next
    case (EvShutdown e)
    have "subseq (kept @ (bw_batch w @ bw_chan w) @ []) taken" using k(2) by simp
    from tracks_save [OF k(1) this, of e] k(1) EvShutdown assms(2) k(2) show ?thesis
      by (auto simp: tracks_def writer_step_def pushed_def flush_def split: if_splits)
  qed
qed

lemma run_tracks:
  "tracks before taken w \<Longrightarrow> writer_run save evs w = Done w' \<Longrightarrow> tracks before (taken @ accepted save evs w) w'"
proof (induction evs arbitrary: w taken)
  case (Cons ev evs)
  then obtain w1 where s: "writer_step save ev w = Done w1" "writer_run save evs w1 = Done w'"
    by (auto split: outcome.splits)
  from Cons.IH [OF step_tracks [OF Cons.prems(1) s(1)] s(2)] s(1) show ?case by simp
qed simp

lemma run_ok: "ok (bw_sink w) \<Longrightarrow> writer_run save evs w = Done w' \<Longrightarrow> ok (bw_sink w')"
  by (induction evs arbitrary: w) (auto split: outcome.splits intro: step_ok)

text \<open>The two results a store uses, from its start.\<close>

lemma held_in_order:
  assumes "writer_run save evs (NewWriter d) = Done w" "held d = []"
  shows "\<exists>kept. held (bw_sink w) = map image kept \<and> subseq kept (accepted save evs (NewWriter d))"
proof -
  have "tracks [] [] (NewWriter d)" using assms(2) by (simp add: tracks_def NewWriter_def)
  from run_tracks [OF this assms(1)] obtain kept where
    k: "held (bw_sink w) = map image kept" "subseq (kept @ bw_batch w @ bw_chan w) (accepted save evs (NewWriter d))"
    by (auto simp: tracks_def)
  have "subseq (kept @ []) (kept @ bw_batch w @ bw_chan w)" by (intro list_emb_append_mono) auto
  then have "subseq kept (accepted save evs (NewWriter d))" using k(2) subseq_order.trans by force
  with k(1) show ?thesis by blast
qed

lemma held_all:
  assumes "writer_run save evs (NewWriter d) = Done w" "held d = []"
    "list_all (\<lambda>ev. list_all healthy (case env_of ev of Some e \<Rightarrow> [e] | None \<Rightarrow> [])) evs"
  shows "held (bw_sink w) @ map image (bw_batch w @ bw_chan w) = map image (accepted save evs (NewWriter d))"
  using run_all [OF assms(1,3)] assms(2) by (simp add: in_flight_def NewWriter_def)

end

text \<open>The shutdown branch closes the channel requests push into, so a request still logging after
  it panics: every push after a shutdown is a send on a closed channel.\<close>

theorem push_after_shutdown_panics:
  assumes "writer_run save evs (NewWriter d) = Done w" "\<not> bw_running w"
  shows "store_Push e w = Panic"
  using writer_run_wf [OF NewWriter_wf assms(1)] assms(2)
  by (simp add: store_Push_def writer_wf_def)

theorem push_after_shutdown_panics_witness:
  "writer_run (\<lambda>e es d. d @ es) [EvPush (numbered 1), EvClose, EvShutdown (), EvPush (numbered 2)] (NewWriter []) = Panic"
proof -
  let ?save = "\<lambda>e es d. d @ es" and ?evs = "[EvPush (numbered 1), EvClose, EvShutdown ()]"
  obtain w where w: "writer_run ?save ?evs (NewWriter []) = Done w" "\<not> bw_running w"
    by (simp add: writer_step_def store_Push_def store_Close_def NewWriter_def chan_capacity_def flush_def)
  from push_after_shutdown_panics [OF w, of "numbered 2"] w(1) show ?thesis
    by (auto simp: writer_step_def split: outcome.splits)
qed

end
