(* ===== verification/LogSinks.thy ===== *)
theory LogSinks
  imports BatchWriter Json TokenStore
begin

text \<open>
  What each store does with a batch: \<open>writeBatch\<close> of \<open>internal/logging/store.go\<close> (SQLite),
  \<open>writeBatch\<close> of \<open>store_postgres.go\<close> and \<open>send\<close> of \<open>loki.go\<close>, each an instance of the writer.

  A database is its rows and the next id. What a call meets is a record of flags; PostgreSQL's
  sequence also moves on a failed insert. JSON is written as \<open>encoding/json\<close> writes it; \<open>fmt\<close> is its
  formatting of a float.
\<close>

record log_db =
  ld_rows :: "log_row list"
  ld_next :: int

definition ids_wf :: "log_db \<Rightarrow> bool" where
  "ids_wf d \<longleftrightarrow> sorted_wrt (<) (map fst (ld_rows d)) \<and> list_all (\<lambda>i. i < ld_next d) (map fst (ld_rows d))"

definition insert_row :: "log_entry \<Rightarrow> log_db \<Rightarrow> log_db" where
  "insert_row e d = d\<lparr>ld_rows := ld_rows d @ [(ld_next d, e)], ld_next := ld_next d + 1\<rparr>"

subsection \<open>SQLite\<close>

record sqlite_env =
  se_begin :: bool
  se_prepare :: bool
  se_exec :: "nat \<Rightarrow> bool"
  se_commit :: bool

text \<open>The statements of the loop, each with its own outcome; errors are ignored.\<close>

fun exec_loop :: "(nat \<Rightarrow> bool) \<Rightarrow> nat \<Rightarrow> log_entry list \<Rightarrow> log_db \<Rightarrow> log_db" where
  "exec_loop exec i [] d = d"
| "exec_loop exec i (e # es) d = exec_loop exec (Suc i) es (if exec i then insert_row e d else d)"

definition sqlite_writeBatch :: "sqlite_env \<Rightarrow> log_entry list \<Rightarrow> log_db \<Rightarrow> log_db" where
  "sqlite_writeBatch env entries d =
     (if \<not> se_begin env then d
      else if \<not> se_prepare env then d
      else let d' = exec_loop (se_exec env) 0 entries d in if se_commit env then d' else d)"

definition sqlite_batchWriter :: "sqlite_env event \<Rightarrow> log_db writer \<Rightarrow> log_db writer outcome" where
  "sqlite_batchWriter = writer_step sqlite_writeBatch"

definition sqlite_healthy :: "sqlite_env \<Rightarrow> bool" where
  "sqlite_healthy env \<longleftrightarrow> se_begin env \<and> se_prepare env \<and> se_exec env = (\<lambda>_. True) \<and> se_commit env"

lemma insert_row_wf: "ids_wf d \<Longrightarrow> ids_wf (insert_row e d)"
  by (auto simp: ids_wf_def insert_row_def sorted_wrt_append list_all_iff)

lemma exec_loop_wf: "ids_wf d \<Longrightarrow> ids_wf (exec_loop exec i es d)"
  by (induction es arbitrary: i d) (simp_all add: insert_row_wf)

lemma exec_loop_rows:
  "\<exists>kept. subseq kept es \<and> map snd (ld_rows (exec_loop exec i es d)) = map snd (ld_rows d) @ kept"
proof (induction es arbitrary: i d)
  case (Cons e es)
  from Cons.IH [where i = "Suc i" and d = "if exec i then insert_row e d else d"] obtain kept where
    k: "subseq kept es" "map snd (ld_rows (exec_loop exec i (e # es) d)) = map snd (ld_rows (if exec i then insert_row e d else d)) @ kept"
    by auto
  show ?case
  proof (cases "exec i")
    case True
    with k show ?thesis by (intro exI [of _ "e # kept"]) (simp add: insert_row_def)
  next
    case False
    with k show ?thesis by (intro exI [of _ kept]) (simp add: subseq_order.trans [OF _ list_emb_Cons])
  qed
qed simp

lemma exec_loop_all: "map snd (ld_rows (exec_loop (\<lambda>_. True) i es d)) = map snd (ld_rows d) @ es"
  by (induction es arbitrary: i d) (simp_all add: insert_row_def)

interpretation sqlite: log_sink sqlite_writeBatch ids_wf "\<lambda>d. map snd (ld_rows d)" "\<lambda>e. e" sqlite_healthy
proof
  show "ids_wf d \<Longrightarrow> ids_wf (sqlite_writeBatch env es d)" for d env es
    by (simp add: sqlite_writeBatch_def exec_loop_wf Let_def)
  show "\<exists>kept. subseq kept es \<and> map snd (ld_rows (sqlite_writeBatch env es d)) = map snd (ld_rows d) @ map (\<lambda>e. e) kept" for env es d
    using exec_loop_rows [of es "se_exec env" 0 d] by (auto simp: sqlite_writeBatch_def Let_def)
  show "sqlite_healthy env \<Longrightarrow> map snd (ld_rows (sqlite_writeBatch env es d)) = map snd (ld_rows d) @ map (\<lambda>e. e) es" for env es d
    by (auto simp: sqlite_healthy_def sqlite_writeBatch_def exec_loop_all Let_def)
qed

subsection \<open>PostgreSQL\<close>

definition entry_args :: "log_entry \<Rightarrow> sql_val list" where
  "entry_args e =
     [SqlTime (le_Timestamp e), SqlText (le_RequestID e), SqlText (le_TokenName e), SqlText (le_Method e),
      SqlText (le_Backend e), SqlInt (le_StatusCode e), SqlReal (le_LatencyMs e), SqlInt (le_RequestBytes e),
      SqlInt (le_ResponseBytes e), SqlText (le_ClientIP e), SqlText (le_Error e), SqlText (le_Path e)]"

text \<open>\<open>Fprintf\<close> of the twelve placeholders from \<open>base + 1\<close>.\<close>

definition row_placeholders :: "nat \<Rightarrow> string" where
  "row_placeholders base = ''('' @ join_with '','' (map (\<lambda>k. CHR ''$'' # show_nat (base + k)) [1..<13]) @ '')''"

fun insert_loop :: "nat \<Rightarrow> log_entry list \<Rightarrow> string \<times> sql_val list \<Rightarrow> string \<times> sql_val list" where
  "insert_loop i [] acc = acc"
| "insert_loop i (e # es) (b, args) =
     insert_loop (Suc i) es ((if 0 < i then b @ '', '' else b) @ row_placeholders (i * 12), args @ entry_args e)"

definition insert_into :: string where
  "insert_into = ''INSERT INTO request_logs (timestamp, request_id, token_name, method, backend, status_code, latency_ms, request_bytes, response_bytes, client_ip, error, path) VALUES ''"

definition pg_insert :: "log_entry list \<Rightarrow> string \<times> sql_val list" where
  "pg_insert entries = insert_loop 0 entries (insert_into, [])"

record pg_env =
  pe_exec :: bool
  pe_burn :: nat

text \<open>What the database does with a multi-row insert: a row for each group of twelve arguments.\<close>

definition row_of_args :: "(nat \<Rightarrow> sql_val) \<Rightarrow> log_entry" where
  "row_of_args a =
     (let text = (\<lambda>v. case v of SqlText s \<Rightarrow> s | _ \<Rightarrow> []); num = (\<lambda>v. case v of SqlInt i \<Rightarrow> i | SqlTime i \<Rightarrow> i | _ \<Rightarrow> 0);
          real = (\<lambda>v. case v of SqlReal x \<Rightarrow> x | _ \<Rightarrow> 0)
      in \<lparr>le_Timestamp = num (a 0), le_RequestID = text (a 1), le_TokenName = text (a 2), le_Method = text (a 3),
          le_Backend = text (a 4), le_StatusCode = num (a 5), le_LatencyMs = real (a 6), le_RequestBytes = num (a 7),
          le_ResponseBytes = num (a 8), le_ClientIP = text (a 9), le_Error = text (a 10), le_Path = text (a 11)\<rparr>)"

definition rows_of_args :: "sql_val list \<Rightarrow> log_entry list" where
  "rows_of_args args = map (\<lambda>r. row_of_args (\<lambda>k. args ! (12 * r + k))) [0..<length args div 12]"

definition pg_writeBatch :: "pg_env \<Rightarrow> log_entry list \<Rightarrow> log_db \<Rightarrow> log_db" where
  "pg_writeBatch env entries d =
     (if length entries = 0 then d
      else case pg_insert entries of (query, args) \<Rightarrow>
        if pe_exec env then fold insert_row (rows_of_args args) d
        else d\<lparr>ld_next := ld_next d + int (pe_burn env)\<rparr>)"

definition pg_batchWriter :: "pg_env event \<Rightarrow> log_db writer \<Rightarrow> log_db writer outcome" where
  "pg_batchWriter = writer_step pg_writeBatch"

lemma entry_args_length [simp]: "length (entry_args e) = 12"
  by (simp add: entry_args_def)

lemma insert_loop_eq:
  "insert_loop i es (b, args) =
     (b @ concat (map (\<lambda>j. (if 0 < j then '', '' else []) @ row_placeholders (j * 12)) [i..<i + length es]),
      args @ concat (map entry_args es))"
proof (induction es arbitrary: i b args)
  case (Cons e es)
  have "[i..<i + length (e # es)] = i # [Suc i..<Suc i + length es]"
    using upt_rec [of i "i + length (e # es)"] by simp
  with Cons.IH show ?case by simp
qed simp

lemma concat_args_nth: "r < length es \<Longrightarrow> k < 12 \<Longrightarrow> concat (map entry_args es) ! (12 * r + k) = entry_args (es ! r) ! k"
proof (induction es arbitrary: r)
  case (Cons e es)
  show ?case
  proof (cases r)
    case 0
    with Cons.prems show ?thesis by (simp add: nth_append)
  next
    case (Suc r')
    with Cons show ?thesis by (simp add: nth_append)
  qed
qed simp

lemma concat_args_length: "length (concat (map entry_args es)) = 12 * length es"
  by (induction es) simp_all

lemma row_of_entry_args: "row_of_args (\<lambda>k. entry_args e ! k) = e"
  by (simp add: row_of_args_def entry_args_def Let_def)

lemma row_of_args_cong: "(\<And>k. k < 12 \<Longrightarrow> a k = a' k) \<Longrightarrow> row_of_args a = row_of_args a'"
  by (simp add: row_of_args_def)

lemma rows_of_insert: "rows_of_args (snd (pg_insert es)) = es"
proof -
  have "rows_of_args (concat (map entry_args es)) = es"
  proof (rule nth_equalityI)
    show "length (rows_of_args (concat (map entry_args es))) = length es"
      by (simp add: rows_of_args_def concat_args_length)
    fix r assume "r < length (rows_of_args (concat (map entry_args es)))"
    then have r: "r < length es" by (simp add: rows_of_args_def concat_args_length)
    have "row_of_args (\<lambda>k. concat (map entry_args es) ! (12 * r + k)) = row_of_args (\<lambda>k. entry_args (es ! r) ! k)"
      by (rule row_of_args_cong) (simp add: concat_args_nth r)
    then show "rows_of_args (concat (map entry_args es)) ! r = es ! r"
      using r by (simp add: rows_of_args_def concat_args_length row_of_entry_args)
  qed
  then show ?thesis by (simp add: pg_insert_def insert_loop_eq)
qed

lemma fold_insert_rows: "map snd (ld_rows (fold insert_row es d)) = map snd (ld_rows d) @ es"
  by (induction es arbitrary: d) (simp_all add: insert_row_def)

lemma fold_insert_wf: "ids_wf d \<Longrightarrow> ids_wf (fold insert_row es d)"
  by (induction es arbitrary: d) (simp_all add: insert_row_wf)

lemma pg_writeBatch_eq:
  "pg_writeBatch env es d =
     (if es = [] then d else if pe_exec env then fold insert_row es d else d\<lparr>ld_next := ld_next d + int (pe_burn env)\<rparr>)"
  using rows_of_insert [of es] by (simp add: pg_writeBatch_def split_beta)

interpretation pg: log_sink pg_writeBatch ids_wf "\<lambda>d. map snd (ld_rows d)" "\<lambda>e. e" pe_exec
proof
  show "ids_wf d \<Longrightarrow> ids_wf (pg_writeBatch env es d)" for d env es
    by (auto simp: pg_writeBatch_eq fold_insert_wf) (auto simp: ids_wf_def list_all_iff)
  show "\<exists>kept. subseq kept es \<and> map snd (ld_rows (pg_writeBatch env es d)) = map snd (ld_rows d) @ map (\<lambda>e. e) kept" for env es d
    by (cases "pe_exec env") (auto simp: pg_writeBatch_eq fold_insert_rows intro!: exI [of _ es] exI [of _ "[]"])
  show "pe_exec env \<Longrightarrow> map snd (ld_rows (pg_writeBatch env es d)) = map snd (ld_rows d) @ map (\<lambda>e. e) es" for env es d
    by (simp add: pg_writeBatch_eq fold_insert_rows)
qed

subsection \<open>Loki\<close>

text \<open>A JSON string as \<open>encoding/json\<close> writes it, with HTML escaping.\<close>

definition u_escape :: "nat \<Rightarrow> string" where
  "u_escape n = [CHR 0x5C, CHR ''u'', hex_digit (n div 4096 mod 16), hex_digit (n div 256 mod 16), hex_digit (n div 16 mod 16), hex_digit (n mod 16)]"

definition escape_byte :: "char \<Rightarrow> string" where
  "escape_byte c =
     (if c = CHR 0x22 \<or> c = CHR 0x5C then [CHR 0x5C, c]
      else if c = CHR 0x08 then [CHR 0x5C, CHR ''b''] else if c = CHR 0x0C then [CHR 0x5C, CHR ''f'']
      else if c = CHR 0x0A then [CHR 0x5C, CHR ''n''] else if c = CHR 0x0D then [CHR 0x5C, CHR ''r'']
      else if c = CHR 0x09 then [CHR 0x5C, CHR ''t'']
      else if (of_char c :: nat) < 32 \<or> c = CHR ''<'' \<or> c = CHR ''>'' \<or> c = CHR ''&'' then u_escape (of_char c)
      else [c])"

function escape_string :: "string \<Rightarrow> string" where
  "escape_string s =
     (case s of
        [] \<Rightarrow> []
      | c # cs \<Rightarrow>
          if (of_char c :: nat) < 128 then escape_byte c @ escape_string cs
          else (case utf8_len s of
                  None \<Rightarrow> u_escape 65533 @ escape_string cs
                | Some n \<Rightarrow>
                    (if take n s = [CHR 0xE2, CHR 0x80, CHR 0xA8] then u_escape 8232
                     else if take n s = [CHR 0xE2, CHR 0x80, CHR 0xA9] then u_escape 8233 else take n s)
                    @ escape_string (drop (max 1 n) s)))"
  by pat_completeness auto
termination by (relation "measure length") auto

declare escape_string.simps [simp del]

definition json_string :: "string \<Rightarrow> string" where
  "json_string s = [CHR 0x22] @ escape_string s @ [CHR 0x22]"

text \<open>The fields of a line, in the order \<open>encoding/json\<close> gives the keys of a map.\<close>

definition line_fields :: "(f64 \<Rightarrow> string) \<Rightarrow> log_entry \<Rightarrow> (string \<times> string) list" where
  "line_fields fmt e =
     [(''backend'', json_string (le_Backend e)), (''client_ip'', json_string (le_ClientIP e)),
      (''error'', json_string (le_Error e)), (''latency_ms'', fmt (le_LatencyMs e)),
      (''method'', json_string (le_Method e)), (''path'', json_string (le_Path e)),
      (''request_bytes'', show_int (le_RequestBytes e)), (''request_id'', json_string (le_RequestID e)),
      (''response_bytes'', show_int (le_ResponseBytes e)), (''status_code'', show_int (le_StatusCode e)),
      (''token_name'', json_string (le_TokenName e))]"

definition json_object :: "(string \<times> string) list \<Rightarrow> string" where
  "json_object fs = [CHR 0x7B] @ join_with '','' (map (\<lambda>(k, v). json_string k @ '':'' @ v) fs) @ [CHR 0x7D]"

definition json_array :: "string list \<Rightarrow> string" where
  "json_array vs = ''['' @ join_with '','' vs @ '']''"

definition loki_value :: "(f64 \<Rightarrow> string) \<Rightarrow> log_entry \<Rightarrow> string \<times> string" where
  "loki_value fmt e = (show_int (le_Timestamp e), json_object (line_fields fmt e))"

definition loki_body :: "(string \<times> string) list \<Rightarrow> string" where
  "loki_body values =
     json_object [(''streams'', json_array [json_object
       [(''stream'', json_object [(''app'', json_string ''da-proxy'')]),
        (''values'', json_array (map (\<lambda>(ts, line). json_array [json_string ts, json_string line]) values))]])]"

text \<open>A push: what it carries and the body it is sent as.\<close>

record loki_push =
  lp_values :: "(string \<times> string) list"
  lp_body :: string

record loki_env =
  ke_request :: bool
  ke_arrives :: bool

definition loki_send :: "(f64 \<Rightarrow> string) \<Rightarrow> loki_env \<Rightarrow> log_entry list \<Rightarrow> loki_push list \<Rightarrow> loki_push list" where
  "loki_send fmt env entries received =
     (let values = map (loki_value fmt) entries;
          body = loki_body values
      in if \<not> ke_request env then received
         else if \<not> ke_arrives env then received
         else received @ [\<lparr>lp_values = values, lp_body = body\<rparr>])"

definition loki_batchLoop :: "(f64 \<Rightarrow> string) \<Rightarrow> loki_env event \<Rightarrow> loki_push list writer \<Rightarrow> loki_push list writer outcome" where
  "loki_batchLoop fmt = writer_step (loki_send fmt)"

definition loki_healthy :: "loki_env \<Rightarrow> bool" where
  "loki_healthy env \<longleftrightarrow> ke_request env \<and> ke_arrives env"

definition loki_ok :: "loki_push list \<Rightarrow> bool" where
  "loki_ok = list_all (\<lambda>p. lp_body p = loki_body (lp_values p))"

interpretation loki: log_sink "loki_send fmt" loki_ok "\<lambda>ps. concat (map lp_values ps)" "loki_value fmt" loki_healthy for fmt
proof
  show "\<exists>kept. subseq kept es \<and> concat (map lp_values (loki_send fmt env es d)) = concat (map lp_values d) @ map (loki_value fmt) kept" for env es d
    by (rule exI [of _ "if loki_healthy env then es else []"]) (auto simp: loki_send_def loki_healthy_def Let_def)
qed (auto simp: loki_send_def loki_ok_def loki_healthy_def Let_def)

subsection \<open>The three writers\<close>

lemma healthy_envs:
  "list_all (\<lambda>ev. list_all h (case env_of ev of Some e \<Rightarrow> [e] | None \<Rightarrow> [])) evs \<longleftrightarrow> (\<forall>ev \<in> set evs. \<forall>e. env_of ev = Some e \<longrightarrow> h e)"
  by (auto simp: list_all_iff split: option.splits)

definition healthy_run :: "('e \<Rightarrow> bool) \<Rightarrow> 'e event list \<Rightarrow> bool" where
  "healthy_run h evs \<longleftrightarrow> list_all (\<lambda>ev. list_all h (case env_of ev of Some e \<Rightarrow> [e] | None \<Rightarrow> [])) evs"

definition empty_db :: log_db where "empty_db = \<lparr>ld_rows = [], ld_next = 1\<rparr>"

lemma empty_db_wf: "ids_wf empty_db" "ld_rows empty_db = []"
  by (simp_all add: ids_wf_def empty_db_def)

definition sample_events :: "'e \<Rightarrow> 'e \<Rightarrow> 'e event list" where
  "sample_events e1 e2 = [EvPush (numbered 1), EvRecv e1, EvPush (numbered 2), EvTick e1, EvClose, EvShutdown e2]"

definition good_sqlite :: sqlite_env where
  "good_sqlite = \<lparr>se_begin = True, se_prepare = True, se_exec = (\<lambda>_. True), se_commit = True\<rparr>"

lemma sample_run:
  "writer_run save (sample_events e1 e2) (NewWriter d) =
     Done \<lparr>bw_chan = [], bw_chan_closed = True, bw_done = True, bw_running = False, bw_batch = [],
       bw_sink = save e2 [numbered 2] (save e1 [numbered 1] d)\<rparr>"
  "accepted save (sample_events e1 e2) (NewWriter d) = [numbered 1, numbered 2]"
  by (simp_all add: sample_events_def writer_step_def store_Push_def store_Close_def NewWriter_def chan_capacity_def batchSize_def
      Let_def flush_def pushed_def)

text \<open>C11: When nothing fails no accepted entry is lost, repeated or reordered by any of the three
  stores: at every moment what the store holds, the open batch and the channel are together the
  accepted entries in order; and once its writer has shut down the store holds every accepted entry.\<close>

theorem no_accepted_entry_lost:
  assumes "writer_run sqlite_writeBatch evs (NewWriter empty_db) = Done w" "healthy_run sqlite_healthy evs"
    "writer_run pg_writeBatch pevs (NewWriter empty_db) = Done pw" "healthy_run pe_exec pevs"
    "writer_run (loki_send fmt) kevs (NewWriter []) = Done kw" "healthy_run loki_healthy kevs"
  shows "map snd (ld_rows (bw_sink w)) @ bw_batch w @ bw_chan w = accepted sqlite_writeBatch evs (NewWriter empty_db)
     \<and> map snd (ld_rows (bw_sink pw)) @ bw_batch pw @ bw_chan pw = accepted pg_writeBatch pevs (NewWriter empty_db)
     \<and> concat (map lp_values (bw_sink kw)) @ map (loki_value fmt) (bw_batch kw @ bw_chan kw)
         = map (loki_value fmt) (accepted (loki_send fmt) kevs (NewWriter []))
     \<and> (bw_running w \<or> bw_batch w @ bw_chan w = []) \<and> (bw_running pw \<or> bw_batch pw @ bw_chan pw = [])
     \<and> (bw_running kw \<or> bw_batch kw @ bw_chan kw = [])"
proof -
  note wf = writer_run_wf [OF NewWriter_wf assms(1)] writer_run_wf [OF NewWriter_wf assms(3)] writer_run_wf [OF NewWriter_wf assms(5)]
  then have "bw_running w \<or> bw_batch w @ bw_chan w = []" "bw_running pw \<or> bw_batch pw @ bw_chan pw = []"
      "bw_running kw \<or> bw_batch kw @ bw_chan kw = []"
    by (simp_all only: writer_wf_def split: if_splits) simp_all
  then show ?thesis
    using sqlite.held_all [OF assms(1) _ assms(2) [unfolded healthy_run_def]]
      pg.held_all [OF assms(3) _ assms(4) [unfolded healthy_run_def]]
      loki.held_all [OF assms(5) _ assms(6) [unfolded healthy_run_def]]
    by (simp add: empty_db_wf)
qed

theorem no_accepted_entry_lost_witness:
  "map snd (ld_rows (sqlite_writeBatch good_sqlite [numbered 2] (sqlite_writeBatch good_sqlite [numbered 1] empty_db))) = [numbered 1, numbered 2]"
proof -
  have "healthy_run sqlite_healthy (sample_events good_sqlite good_sqlite)"
    by (simp add: healthy_run_def sample_events_def sqlite_healthy_def good_sqlite_def)
  moreover have "healthy_run pe_exec (sample_events \<lparr>pe_exec = True, pe_burn = 0\<rparr> \<lparr>pe_exec = True, pe_burn = 0\<rparr>)"
    by (simp add: healthy_run_def sample_events_def)
  moreover have "healthy_run loki_healthy (sample_events \<lparr>ke_request = True, ke_arrives = True\<rparr> \<lparr>ke_request = True, ke_arrives = True\<rparr>)"
    by (simp add: healthy_run_def sample_events_def loki_healthy_def)
  ultimately show ?thesis
    using no_accepted_entry_lost [OF sample_run(1) _ sample_run(1) _ sample_run(1), of good_sqlite good_sqlite
        "\<lparr>pe_exec = True, pe_burn = 0\<rparr>" "\<lparr>pe_exec = True, pe_burn = 0\<rparr>"
        "\<lparr>ke_request = True, ke_arrives = True\<rparr>" "\<lparr>ke_request = True, ke_arrives = True\<rparr>" "\<lambda>_. ''0''"]
    by (simp add: sample_run(2))
qed

text \<open>Whatever fails in whatever order, a store never invents, repeats or reorders an entry: the
  rows of both databases are accepted entries in the order of acceptance, each at most once, under
  strictly increasing ids; the buffers stay within 100 and 1000 entries.\<close>

theorem rows_are_accepted_entries:
  assumes "writer_run sqlite_writeBatch evs (NewWriter empty_db) = Done w"
    "writer_run pg_writeBatch pevs (NewWriter empty_db) = Done pw"
  shows "subseq (map snd (ld_rows (bw_sink w))) (accepted sqlite_writeBatch evs (NewWriter empty_db))
     \<and> subseq (map snd (ld_rows (bw_sink pw))) (accepted pg_writeBatch pevs (NewWriter empty_db))
     \<and> sorted_wrt (<) (map fst (ld_rows (bw_sink w))) \<and> sorted_wrt (<) (map fst (ld_rows (bw_sink pw)))
     \<and> length (bw_batch w) < 100 \<and> length (bw_chan w) \<le> 1000"
proof -
  have "ids_wf (bw_sink w)" "ids_wf (bw_sink pw)"
    by (rule sqlite.run_ok [OF _ assms(1)] pg.run_ok [OF _ assms(2)], simp add: NewWriter_def empty_db_wf)+
  moreover obtain k pk where
    "map snd (ld_rows (bw_sink w)) = k" "subseq k (accepted sqlite_writeBatch evs (NewWriter empty_db))"
    "map snd (ld_rows (bw_sink pw)) = pk" "subseq pk (accepted pg_writeBatch pevs (NewWriter empty_db))"
    using sqlite.held_in_order [OF assms(1)] pg.held_in_order [OF assms(2)] by (auto simp: empty_db_wf)
  moreover have "length (bw_batch w) < 100" "length (bw_chan w) \<le> 1000"
    using writer_run_wf [OF NewWriter_wf assms(1)] by (simp_all add: writer_wf_def batchSize_def chan_capacity_def)
  ultimately show ?thesis by (simp add: ids_wf_def)
qed

theorem rows_are_accepted_entries_witness:
  "subseq (map snd (ld_rows (pg_writeBatch \<lparr>pe_exec = True, pe_burn = 0\<rparr> [numbered 2]
     (pg_writeBatch \<lparr>pe_exec = False, pe_burn = 3\<rparr> [numbered 1] empty_db)))) [numbered 1, numbered 2]"
  using rows_are_accepted_entries [OF sample_run(1) sample_run(1), of good_sqlite good_sqlite
      "\<lparr>pe_exec = True, pe_burn = 0\<rparr>" "\<lparr>pe_exec = False, pe_burn = 3\<rparr>"]
  by (simp add: sample_run(2))

text \<open>The multi-row insert numbers its placeholders from 1 without a gap and each stands for the
  argument at its place: row \<open>r\<close>'s column \<open>k\<close> is placeholder \<open>12 r + k + 1\<close> and that argument is the
  column's value, so the rows inserted are the batch.\<close>

theorem pg_insert_places:
  "pg_insert es =
     (insert_into @ concat (map (\<lambda>r. (if 0 < r then '', '' else []) @ ''('' @
        join_with '','' (map (\<lambda>k. CHR ''$'' # show_nat (12 * r + k)) [1..<13]) @ '')'') [0..<length es]),
      concat (map entry_args es))
   \<and> length (snd (pg_insert es)) = 12 * length es
   \<and> list_all (\<lambda>r. list_all (\<lambda>k. snd (pg_insert es) ! (12 * r + k) = entry_args (es ! r) ! k) [0..<12]) [0..<length es]
   \<and> rows_of_args (snd (pg_insert es)) = es"
  using rows_of_insert [of es]
  by (auto simp: pg_insert_def insert_loop_eq concat_args_nth concat_args_length row_placeholders_def mult.commute [of _ "12 :: nat"] list_all_iff)

end
