(* ===== verification/Health.thy ===== *)
theory Health
  imports Router
begin

text \<open>
  \<open>internal/proxy/health.go\<close>: the probes of all endpoints, the status map they fill and the polling of
  the head height. The three ways out (GET, POST, TCP dial) are parameters that also give the time
  they took; an answer is a status code and a body, or the text of an error. Log lines on a change of
  state are kept in \<open>hk_log\<close>.
\<close>

record health_status =
  hc_Backend :: string
  hc_Healthy :: bool
  hc_LatencyMs :: f64
  hc_Error :: string
  hc_LastCheck :: int

record 'w prober =
  pr_get :: "string \<Rightarrow> 'w \<Rightarrow> (string + int \<times> string) \<times> int \<times> 'w"
  pr_post :: "string \<Rightarrow> string \<Rightarrow> 'w \<Rightarrow> (string + int \<times> string) \<times> int \<times> 'w"
  pr_dial :: "string \<Rightarrow> 'w \<Rightarrow> string option \<times> int \<times> 'w"
  pr_now :: "'w \<Rightarrow> int"

datatype health_event = Recovered string | Down string string | Unreachable string string

record health_metrics =
  hm_BackendUp :: "string \<rightharpoonup> f64"
  hm_HealthDuration :: "string \<rightharpoonup> f64"

record 'w health_checker =
  hk_backends :: backends_config
  hk_tracker :: "height_tracker option"
  hk_statuses :: "string \<rightharpoonup> health_status"
  hk_metrics :: "health_metrics option"
  hk_log :: "health_event list"
  hk_world :: 'w

definition NewHealthChecker :: "backends_config \<Rightarrow> health_metrics option \<Rightarrow> height_tracker list \<Rightarrow> 'w \<Rightarrow> 'w health_checker" where
  "NewHealthChecker backends m ht w =
     \<lparr>hk_backends = backends, hk_tracker = (case ht of [] \<Rightarrow> None | t # _ \<Rightarrow> Some t), hk_statuses = Map.empty,
      hk_metrics = m, hk_log = [], hk_world = w\<rparr>"

definition health_Status :: "'w health_checker \<Rightarrow> string \<rightharpoonup> health_status" where
  "health_Status h = hk_statuses h"

definition endpointName :: "string \<Rightarrow> nat \<Rightarrow> nat \<Rightarrow> string" where
  "endpointName base idx n = (if n \<le> 1 then base else base @ ''/'' @ show_nat idx)"

subsection \<open>Probes\<close>

definition unhealthy :: "int \<Rightarrow> string \<Rightarrow> health_status" where
  "unhealthy elapsed err =
     \<lparr>hc_Backend = [], hc_Healthy = False, hc_LatencyMs = sample_ms elapsed, hc_Error = err, hc_LastCheck = 0\<rparr>"

definition healthy :: "int \<Rightarrow> health_status" where
  "healthy elapsed =
     \<lparr>hc_Backend = [], hc_Healthy = True, hc_LatencyMs = sample_ms elapsed, hc_Error = [], hc_LastCheck = 0\<rparr>"

definition checkHTTP :: "'w prober \<Rightarrow> string \<Rightarrow> string \<Rightarrow> 'w \<Rightarrow> health_status \<times> 'w" where
  "checkHTTP p baseURL path w =
     (case pr_get p (baseURL @ path) w of
        (Inl err, elapsed, w') \<Rightarrow> (unhealthy elapsed err, w')
      | (Inr (code, body), elapsed, w') \<Rightarrow>
          (if 200 \<le> code \<and> code < 400 then healthy elapsed else unhealthy elapsed (''HTTP '' @ show_int code), w'))"

text \<open>Decoding into a struct whose \<open>error\<close> field is a pointer: whether it ends up set, and whether a
  type error was met.\<close>

definition decode_error_ptr :: "json \<Rightarrow> bool \<times> bool" where
  "decode_error_ptr v =
     (case v of
        JNull \<Rightarrow> (False, False)
      | JObj ms \<Rightarrow> (foldl (\<lambda>acc (k, raw, w). if fold_name k = ''error'' then w \<noteq> JNull else acc) False ms, False)
      | _ \<Rightarrow> (False, True))"

definition info_request :: string where
  "info_request = render (VObj [(''jsonrpc'', VStr ''2.0''), (''id'', VInt 1), (''method'', VStr ''node.Info''), (''params'', VArr [])])"

definition checkJSONRPC :: "'w prober \<Rightarrow> string \<Rightarrow> 'w \<Rightarrow> health_status \<times> 'w" where
  "checkJSONRPC p baseURL w =
     (case pr_post p baseURL info_request w of
        (Inl err, elapsed, w') \<Rightarrow> (unhealthy elapsed err, w')
      | (Inr (code, body), elapsed, w') \<Rightarrow>
          (if code \<noteq> 200 then unhealthy elapsed (''HTTP '' @ show_int code)
           else case json_parse_first body of
             None \<Rightarrow> unhealthy elapsed ''invalid JSON response''
           | Some (v, rest) \<Rightarrow>
               (case decode_error_ptr v of
                  (_, True) \<Rightarrow> unhealthy elapsed ''invalid JSON response''
                | (True, False) \<Rightarrow> unhealthy elapsed ''JSON-RPC error''
                | (False, False) \<Rightarrow> healthy elapsed), w'))"

definition checkTCPDial :: "'w prober \<Rightarrow> string \<Rightarrow> 'w \<Rightarrow> health_status \<times> 'w" where
  "checkTCPDial p addr w =
     (let addr = trim_prefix addr ''http://'';
          addr = trim_prefix addr ''https://''
      in case pr_dial p addr w of
           (Some err, elapsed, w') \<Rightarrow> (unhealthy elapsed err, w')
         | (None, elapsed, w') \<Rightarrow> (healthy elapsed, w'))"

subsection \<open>One round\<close>

text \<open>The closures of the check list.\<close>

datatype probe = ProbeHTTP string | ProbeJSONRPC string | ProbeTCP string

definition run_probe :: "'w prober \<Rightarrow> probe \<Rightarrow> 'w \<Rightarrow> health_status \<times> 'w" where
  "run_probe p pb w =
     (case pb of ProbeHTTP e \<Rightarrow> checkHTTP p e ''/health'' w | ProbeJSONRPC e \<Rightarrow> checkJSONRPC p e w | ProbeTCP e \<Rightarrow> checkTCPDial p e w)"

definition pool_checks :: "string \<Rightarrow> (string \<Rightarrow> probe) \<Rightarrow> endpoints \<Rightarrow> (string \<times> probe) list" where
  "pool_checks base pb eps = map (\<lambda>(i, e). (endpointName base i (length eps), pb e)) (enumerate 0 eps)"

definition checks_of :: "backends_config \<Rightarrow> (string \<times> probe) list" where
  "checks_of b =
     pool_checks ''celestia-app-rpc'' ProbeHTTP (CelestiaAppRPC b)
     @ pool_checks ''celestia-node-rpc'' ProbeJSONRPC (CelestiaNodeRPC b)
     @ pool_checks ''celestia-node-archival-rpc'' ProbeJSONRPC (CelestiaNodeArchivalRPC b)
     @ pool_checks ''celestia-app-archival-rpc'' ProbeHTTP (CelestiaAppArchivalRPC b)
     @ pool_checks ''celestia-app-grpc'' ProbeTCP (CelestiaAppGRPC b)
     @ pool_checks ''celestia-app-p2p'' ProbeTCP (CelestiaAppP2P b)"

definition set_health_metrics :: "string \<Rightarrow> health_status \<Rightarrow> health_metrics option \<Rightarrow> health_metrics option" where
  "set_health_metrics name st m =
     map_option (\<lambda>m. m\<lparr>hm_BackendUp := (hm_BackendUp m)(name \<mapsto> (if hc_Healthy st then 1 else 0)),
                      hm_HealthDuration := (hm_HealthDuration m)(name \<mapsto> f64_div (hc_LatencyMs st) 1000)\<rparr>) m"

definition state_change :: "string \<Rightarrow> health_status option \<Rightarrow> health_status \<Rightarrow> health_event list" where
  "state_change name prev st =
     (case prev of
        Some p \<Rightarrow>
          if hc_Healthy p \<noteq> hc_Healthy st then (if hc_Healthy st then [Recovered name] else [Down name (hc_Error st)]) else []
      | None \<Rightarrow> if \<not> hc_Healthy st then [Unreachable name (hc_Error st)] else [])"

definition run_check :: "'w prober \<Rightarrow> string \<times> probe \<Rightarrow> 'w health_checker \<Rightarrow> 'w health_checker" where
  "run_check p chk h =
     (case run_probe p (snd chk) (hk_world h) of (st, w) \<Rightarrow>
        (let st = st\<lparr>hc_Backend := fst chk, hc_LastCheck := pr_now p w\<rparr>;
             prev = hk_statuses h (fst chk)
         in h\<lparr>hk_world := w, hk_statuses := (hk_statuses h)(fst chk \<mapsto> st),
              hk_metrics := set_health_metrics (fst chk) st (hk_metrics h),
              hk_log := hk_log h @ state_change (fst chk) prev st\<rparr>))"

subsection \<open>The head height\<close>

text \<open>Decoding into nested structs down to a string field: the text and whether a type error was met.\<close>

fun decode_path :: "string list \<Rightarrow> json \<Rightarrow> string \<times> bool \<Rightarrow> string \<times> bool" where
  "decode_path [] v acc = (case v of JStr t \<Rightarrow> (t, snd acc) | JNull \<Rightarrow> acc | _ \<Rightarrow> (fst acc, True))"
| "decode_path (k # ks) v acc =
     (case v of
        JNull \<Rightarrow> acc
      | JObj ms \<Rightarrow> foldl (\<lambda>acc (k', raw, w). if fold_name k' = k then decode_path ks w acc else acc) acc ms
      | _ \<Rightarrow> (fst acc, True))"

text \<open>\<open>Sscanf\<close> with \<open>%d\<close>: leading blanks but no newline, a sign, digits within 64 bits; the rest is not read.\<close>

definition sscanf_d :: "string \<Rightarrow> int option" where
  "sscanf_d s =
     (let t = trim_left s;
          blanks = take (length s - length t) s;
          (sign, u) = (case t of c # cs \<Rightarrow> if c = CHR ''+'' \<or> c = CHR ''-'' then ([c], cs) else ([], t) | [] \<Rightarrow> ([], []));
          ds = takeWhile is_digit u
      in if CHR 0x0A \<in> set blanks then None else if ds = [] then None else parse_int_opt (sign @ ds))"

definition status_request :: string where
  "status_request = render (VObj [(''jsonrpc'', VStr ''2.0''), (''id'', VInt 1), (''method'', VStr ''status''), (''params'', VArr [])])"

definition head_in :: "string \<Rightarrow> int option" where
  "head_in body =
     (case json_parse_first body of
        None \<Rightarrow> None
      | Some (v, rest) \<Rightarrow>
          (case decode_path [''result'', ''sync_info'', ''latest_block_height''] v ([], False) of
             (text, True) \<Rightarrow> None
           | (text, False) \<Rightarrow>
               if text \<noteq> [] then
                 (case sscanf_d text of None \<Rightarrow> None | Some height \<Rightarrow> if 0 < height then Some height else None)
               else None))"

definition pollHeadHeight :: "'w prober \<Rightarrow> 'w health_checker \<Rightarrow> 'w health_checker" where
  "pollHeadHeight p h =
     (case pr_post p (endpoints_First (CelestiaAppRPC (hk_backends h))) status_request (hk_world h) of
        (Inl err, elapsed, w) \<Rightarrow> h\<lparr>hk_world := w\<rparr>
      | (Inr (code, body), elapsed, w) \<Rightarrow>
          (case head_in body of
             None \<Rightarrow> h\<lparr>hk_world := w\<rparr>
           | Some height \<Rightarrow> h\<lparr>hk_world := w, hk_tracker := map_option (SetHead height) (hk_tracker h)\<rparr>))"

definition checkAll :: "'w prober \<Rightarrow> 'w health_checker \<Rightarrow> 'w health_checker" where
  "checkAll p h =
     (let h = fold (run_check p) (checks_of (hk_backends h)) h
      in case hk_tracker h of
           None \<Rightarrow> h
         | Some ht \<Rightarrow> if Enabled ht then pollHeadHeight p h else h)"

text \<open>\<open>Start\<close>: a round at once, then one for every tick, until the context is done.\<close>

datatype health_signal = Tick | CtxDone

fun health_loop :: "'w prober \<Rightarrow> health_signal list \<Rightarrow> 'w health_checker \<Rightarrow> 'w health_checker" where
  "health_loop p [] h = h"
| "health_loop p (Tick # sigs) h = health_loop p sigs (checkAll p h)"
| "health_loop p (CtxDone # sigs) h = h"

definition health_Start :: "'w prober \<Rightarrow> health_signal list \<Rightarrow> 'w health_checker \<Rightarrow> 'w health_checker" where
  "health_Start p sigs h = health_loop p sigs (checkAll p h)"


subsection \<open>A round\<close>

text \<open>The names a round reports under are distinct, so no probe overwrites another's result.\<close>

definition check_names :: "backends_config \<Rightarrow> string list" where
  "check_names b = map fst (checks_of b)"

lemma pool_names: "map fst (pool_checks base pb eps) = map (\<lambda>i. endpointName base i (length eps)) [0..<length eps]"
  by (rule nth_equalityI) (simp_all add: pool_checks_def nth_enumerate_eq)

definition base_of :: "string \<Rightarrow> string" where
  "base_of n = takeWhile (\<lambda>c. c \<noteq> CHR ''/'') n"

lemma base_of_name: "CHR ''/'' \<notin> set base \<Longrightarrow> base_of (endpointName base i n) = base"
  by (auto simp: base_of_def endpointName_def takeWhile_tail takeWhile_eq_all_conv)

lemma pool_names_distinct: "distinct (map fst (pool_checks base pb eps))"
  by (auto simp: pool_names distinct_map endpointName_def inj_on_def)

lemma pools_distinct:
  "list_all (\<lambda>(base, pb, eps). CHR ''/'' \<notin> set base) ps \<Longrightarrow> distinct (map fst ps) \<Longrightarrow>
     distinct (concat (map (\<lambda>(base, pb, eps). map fst (pool_checks base pb eps)) ps))
     \<and> base_of ` set (concat (map (\<lambda>(base, pb, eps). map fst (pool_checks base pb eps)) ps)) \<subseteq> set (map fst ps)"
proof (induction ps)
  case (Cons p ps)
  obtain base pb eps where p: "p = (base, pb, eps)" by (metis surj_pair)
  have nb0: "CHR ''/'' \<notin> set base" using Cons.prems(1) p by simp
  have b: "base_of n = base" if "n \<in> set (map fst (pool_checks base pb eps))" for n
    using that base_of_name [of base] nb0 by (auto simp only: pool_names set_map)
  let ?rest = "concat (map (\<lambda>(base, pb, eps). map fst (pool_checks base pb eps)) ps)"
  have r: "distinct ?rest" "base_of ` set ?rest \<subseteq> set (map fst ps)" and nb: "base \<notin> set (map fst ps)"
    using Cons p by auto
  have "set (map fst (pool_checks base pb eps)) \<inter> set ?rest = {}" using b r(2) nb by blast
  with r pool_names_distinct [of base pb eps]
  have "distinct (map fst (pool_checks base pb eps) @ ?rest)" by (simp only: distinct_append)
  moreover have "base_of ` set (map fst (pool_checks base pb eps) @ ?rest) \<subseteq> insert base (set (map fst ps))"
    using b r(2) by (auto simp only: set_append image_Un) 
  ultimately show ?case by (simp only: p list.map prod.case concat.simps fst_conv list.set)
qed simp

lemma check_names_distinct: "distinct (check_names b)"
proof -
  let ?ps = "[(''celestia-app-rpc'', ProbeHTTP, CelestiaAppRPC b), (''celestia-node-rpc'', ProbeJSONRPC, CelestiaNodeRPC b),
    (''celestia-node-archival-rpc'', ProbeJSONRPC, CelestiaNodeArchivalRPC b), (''celestia-app-archival-rpc'', ProbeHTTP, CelestiaAppArchivalRPC b),
    (''celestia-app-grpc'', ProbeTCP, CelestiaAppGRPC b), (''celestia-app-p2p'', ProbeTCP, CelestiaAppP2P b)]"
  have "distinct (concat (map (\<lambda>(base, pb, eps). map fst (pool_checks base pb eps)) ?ps))"
    by (rule pools_distinct [THEN conjunct1]) simp_all
  then show ?thesis by (simp add: check_names_def checks_of_def)
qed

lemma run_check_frame [simp]:
  "hk_backends (run_check p chk h) = hk_backends h" "hk_tracker (run_check p chk h) = hk_tracker h"
  by (simp_all add: run_check_def Let_def split_beta)

lemma run_checks_frame [simp]:
  "hk_backends (fold (run_check p) cs h) = hk_backends h" "hk_tracker (fold (run_check p) cs h) = hk_tracker h"
  by (induction cs arbitrary: h) simp_all

lemma poll_frame [simp]:
  "hk_backends (pollHeadHeight p h) = hk_backends h" "hk_statuses (pollHeadHeight p h) = hk_statuses h"
  "hk_log (pollHeadHeight p h) = hk_log h" "hk_metrics (pollHeadHeight p h) = hk_metrics h"
  by (simp_all add: pollHeadHeight_def split: prod.splits sum.splits option.splits)

lemma checkAll_frame [simp]:
  "hk_backends (checkAll p h) = hk_backends h"
  "hk_statuses (checkAll p h) = hk_statuses (fold (run_check p) (checks_of (hk_backends h)) h)"
  "hk_log (checkAll p h) = hk_log (fold (run_check p) (checks_of (hk_backends h)) h)"
  by (simp_all add: checkAll_def Let_def split: option.split)

lemma run_checks_other:
  "name \<notin> set (map fst cs) \<Longrightarrow> hk_statuses (fold (run_check p) cs h) name = hk_statuses h name"
  by (induction cs arbitrary: h) (simp_all add: run_check_def Let_def split_beta)

lemma run_checks_dom: "dom (hk_statuses (fold (run_check p) cs h)) = set (map fst cs) \<union> dom (hk_statuses h)"
  by (induction cs arbitrary: h) (auto simp: run_check_def Let_def split_beta)

lemma run_checks_nth:
  assumes "distinct (map fst cs)" "k < length cs"
  shows "hk_statuses (fold (run_check p) cs h) (fst (cs ! k)) = hk_statuses (fold (run_check p) (take (Suc k) cs) h) (fst (cs ! k))"
proof -
  have "fst (cs ! k) \<notin> set (map fst (drop (Suc k) cs))"
    using assms(1) by (subst (asm) id_take_nth_drop [OF assms(2)]) auto
  then have "hk_statuses (fold (run_check p) (drop (Suc k) cs) (fold (run_check p) (take (Suc k) cs) h)) (fst (cs ! k)) =
      hk_statuses (fold (run_check p) (take (Suc k) cs) h) (fst (cs ! k))"
    by (rule run_checks_other)
  moreover have "fold (run_check p) cs h = fold (run_check p) (drop (Suc k) cs) (fold (run_check p) (take (Suc k) cs) h)"
    using fold_append [of "run_check p" "take (Suc k) cs" "drop (Suc k) cs"] by simp
  ultimately show ?thesis by simp
qed




subsection \<open>The log of state changes\<close>

fun about :: "health_event \<Rightarrow> string" where
  "about (Recovered n) = n"
| "about (Down n err) = n"
| "about (Unreachable n err) = n"

fun is_up :: "health_event \<Rightarrow> bool" where
  "is_up (Recovered n) = True"
| "is_up _ = False"

fun alternates :: "bool \<Rightarrow> bool list \<Rightarrow> bool" where
  "alternates st [] = True"
| "alternates st (x # xs) = (x \<noteq> st \<and> alternates x xs)"

lemma alternates_snoc: "alternates st (xs @ [x]) \<longleftrightarrow> alternates st xs \<and> x \<noteq> last (st # xs)"
  by (induction xs arbitrary: st) auto

definition ups :: "string \<Rightarrow> health_event list \<Rightarrow> bool list" where
  "ups name evs = map is_up (filter (\<lambda>e. about e = name) evs)"

text \<open>The log about a name starts from healthy, alternates, and ends at the status on file.\<close>

definition log_agrees :: "string \<Rightarrow> 'w health_checker \<Rightarrow> bool" where
  "log_agrees name h \<longleftrightarrow> alternates True (ups name (hk_log h))
     \<and> (case hk_statuses h name of None \<Rightarrow> ups name (hk_log h) = [] | Some st \<Rightarrow> hc_Healthy st = last (True # ups name (hk_log h)))"

lemma ups_append [simp]: "ups name (xs @ ys) = ups name xs @ ups name ys"
  by (simp add: ups_def)

lemma ups_change:
  "ups name (state_change n prev st) =
     (if n = name \<and> hc_Healthy st \<noteq> (case prev of Some q \<Rightarrow> hc_Healthy q | None \<Rightarrow> True) then [hc_Healthy st] else [])"
  by (auto simp: ups_def state_change_def split: option.split)

lemma run_check_agrees: "log_agrees name h \<Longrightarrow> log_agrees name (run_check p chk h)"
  by (cases "fst chk = name"; cases "hk_statuses h name")
    (auto simp: log_agrees_def run_check_def Let_def split_beta ups_change alternates_snoc)

lemma run_checks_agrees: "log_agrees name h \<Longrightarrow> log_agrees name (fold (run_check p) cs h)"
  by (induction cs arbitrary: h) (simp_all add: run_check_agrees)

lemma checkAll_agrees: "log_agrees name h \<Longrightarrow> log_agrees name (checkAll p h)"
  using run_checks_agrees [of name h p "checks_of (hk_backends h)"] unfolding log_agrees_def checkAll_frame .

lemma health_loop_agrees: "log_agrees name h \<Longrightarrow> log_agrees name (health_loop p sigs h)"
  by (induction p sigs h rule: health_loop.induct) (simp_all add: checkAll_agrees)

lemma health_loop_dom:
  "dom (hk_statuses h) = set (check_names (hk_backends h)) \<Longrightarrow>
     dom (hk_statuses (health_loop p sigs h)) = set (check_names (hk_backends h))"
  by (induction p sigs h rule: health_loop.induct) (simp_all add: run_checks_dom check_names_def)

text \<open>From its start on the checker has a status for exactly the configured endpoints, and its log
  is faithful: whatever the probes answer, the messages about an endpoint alternate between down and
  recovered, beginning with one that it is unreachable, and the last one is the status on file (no
  message when it has always been healthy).\<close>

theorem health_log_faithful:
  "dom (hk_statuses (health_Start p sigs (NewHealthChecker b m ht w))) = set (check_names b)
   \<and> alternates True (ups name (hk_log (health_Start p sigs (NewHealthChecker b m ht w))))
   \<and> (case hk_statuses (health_Start p sigs (NewHealthChecker b m ht w)) name of
        None \<Rightarrow> ups name (hk_log (health_Start p sigs (NewHealthChecker b m ht w))) = []
      | Some st \<Rightarrow> hc_Healthy st = last (True # ups name (hk_log (health_Start p sigs (NewHealthChecker b m ht w)))))"
proof -
  let ?h = "NewHealthChecker b m ht w"
  have "log_agrees name ?h" by (simp add: log_agrees_def NewHealthChecker_def ups_def)
  then have "log_agrees name (health_Start p sigs ?h)" by (simp add: health_Start_def health_loop_agrees checkAll_agrees)
  moreover have "hk_backends ?h = b" "dom (hk_statuses ?h) = {}" by (simp_all add: NewHealthChecker_def)
  then have "dom (hk_statuses (checkAll p ?h)) = set (check_names (hk_backends (checkAll p ?h)))"
    by (simp add: run_checks_dom check_names_def)
  then have "dom (hk_statuses (health_Start p sigs ?h)) = set (check_names b)"
    using health_loop_dom \<open>hk_backends ?h = b\<close> unfolding health_Start_def by fastforce
  ultimately show ?thesis by (simp add: log_agrees_def)
qed

subsection \<open>The head height\<close>

lemma json_parse_first_render: "plain_val 0 v \<Longrightarrow> \<exists>r. json_parse_first (render v) = Some (annot v, r)"
  using json_parse_render [of v] by (auto simp: json_parse_def split: option.splits prod.splits if_splits)

lemma decode_path_skip:
  "list_all (\<lambda>(k', v). fold_name k' \<noteq> k) ms \<Longrightarrow>
     foldl (\<lambda>acc (k', raw, w). if fold_name k' = k then decode_path ks w acc else acc) acc (map (\<lambda>(k, v). (k, render v, annot v)) ms) = acc"
  by (induction ms arbitrary: acc) auto

lemma decode_path_member:
  assumes "list_all (\<lambda>(k', v). fold_name k' \<noteq> k) (pre @ post)" "fold_name key = k"
  shows "decode_path (k # ks) (annot (VObj (pre @ (key, v) # post))) acc = decode_path ks (annot v) acc"
  using assms decode_path_skip [of k pre] decode_path_skip [of k post] by simp

lemma head_names [simp]:
  "fold_name ''result'' = ''result''" "fold_name ''sync_info'' = ''sync_info''" "fold_name ''latest_block_height'' = ''latest_block_height''"
  by code_simp+

lemma sscanf_d_nat:
  assumes "in_int64 (int n)"
  shows "sscanf_d (show_nat n) = Some (int n)"
proof -
  obtain c cs where c: "show_nat n = c # cs" "is_digit c" using show_nat_Cons by blast
  then have t: "trim_left (c # cs) = c # cs" by (simp add: trim_left_solid solid_digit)
  have tw: "takeWhile is_digit (c # cs) = c # cs"
    using show_nat_digits [of n] unfolding c(1) by (simp add: list_all_iff takeWhile_eq_all_conv)
  have "parse_int_opt (c # cs) = Some (int n)"
    using parse_int_opt_show_int [of "int n"] assms c(1) by (simp add: show_int_def)
  then show ?thesis using digit_not_sign [OF c(2)] by (simp add: sscanf_d_def Let_def c(1) t tw del: takeWhile.simps)
qed

text \<open>A compact status document, with other members around those on the way to the height.\<close>

definition status_doc :: "(string \<times> jval) list \<Rightarrow> (string \<times> jval) list \<Rightarrow> (string \<times> jval) list \<Rightarrow> (string \<times> jval) list
    \<Rightarrow> (string \<times> jval) list \<Rightarrow> (string \<times> jval) list \<Rightarrow> nat \<Rightarrow> jval" where
  "status_doc a a' b b' c c' n =
     VObj (a @ (''result'', VObj (b @ (''sync_info'', VObj (c @ (''latest_block_height'', VStr (show_nat n)) # c')) # b')) # a')"

lemma head_in_status_doc:
  assumes "plain_val 0 (status_doc a a' b b' c c' n)" "in_int64 (int n)"
    "list_all (\<lambda>(k, v). fold_name k \<noteq> ''result'') (a @ a')" "list_all (\<lambda>(k, v). fold_name k \<noteq> ''sync_info'') (b @ b')"
    "list_all (\<lambda>(k, v). fold_name k \<noteq> ''latest_block_height'') (c @ c')"
  shows "head_in (render (status_doc a a' b b' c c' n)) = (if n = 0 then None else Some (int n))"
proof -
  have "decode_path [''result'', ''sync_info'', ''latest_block_height''] (annot (status_doc a a' b b' c c' n)) ([], False)
      = (show_nat n, False)"
    unfolding status_doc_def
    by (subst decode_path_member [OF assms(3) head_names(1)], subst decode_path_member [OF assms(4) head_names(2)],
        subst decode_path_member [OF assms(5) head_names(3)]) simp
  moreover obtain r where "json_parse_first (render (status_doc a a' b b' c c' n)) = Some (annot (status_doc a a' b b' c c' n), r)"
    using json_parse_first_render [OF assms(1)] by blast
  ultimately show ?thesis by (simp add: head_in_def sscanf_d_nat [OF assms(2)] del: decode_path.simps)
qed

text \<open>When height routing is on and the consensus node answers the status request with a compact
  document, the round ends with the tracker at the height of that document, which is the head
  every later routing decision uses; a height of 0 leaves it as it was.\<close>

theorem round_polls_head:
  assumes "hk_tracker h = Some ht" "Enabled ht"
    "\<And>w. fst (pr_post p (endpoints_First (CelestiaAppRPC (hk_backends h))) status_request w) = Inr (code, render (status_doc a a' b b' c c' n))"
    "plain_val 0 (status_doc a a' b b' c c' n)" "in_int64 (int n)"
    "list_all (\<lambda>(k, v). fold_name k \<noteq> ''result'') (a @ a')" "list_all (\<lambda>(k, v). fold_name k \<noteq> ''sync_info'') (b @ b')"
    "list_all (\<lambda>(k, v). fold_name k \<noteq> ''latest_block_height'') (c @ c')"
  shows "map_option Head (hk_tracker (checkAll p h)) = Some (if n = 0 then Head ht else int n)"
proof -
  note hd = head_in_status_doc [OF assms(4-8)]
  let ?h = "fold (run_check p) (checks_of (hk_backends h)) h"
  obtain el w where "pr_post p (endpoints_First (CelestiaAppRPC (hk_backends h))) status_request (hk_world ?h)
      = (Inr (code, render (status_doc a a' b b' c c' n)), el, w)"
    using assms(3) [of "hk_world ?h"] by (metis prod.collapse)
  then show ?thesis using assms(1,2) hd
    by (simp add: checkAll_def Let_def pollHeadHeight_def Head_def SetHead_def)
qed


definition sample_status :: jval where
  "sample_status = status_doc [(''id'', VInt 1)] [] [] [] [] [] 286001"

theorem round_polls_head_witness:
  "map_option Head (hk_tracker (checkAll \<lparr>pr_get = (\<lambda>u w. (Inr (200, []), 0, w)), pr_post = (\<lambda>u b w. (Inr (200, render sample_status), 0, w)),
       pr_dial = (\<lambda>a w. (None, 0, w)), pr_now = (\<lambda>w. 9)\<rparr>
     (NewHealthChecker sample_backends None [NewHeightTracker 100] ()))) = Some 286001"
proof -
  let ?p = "\<lparr>pr_get = (\<lambda>u w. (Inr (200, []), 0, w)), pr_post = (\<lambda>u b w. (Inr (200, render sample_status), 0, w)),
       pr_dial = (\<lambda>a w. (None, 0, w)), pr_now = (\<lambda>w. 9)\<rparr>"
  have d: "list_all plain_char (show_nat 286001)"
    using show_nat_digits [of 286001] by (auto simp: list_all_iff is_digit_def plain_char_def)
  have "plain_val 0 (status_doc [(''id'', VInt 1)] [] [] [] [] [] 286001)"
    using d by (simp add: status_doc_def max_nesting_def plain_simps list_all_iff)
  moreover have "in_int64 (int 286001)" by (simp add: decimal_simps)
  moreover have "fold_name ''id'' \<noteq> ''result''" by code_simp
  ultimately show ?thesis
    using round_polls_head [of "NewHealthChecker sample_backends None [NewHeightTracker 100] ()" "NewHeightTracker 100" ?p 200
        "[(''id'', VInt 1)]" "[]" "[]" "[]" "[]" "[]" 286001]
    by (simp add: sample_status_def NewHealthChecker_def Enabled_def NewHeightTracker_def)
qed

end
