(* ===== verification/Admin.thy ===== *)
theory Admin
  imports Health TokenStore LogStore
begin

text \<open>
  \<open>internal/admin\<close>: the handlers of the administration API, their routes and the password check
  in front of them.

  A handler's answer is a status with the value it serialises, or an HTTP error. The interfaces the
  handlers use (the log store, the health checker, the router) are optional fields of
  \<open>admin_deps\<close>; the token store and the log buffer are the state. \<open>time.Parse\<close>, \<open>ParseFloat\<close>
  and \<open>fmt\<close>'s formatting of strings and floats are fields too, with a failing parse giving the zero value.
  What echo's \<open>Bind\<close> makes of a body is an argument. A nil slice is the empty list.
\<close>

record log_access =
  la_Query :: "log_filter \<Rightarrow> log_entry list result"
  la_Count :: "log_filter \<Rightarrow> int result"
  la_BackendStats :: "int \<Rightarrow> backend_stat list result"

record admin_deps =
  ad_LogStore :: "log_access option"
  ad_Health :: "(string \<rightharpoonup> health_status) option"
  ad_Router :: "router option"
  ad_Config :: "config option"
  ad_Version :: string
  ad_StartTime :: int
  ad_now :: int
  ad_time :: "string \<Rightarrow> int option"
  ad_float :: "string \<Rightarrow> f64"
  ad_rfc3339 :: "int \<Rightarrow> string"
  ad_quote :: "string \<Rightarrow> string"
  ad_fixed2 :: "f64 \<Rightarrow> string"
  ad_range :: "(string \<rightharpoonup> health_status) \<Rightarrow> string list"

record admin_state =
  as_tokens :: "token_store option"
  as_buffer :: "ring_buffer option"

record endpoint_info =
  ei_URL :: string
  ei_EWMALatencyMs :: f64
  ei_RequestCount :: "64 word"
  ei_Healthy :: "bool option"
  ei_HealthLatencyMs :: "f64 option"

record backend_info =
  bi_Name :: string
  bi_Endpoints :: "string list"
  bi_EndpointStats :: "endpoint_info list"
  bi_Healthy :: "bool option"
  bi_HealthLatencyMs :: "f64 option"
  bi_AvgLatencyMs :: f64
  bi_TotalRequests :: int
  bi_Methods :: "string list"

datatype payload =
    PMessage string
  | PHealth "string \<rightharpoonup> health_status"
  | PStatus string f64 nat nat
  | PLogs "log_entry list" bool int int
  | PEntries "log_entry list"
  | PCsv string
  | PStream string
  | PSummary string int
  | PBackends "backend_info list"
  | PTokens "token list"
  | PToken token
  | PPlaintext token string
  | PNoContent

datatype reply = Reply int payload | Failed int string

definition query_param :: "string \<Rightarrow> string \<Rightarrow> string" where
  "query_param q k = values_get (fst (parse_query q)) k"

text \<open>\<open>Duration.Seconds\<close>.\<close>

definition seconds :: "int \<Rightarrow> f64" where
  "seconds d = (let q = sgn d * (\<bar>d\<bar> div 1000000000) in f64_add (f64_of_int q) (f64_div (f64_of_int (d - q * 1000000000)) 1000000000))"

subsection \<open>Status and logs\<close>

definition handleHealth :: "admin_deps \<Rightarrow> reply" where
  "handleHealth dp =
     (case ad_Health dp of
        None \<Rightarrow> Reply 200 (PMessage ''health checker not configured'')
      | Some st \<Rightarrow> Reply 200 (PHealth st))"

definition handleStatus :: "admin_deps \<Rightarrow> env \<Rightarrow> admin_state \<Rightarrow> reply" where
  "handleStatus dp e s =
     (case (case as_tokens s of
              Some ts \<Rightarrow> TokenCount e ts
            | None \<Rightarrow> (case ad_Config dp of
                         Some cfg \<Rightarrow> (length (Tokens cfg), length (filter tkc_Enabled (Tokens cfg)))
                       | None \<Rightarrow> (0, 0))) of
        (totalTokens, activeTokens) \<Rightarrow>
          Reply 200 (PStatus (ad_Version dp) (seconds (ad_now dp - ad_StartTime dp)) totalTokens activeTokens))"

text \<open>A field set from a query parameter unless that is empty.\<close>

definition param_or :: "'a \<Rightarrow> (string \<Rightarrow> 'a) \<Rightarrow> string \<Rightarrow> 'a" where
  "param_or zero f v = (if v \<noteq> [] then f v else zero)"

definition clamp_limit :: "log_filter \<Rightarrow> log_filter" where
  "clamp_limit f =
     (let f = (if lf_Limit f \<le> 0 then f\<lparr>lf_Limit := 100\<rparr> else f)
      in if 1000 < lf_Limit f then f\<lparr>lf_Limit := 1000\<rparr> else f)"

definition parseLogFilter :: "admin_deps \<Rightarrow> string \<Rightarrow> log_filter" where
  "parseLogFilter dp q =
     clamp_limit
       \<lparr>lf_Method = query_param q ''method'', lf_TokenName = query_param q ''token_name'', lf_Backend = query_param q ''backend'',
        lf_StatusCode = param_or 0 atoi_or_clamp (query_param q ''status_code''),
        lf_StatusMin = param_or 0 atoi_or_clamp (query_param q ''status_min''),
        lf_StatusMax = param_or 0 atoi_or_clamp (query_param q ''status_max''),
        lf_From = param_or None (ad_time dp) (query_param q ''from''),
        lf_To = param_or None (ad_time dp) (query_param q ''to''),
        lf_LatencyMin = param_or 0 (ad_float dp) (query_param q ''latency_min''),
        lf_Limit = param_or 0 atoi_or_clamp (query_param q ''limit''),
        lf_Cursor = param_or 0 atoi_or_clamp (query_param q ''cursor''),
        lf_SortDesc = (query_param q ''sort'' \<noteq> ''asc'')\<rparr>"

definition count_or_0 :: "int result \<Rightarrow> int" where
  "count_or_0 r = (case r of Inl _ \<Rightarrow> 0 | Inr n \<Rightarrow> n)"

definition handleLogs :: "admin_deps \<Rightarrow> string \<Rightarrow> admin_state \<Rightarrow> reply" where
  "handleLogs dp q s =
     (let filter = parseLogFilter dp q
      in case (case ad_LogStore dp of
                 Some st \<Rightarrow> la_Query st filter
               | None \<Rightarrow> (case as_buffer s of Some rb \<Rightarrow> Inr (ring_Entries (lf_Limit filter) rb) | None \<Rightarrow> Inr [])) of
           Inl _ \<Rightarrow> Failed 500 ''failed to query logs''
         | Inr entries \<Rightarrow>
             (let n = (case ad_LogStore dp of Some st \<Rightarrow> count_or_0 (la_Count st filter) | None \<Rightarrow> 0);
                  cursor = (if 0 < length entries then int (length entries) else 0)
              in Reply 200 (PLogs entries (int (length entries) < n) n cursor)))"

text \<open>The stream: what another goroutine pushes, a receive with the outcome of its write, and the end of
  the request. The result is \<open>None\<close> while it runs, or when the buffer panics.\<close>

datatype tail_event = TailPush log_entry | TailRecv bool | TailDone

definition tail_line :: "admin_deps \<Rightarrow> log_entry \<Rightarrow> string" where
  "tail_line dp e =
     ''data: {\"request_id\":'' @ ad_quote dp (le_RequestID e) @ '',\"method\":'' @ ad_quote dp (le_Method e)
     @ '',\"backend\":'' @ ad_quote dp (le_Backend e) @ '',\"status_code\":'' @ show_int (le_StatusCode e)
     @ '',\"latency_ms\":'' @ ad_fixed2 dp (le_LatencyMs e) @ ''}'' @ [CHR 0x0A, CHR 0x0A]"

fun tail_loop :: "admin_deps \<Rightarrow> tail_event list \<Rightarrow> nat \<Rightarrow> string \<Rightarrow> ring_buffer \<Rightarrow> (string \<times> ring_buffer) option" where
  "tail_loop dp [] ch out rb = None"
| "tail_loop dp (TailPush e # evs) ch out rb = (case ring_Push e rb of None \<Rightarrow> None | Some rb' \<Rightarrow> tail_loop dp evs ch out rb')"
| "tail_loop dp (TailRecv ok # evs) ch out rb =
     (case ring_recv ch rb of
        (None, _) \<Rightarrow> if ch \<in> set (rb_closed rb) then Some (out, rb) else None
      | (Some e, rb') \<Rightarrow> if ok then tail_loop dp evs ch (out @ tail_line dp e) rb' else Some (out, rb'))"
| "tail_loop dp (TailDone # evs) ch out rb = Some (out, rb)"

definition handleLogsStream :: "admin_deps \<Rightarrow> tail_event list \<Rightarrow> admin_state \<Rightarrow> (reply \<times> admin_state) option" where
  "handleLogsStream dp evs s =
     (case as_buffer s of
        None \<Rightarrow> Some (Failed 503 ''log buffer not available'', s)
      | Some rb \<Rightarrow>
          (case ring_Subscribe rb of (ch, rb) \<Rightarrow>
             (case tail_loop dp evs ch [] rb of
                None \<Rightarrow> None
              | Some (out, rb) \<Rightarrow> map_option (\<lambda>rb. (Reply 200 (PStream out), s\<lparr>as_buffer := Some rb\<rparr>)) (ring_cancel ch rb))))"

subsection \<open>Export\<close>

text \<open>\<open>encoding/csv\<close>: a field is quoted when it is \<open>\.\<close>, starts with a blank, or holds a comma, a quote or a
  line end.\<close>

definition field_needs_quotes :: "string \<Rightarrow> bool" where
  "field_needs_quotes s \<longleftrightarrow>
     s \<noteq> [] \<and> (s = [CHR 0x5C, CHR ''.''] \<or> list_ex (\<lambda>c. c \<in> {CHR 0x0A, CHR 0x0D, CHR 0x22, CHR '',''}) s \<or> trim_left s \<noteq> s)"

definition csv_field :: "string \<Rightarrow> string" where
  "csv_field s =
     (if field_needs_quotes s
      then [CHR 0x22] @ concat (map (\<lambda>c. if c = CHR 0x22 then [c, c] else [c]) s) @ [CHR 0x22] else s)"

definition csv_record :: "string list \<Rightarrow> string" where
  "csv_record fs = join_with '','' (map csv_field fs) @ [CHR 0x0A]"

definition csv_header :: "string list" where
  "csv_header = [''timestamp'', ''request_id'', ''token_name'', ''method'', ''backend'', ''status_code'', ''latency_ms'', ''client_ip'', ''error'']"

definition csv_row :: "admin_deps \<Rightarrow> log_entry \<Rightarrow> string list" where
  "csv_row dp e =
     [ad_rfc3339 dp (le_Timestamp e), le_RequestID e, le_TokenName e, le_Method e, le_Backend e,
      show_int (le_StatusCode e), ad_fixed2 dp (le_LatencyMs e), le_ClientIP e, le_Error e]"

definition handleLogsExport :: "admin_deps \<Rightarrow> string \<Rightarrow> reply" where
  "handleLogsExport dp q =
     (let filter = parseLogFilter dp q;
          filter = (if lf_Limit filter = 0 then filter\<lparr>lf_Limit := 1000\<rparr> else filter)
      in case (case ad_LogStore dp of Some st \<Rightarrow> la_Query st filter | None \<Rightarrow> Inr []) of
           Inl _ \<Rightarrow> Failed 500 ''failed to query logs''
         | Inr entries \<Rightarrow>
             if query_param q ''format'' = ''csv''
             then Reply 200 (PCsv (csv_record csv_header @ concat (map (\<lambda>e. csv_record (csv_row dp e)) entries)))
             else Reply 200 (PEntries entries))"

definition hour :: int where "hour = 3600000000000"

definition handleMetricsSummary :: "admin_deps \<Rightarrow> string \<Rightarrow> reply" where
  "handleMetricsSummary dp q =
     (let window = query_param q ''window'';
          window = (if window = [] then ''24h'' else window);
          (duration, window) =
            (if window = ''1h'' then (hour, window) else if window = ''7d'' then (7 * 24 * hour, window) else (24 * hour, ''24h''));
          filter = \<lparr>lf_Method = [], lf_TokenName = [], lf_Backend = [], lf_StatusCode = 0, lf_StatusMin = 0, lf_StatusMax = 0,
                    lf_From = Some (ad_now dp - duration), lf_To = None, lf_LatencyMin = 0, lf_Limit = 0, lf_Cursor = 0, lf_SortDesc = True\<rparr>;
          n = (case ad_LogStore dp of Some st \<Rightarrow> count_or_0 (la_Count st filter) | None \<Rightarrow> 0)
      in Reply 200 (PSummary window n))"

subsection \<open>Backends\<close>

definition endpointHealthKey :: "string \<Rightarrow> nat \<Rightarrow> nat \<Rightarrow> string" where
  "endpointHealthKey baseName idx n = (if n \<le> 1 then baseName else baseName @ ''/'' @ show_nat idx)"

definition backend_defs :: "backends_config \<Rightarrow> (string \<times> endpoints) list" where
  "backend_defs b =
     [(''celestia-app-rpc'', CelestiaAppRPC b), (''celestia-node-rpc'', CelestiaNodeRPC b),
      (''celestia-node-archival-rpc'', CelestiaNodeArchivalRPC b), (''celestia-app-archival-rpc'', CelestiaAppArchivalRPC b),
      (''celestia-app-grpc'', CelestiaAppGRPC b), (''celestia-app-p2p'', CelestiaAppP2P b)]"

definition endpoint_info_of :: "(string \<rightharpoonup> health_status) option \<Rightarrow> endpoint_stats list \<Rightarrow> string \<Rightarrow> nat \<Rightarrow> nat \<Rightarrow> string \<Rightarrow> endpoint_info" where
  "endpoint_info_of health epStats name n i epURL =
     (let es = find (\<lambda>es. st_URL es = epURL) epStats;
          hs = (case health of None \<Rightarrow> None | Some hm \<Rightarrow> hm (endpointHealthKey name i n))
      in \<lparr>ei_URL = epURL, ei_EWMALatencyMs = (case es of None \<Rightarrow> 0 | Some es \<Rightarrow> st_EWMALatencyMs es),
          ei_RequestCount = (case es of None \<Rightarrow> 0 | Some es \<Rightarrow> st_RequestCount es),
          ei_Healthy = map_option hc_Healthy hs, ei_HealthLatencyMs = map_option hc_LatencyMs hs\<rparr>)"

text \<open>The aggregate over the map's entries of one backend: whether all are healthy, the sum of the
  latencies in the order of the iteration (\<open>ad_range\<close>), and how many there are.\<close>

definition belongs :: "string \<Rightarrow> string \<Rightarrow> bool" where
  "belongs name key \<longleftrightarrow> key = name \<or> prefix (name @ ''/'') key"

definition health_step :: "string \<Rightarrow> (string \<rightharpoonup> health_status) \<Rightarrow> bool \<times> f64 \<times> nat \<Rightarrow> string \<Rightarrow> bool \<times> f64 \<times> nat" where
  "health_step name hm acc key =
     (case (acc, hm key) of
        ((allHealthy, totalLatency, n), Some hs) \<Rightarrow>
          if belongs name key then (allHealthy \<and> hc_Healthy hs, f64_add totalLatency (hc_LatencyMs hs), n + 1) else acc
      | _ \<Rightarrow> acc)"

definition health_aggregate :: "string \<Rightarrow> (string \<rightharpoonup> health_status) \<Rightarrow> string list \<Rightarrow> bool \<times> f64 \<times> nat" where
  "health_aggregate name hm keys = foldl (health_step name hm) (True, 0, 0) keys"

definition merge_stat :: "backend_stat option \<Rightarrow> backend_info \<Rightarrow> backend_info" where
  "merge_stat stat info =
     (case stat of
        None \<Rightarrow> info
      | Some st \<Rightarrow>
          (let info = info\<lparr>bi_AvgLatencyMs := bs_AvgLatencyMs st, bi_TotalRequests := bs_TotalRequests st\<rparr>
           in if 0 < length (bs_Methods st) then
                (let methods = filter (\<lambda>m. m \<noteq> []) (bs_Methods st) in if 0 < length methods then info\<lparr>bi_Methods := methods\<rparr> else info)
              else info))"

definition backend_info_of :: "admin_deps \<Rightarrow> (string \<rightharpoonup> backend_stat) \<Rightarrow> string \<times> endpoints \<Rightarrow> backend_info" where
  "backend_info_of dp statsMap d =
     (case d of (name, eps) \<Rightarrow>
        (let epStats = (case ad_Router dp of None \<Rightarrow> [] | Some r \<Rightarrow> router_EndpointStats name r);
             epInfos = map (\<lambda>(i, epURL). endpoint_info_of (ad_Health dp) epStats name (length eps) i epURL) (enumerate 0 eps);
             (allHealthy, totalLatency, cnt) =
               (case ad_Health dp of None \<Rightarrow> (True, 0, 0) | Some hm \<Rightarrow> health_aggregate name hm (ad_range dp hm));
             info = \<lparr>bi_Name = name, bi_Endpoints = eps, bi_EndpointStats = epInfos,
                     bi_Healthy = (if 0 < cnt then Some allHealthy else None),
                     bi_HealthLatencyMs = (if 0 < cnt then Some (f64_div totalLatency (f64_of_int (int cnt))) else None),
                     bi_AvgLatencyMs = 0, bi_TotalRequests = 0, bi_Methods = []\<rparr>
         in merge_stat (statsMap name) info))"

definition window_duration :: "string \<Rightarrow> int" where
  "window_duration w = (if w = ''1h'' then hour else if w = ''7d'' then 7 * 24 * hour else 24 * hour)"

definition handleBackends :: "admin_deps \<Rightarrow> string \<Rightarrow> reply" where
  "handleBackends dp q =
     (let since = ad_now dp - window_duration (query_param q ''window'');
          defs = (case ad_Config dp of None \<Rightarrow> [] | Some cfg \<Rightarrow> backend_defs (Backends cfg));
          stats = (case ad_LogStore dp of None \<Rightarrow> [] | Some st \<Rightarrow> (case la_BackendStats st since of Inl _ \<Rightarrow> [] | Inr ss \<Rightarrow> ss));
          statsMap = fold (\<lambda>st m. m(bs_Backend st \<mapsto> st)) stats Map.empty
      in Reply 200 (PBackends (map (backend_info_of dp statsMap) (filter (\<lambda>(name, eps). length eps \<noteq> 0) defs))))"

subsection \<open>Tokens\<close>

text \<open>Every token handler starts with this check.\<close>

definition with_store :: "admin_state \<Rightarrow> (token_store \<Rightarrow> reply \<times> token_store) \<Rightarrow> reply \<times> admin_state" where
  "with_store s f =
     (case as_tokens s of
        None \<Rightarrow> (Failed 503 ''token store not configured'', s)
      | Some ts \<Rightarrow> (case f ts of (r, ts') \<Rightarrow> (r, s\<lparr>as_tokens := Some ts'\<rparr>)))"

definition handleListTokens :: "env \<Rightarrow> admin_state \<Rightarrow> reply \<times> admin_state" where
  "handleListTokens e s = with_store s (\<lambda>ts.
     (case store_List e ts of Inl _ \<Rightarrow> Failed 500 ''failed to list tokens'' | Inr tokens \<Rightarrow> Reply 200 (PTokens tokens), ts))"

definition handleGetToken :: "env \<Rightarrow> string \<Rightarrow> admin_state \<Rightarrow> reply \<times> admin_state" where
  "handleGetToken e param s = with_store s (\<lambda>ts.
     (case parse_int_opt param of
        None \<Rightarrow> Failed 400 ''invalid token ID''
      | Some i \<Rightarrow>
          (case store_Get e i ts of
             Inl _ \<Rightarrow> Failed 500 ''failed to get token''
           | Inr None \<Rightarrow> Failed 404 ''token not found''
           | Inr (Some tk) \<Rightarrow> Reply 200 (PToken tk)), ts))"

definition handleCreateToken :: "(string \<Rightarrow> string) \<Rightarrow> env \<Rightarrow> create_request option \<Rightarrow> admin_state \<Rightarrow> reply \<times> admin_state" where
  "handleCreateToken H e bound s = with_store s (\<lambda>ts.
     (case bound of
        None \<Rightarrow> (Failed 400 ''invalid request body'', ts)
      | Some req \<Rightarrow>
          if cr_Name req = [] then (Failed 400 ''name is required'', ts)
          else if cr_Scope req \<noteq> [] \<and> cr_Scope req \<notin> set ValidScopes
          then (Failed 400 ''invalid scope: must be read-only, write, or admin'', ts)
          else (case store_Create H e req ts of
                  (Inl _, ts') \<Rightarrow> (Failed 500 ''failed to create token'', ts')
                | (Inr (tk, plaintext), ts') \<Rightarrow> (Reply 201 (PPlaintext tk plaintext), ts'))))"

definition handleUpdateToken :: "env \<Rightarrow> string \<Rightarrow> update_request option \<Rightarrow> admin_state \<Rightarrow> reply \<times> admin_state" where
  "handleUpdateToken e param bound s = with_store s (\<lambda>ts.
     (case parse_int_opt param of
        None \<Rightarrow> (Failed 400 ''invalid token ID'', ts)
      | Some i \<Rightarrow>
          (case bound of
             None \<Rightarrow> (Failed 400 ''invalid request body'', ts)
           | Some req \<Rightarrow>
               if (case up_Scope req of None \<Rightarrow> False | Some sc \<Rightarrow> sc \<notin> set ValidScopes)
               then (Failed 400 ''invalid scope: must be read-only, write, or admin'', ts)
               else (case store_Update e i req ts of
                       (Inl _, ts') \<Rightarrow> (Failed 500 ''failed to update token'', ts')
                     | (Inr None, ts') \<Rightarrow> (Failed 404 ''token not found'', ts')
                     | (Inr (Some tk), ts') \<Rightarrow> (Reply 200 (PToken tk), ts')))))"

definition handleDeleteToken :: "env \<Rightarrow> string \<Rightarrow> admin_state \<Rightarrow> reply \<times> admin_state" where
  "handleDeleteToken e param s = with_store s (\<lambda>ts.
     (case parse_int_opt param of
        None \<Rightarrow> (Failed 400 ''invalid token ID'', ts)
      | Some i \<Rightarrow>
          (case store_Delete e i ts of
             (Some _, ts') \<Rightarrow> (Failed 404 ''token not found'', ts')
           | (None, ts') \<Rightarrow> (Reply 204 PNoContent, ts'))))"

definition handleRotateToken :: "(string \<Rightarrow> string) \<Rightarrow> env \<Rightarrow> string \<Rightarrow> admin_state \<Rightarrow> reply \<times> admin_state" where
  "handleRotateToken H e param s = with_store s (\<lambda>ts.
     (case parse_int_opt param of
        None \<Rightarrow> (Failed 400 ''invalid token ID'', ts)
      | Some i \<Rightarrow>
          (case store_Rotate H e i ts of
             (Inl _, ts') \<Rightarrow> (Failed 404 ''token not found'', ts')
           | (Inr (tk, plaintext), ts') \<Rightarrow> (Reply 200 (PPlaintext tk plaintext), ts'))))"

subsection \<open>Routes and the password\<close>

text \<open>A request as the routes deliver it: the handler with its path parameter, query string and body.\<close>

datatype admin_request =
    GetHealth
  | GetStatus
  | GetLogs string
  | GetLogsStream "tail_event list"
  | GetLogsExport string
  | GetMetricsSummary string
  | GetBackends string
  | GetTokens
  | PostTokens "create_request option"
  | GetToken string
  | PutToken string "update_request option"
  | DeleteToken string
  | PostRotate string

definition pure_reply :: "reply \<Rightarrow> admin_state \<Rightarrow> (reply \<times> admin_state) option" where
  "pure_reply r s = Some (r, s)"

definition admin_handle :: "(string \<Rightarrow> string) \<Rightarrow> admin_deps \<Rightarrow> env \<Rightarrow> admin_request \<Rightarrow> admin_state \<Rightarrow> (reply \<times> admin_state) option" where
  "admin_handle H dp e req s =
     (case req of
        GetHealth \<Rightarrow> pure_reply (handleHealth dp) s
      | GetStatus \<Rightarrow> pure_reply (handleStatus dp e s) s
      | GetLogs q \<Rightarrow> pure_reply (handleLogs dp q s) s
      | GetLogsStream evs \<Rightarrow> handleLogsStream dp evs s
      | GetLogsExport q \<Rightarrow> pure_reply (handleLogsExport dp q) s
      | GetMetricsSummary q \<Rightarrow> pure_reply (handleMetricsSummary dp q) s
      | GetBackends q \<Rightarrow> pure_reply (handleBackends dp q) s
      | GetTokens \<Rightarrow> Some (handleListTokens e s)
      | PostTokens b \<Rightarrow> Some (handleCreateToken H e b s)
      | GetToken i \<Rightarrow> Some (handleGetToken e i s)
      | PutToken i b \<Rightarrow> Some (handleUpdateToken e i b s)
      | DeleteToken i \<Rightarrow> Some (handleDeleteToken e i s)
      | PostRotate i \<Rightarrow> Some (handleRotateToken H e i s))"

text \<open>The validator given to echo's \<open>BasicAuth\<close>, which calls it with the credentials of the request if
  there are any and answers 401 unless it accepts; \<open>cmp\<close> is bcrypt's comparison.\<close>

definition credentials_ok :: "(string \<Rightarrow> string \<Rightarrow> bool) \<Rightarrow> admin_config \<Rightarrow> string \<Rightarrow> string \<Rightarrow> bool" where
  "credentials_ok cmp cfg username password \<longleftrightarrow>
     (if username \<noteq> Username cfg then False else cmp (PasswordHash cfg) password)"

definition admin_serve :: "(string \<Rightarrow> string \<Rightarrow> bool) \<Rightarrow> admin_config \<Rightarrow> (string \<Rightarrow> string) \<Rightarrow> admin_deps \<Rightarrow> env
    \<Rightarrow> (string \<times> string) option \<Rightarrow> admin_request \<Rightarrow> admin_state \<Rightarrow> (reply \<times> admin_state) option" where
  "admin_serve cmp cfg H dp e creds req s =
     (if Username cfg \<noteq> [] \<and> PasswordHash cfg \<noteq> [] then
        (case creds of
           Some (u, p) \<Rightarrow> if credentials_ok cmp cfg u p then admin_handle H dp e req s else Some (Failed 401 ''Unauthorized'', s)
         | None \<Rightarrow> Some (Failed 401 ''Unauthorized'', s))
      else admin_handle H dp e req s)"

subsection \<open>The password\<close>

text \<open>The API is open to everyone unless both the user name and the password hash are configured;
  then a request is handled exactly when it carries that name and a password matching the hash, and
  any other leaves the state as it is and gets 401.\<close>

theorem admin_password_gate:
  "admin_serve cmp cfg H dp e creds req s =
     (if Username cfg = [] \<or> PasswordHash cfg = [] \<or> (\<exists>p. creds = Some (Username cfg, p) \<and> cmp (PasswordHash cfg) p)
      then admin_handle H dp e req s else Some (Failed 401 ''Unauthorized'', s))"
  by (auto simp: admin_serve_def credentials_ok_def split: option.split)

subsection \<open>The token API\<close>

definition scopes_valid :: "token_db \<Rightarrow> bool" where
  "scopes_valid db \<longleftrightarrow> list_all (\<lambda>r. tr_scope r \<in> set ValidScopes) (db_rows db)"

lemma scopes_insert:
  "scopes_valid db \<Longrightarrow> db_insert row db = Some db' \<Longrightarrow> tr_scope row \<in> set ValidScopes \<Longrightarrow> scopes_valid db'"
  by (auto simp: scopes_valid_def db_insert_def split: if_splits)

lemma scopes_update:
  "scopes_valid db \<Longrightarrow> (\<And>r. r \<in> set (db_rows db) \<Longrightarrow> tr_scope (f r) \<in> set ValidScopes) \<Longrightarrow> scopes_valid (db_update i f db)"
  by (auto simp: scopes_valid_def db_update_def list_all_iff)

lemma scopes_member: "scopes_valid db \<Longrightarrow> r \<in> set (db_rows db) \<Longrightarrow> tr_scope r \<in> set ValidScopes"
  by (simp add: scopes_valid_def list_all_iff)

lemma scopes_delete: "scopes_valid db \<Longrightarrow> scopes_valid (db_delete i db)"
  by (simp add: scopes_valid_def db_delete_def list_all_iff)

lemma Create_scope:
  assumes "store_Create H e req s = (r, s')" "scopes_valid (ts_db s)" "cr_Scope req = [] \<or> cr_Scope req \<in> set ValidScopes"
  shows "scopes_valid (ts_db s')"
proof (cases r)
  case (Inr p)
  obtain tk plaintext where "p = (tk, plaintext)" by (metis surj_pair)
  with assms(1) Inr have "store_Create H e req s = (Inr (tk, plaintext), s')" by simp
  then obtain db row where "db_insert row (ts_db s) = Some db" "s' = snd (loadCache e (s\<lparr>ts_db := db\<rparr>))"
      "tr_scope row = (if cr_Scope req = [] then ''write'' else cr_Scope req)"
    by (elim Create_cases) blast
  with assms(2,3) Inr scopes_insert show ?thesis by (auto simp: ValidScopes_def)
next
  case (Inl err)
  with assms show ?thesis by (auto simp: store_Create_def Let_def split: option.splits if_splits)
qed

lemma Update_scope:
  assumes "store_Update e i req s = (r, s')" "scopes_valid (ts_db s)" "\<forall>sc. up_Scope req = Some sc \<longrightarrow> sc \<in> set ValidScopes"
  shows "scopes_valid (ts_db s')"
proof (cases "\<exists>old. store_Get e i s = Inr (Some old) \<and> env_exec e")
  case True
  then obtain old where old: "store_Get e i s = Inr (Some old)" "env_exec e" by blast
  then obtain row where row: "db_get i (ts_db s) = Some row" "old = scanToken row" by (elim Get_Some)
  have "row \<in> set (db_rows (ts_db s))" using row(1) find_cases(2) by (fastforce simp: db_get_def)
  then have "tk_Scope old \<in> set ValidScopes" using assms(2) row(2) by (auto simp: scopes_valid_def list_all_iff scanToken_def)
  then have "tk_Scope (apply_update req old) \<in> set ValidScopes"
    using assms(3) by (auto simp: apply_update_def split: option.split)
  moreover have "\<And>r. r \<in> set (db_rows (ts_db s)) \<Longrightarrow> tr_scope r \<in> set ValidScopes"
    using assms(2) by (auto simp: scopes_valid_def list_all_iff)
  ultimately show ?thesis using assms(1,2) old
    by (auto simp: store_Update_def Let_def intro!: scopes_update)
next
  case False
  then have "s' = s" using assms(1)
    by (auto simp: store_Update_def Let_def split: sum.splits option.splits if_splits)
  with assms(2) show ?thesis by simp
qed

lemma Delete_scope:
  "store_Delete e i s = (r, s') \<Longrightarrow> scopes_valid (ts_db s) \<Longrightarrow> scopes_valid (ts_db s')"
  by (auto simp: store_Delete_def Let_def scopes_delete split: if_splits)

lemma Rotate_scope:
  "store_Rotate H e i s = (r, s') \<Longrightarrow> scopes_valid (ts_db s) \<Longrightarrow>
     scopes_valid (ts_db s')"
  by (auto simp: store_Rotate_def Let_def scopes_update scopes_member split: sum.splits option.splits if_splits)

lemma failed_frame:
  "store_Create H e req s = (Inl err, s') \<Longrightarrow> ts_db s' = ts_db s" "store_Update e i u s = (Inl err, s') \<Longrightarrow> ts_db s' = ts_db s"
  "store_Update e i u s = (Inr None, s') \<Longrightarrow> ts_db s' = ts_db s" "store_Delete e i s = (Some err, s') \<Longrightarrow> ts_db s' = ts_db s"
  "store_Rotate H e i s = (Inl err, s') \<Longrightarrow> ts_db s' = ts_db s"
  by (auto simp: store_Create_def store_Update_def store_Delete_def store_Rotate_def Let_def split: sum.splits option.splits if_splits)

text \<open>What a token handler may do to the store.\<close>

definition api_safe :: "token_store \<Rightarrow> reply \<times> token_store \<Rightarrow> bool" where
  "api_safe ts res \<longleftrightarrow> (scopes_valid (ts_db ts) \<longrightarrow> scopes_valid (ts_db (snd res)))
     \<and> (case fst res of Failed c m \<Rightarrow> ts_db (snd res) = ts_db ts \<and> c \<in> {400, 404, 500} | Reply c p \<Rightarrow> c \<in> {200, 201, 204})"

definition api_outcome :: "admin_state \<Rightarrow> reply \<times> admin_state \<Rightarrow> bool" where
  "api_outcome s res \<longleftrightarrow>
     (case as_tokens s of
        None \<Rightarrow> res = (Failed 503 ''token store not configured'', s)
      | Some ts \<Rightarrow> (\<exists>ts'. snd res = s\<lparr>as_tokens := Some ts'\<rparr> \<and> api_safe ts (fst res, ts')))"

lemma with_store_outcome: "(\<And>ts. api_safe ts (f ts)) \<Longrightarrow> api_outcome s (with_store s f)"
  by (auto simp: with_store_def api_outcome_def split_beta split: option.split)

lemma api_safe_cases:
  "api_safe ts (Failed c m, ts') \<longleftrightarrow> (scopes_valid (ts_db ts) \<longrightarrow> scopes_valid (ts_db ts')) \<and> ts_db ts' = ts_db ts \<and> c \<in> {400, 404, 500}"
  "api_safe ts (Reply c p, ts') \<longleftrightarrow> (scopes_valid (ts_db ts) \<longrightarrow> scopes_valid (ts_db ts')) \<and> c \<in> {200, 201, 204}"
  by (simp_all add: api_safe_def)

lemma token_handlers_outcome:
  "api_outcome s (handleListTokens e s)" "api_outcome s (handleGetToken e p s)" "api_outcome s (handleCreateToken H e b s)"
  "api_outcome s (handleUpdateToken e p u s)" "api_outcome s (handleDeleteToken e p s)" "api_outcome s (handleRotateToken H e p s)"
proof -
  show "api_outcome s (handleListTokens e s)" unfolding handleListTokens_def
    by (rule with_store_outcome) (simp add: api_safe_cases split: sum.split)
  show "api_outcome s (handleGetToken e p s)" unfolding handleGetToken_def
    by (rule with_store_outcome) (simp add: api_safe_cases split: sum.split option.split)
  show "api_outcome s (handleCreateToken H e b s)" unfolding handleCreateToken_def
    by (rule with_store_outcome) (auto simp: api_safe_cases dest: failed_frame intro: Create_scope split: option.split prod.split sum.split)
  show "api_outcome s (handleUpdateToken e p u s)" unfolding handleUpdateToken_def
    by (rule with_store_outcome) (auto simp: api_safe_cases dest: failed_frame intro: Update_scope split: option.split prod.split sum.split)
  show "api_outcome s (handleDeleteToken e p s)" unfolding handleDeleteToken_def
    by (rule with_store_outcome) (auto simp: api_safe_cases dest: failed_frame intro: Delete_scope split: option.split prod.split)
  show "api_outcome s (handleRotateToken H e p s)" unfolding handleRotateToken_def
    by (rule with_store_outcome) (auto simp: api_safe_cases dest: failed_frame intro: Rotate_scope split: option.split prod.split sum.split)
qed

text \<open>C35: Every request of the token API ends in one of four ways: without a store it gets 503; a request
  that gets any other error leaves the table as it was, the errors being 400, 404 and 500; and a
  request that succeeds gets 200, 201 or 204. Whatever the requests, every scope in the
  table stays one of the valid ones.\<close>

theorem token_api_outcomes:
  assumes "admin_handle H dp e req s = Some (r, s')"
    "req \<in> {GetTokens} \<union> range PostTokens \<union> range GetToken \<union> range (case_prod PutToken) \<union> range DeleteToken \<union> range PostRotate"
  shows "case as_tokens s of
      None \<Rightarrow> r = Failed 503 ''token store not configured'' \<and> s' = s
    | Some ts \<Rightarrow> (\<exists>ts'. s' = s\<lparr>as_tokens := Some ts'\<rparr>
        \<and> (scopes_valid (ts_db ts) \<longrightarrow> scopes_valid (ts_db ts'))
        \<and> (case r of Failed c m \<Rightarrow> ts_db ts' = ts_db ts \<and> c \<in> {400, 404, 500} | Reply c p \<Rightarrow> c \<in> {200, 201, 204}))"
proof -
  have "api_outcome s (r, s')"
    using assms by (auto simp: admin_handle_def token_handlers_outcome dest!: arg_cong [where f = "api_outcome s"])
  then show ?thesis by (cases r) (simp_all add: api_outcome_def api_safe_def split: option.splits)
qed


theorem token_api_outcomes_witness:
  "(case as_tokens (snd (handleDeleteToken (fresh_env 5 ''AB'') ''7'' \<lparr>as_tokens = Some empty_store, as_buffer = None\<rparr>)) of
      None \<Rightarrow> False | Some ts \<Rightarrow> ts_db ts = ts_db empty_store \<and> scopes_valid (ts_db ts))"
proof -
  let ?s = "\<lparr>as_tokens = Some empty_store, as_buffer = None\<rparr>"
  have "parse_int_opt ''7'' = Some 7" by (simp add: decimal_simps)
  then have h: "fst (handleDeleteToken (fresh_env 5 ''AB'') ''7'' ?s) = Failed 404 ''token not found''"
    by (simp add: handleDeleteToken_def with_store_def store_Delete_def fresh_env_def empty_store_def)
  obtain r s' where d: "handleDeleteToken (fresh_env 5 ''AB'') ''7'' ?s = (r, s')" by (metis surj_pair)
  then have "admin_handle id undefined (fresh_env 5 ''AB'') (DeleteToken ''7'') ?s = Some (r, s')"
    by (simp add: admin_handle_def)
  from token_api_outcomes [OF this] h d show ?thesis
    by (auto simp: scopes_valid_def empty_store_def)
qed

subsection \<open>Filters and pages\<close>


text \<open>The SQLite store behind the interface.\<close>

definition sqlite_access :: "(f64 list \<Rightarrow> f64) \<Rightarrow> bool \<Rightarrow> log_row list \<Rightarrow> log_access" where
  "sqlite_access avg ok rows =
     \<lparr>la_Query = (\<lambda>f. log_Query ok f rows), la_Count = (\<lambda>f. log_Count ok f rows), la_BackendStats = (\<lambda>since. log_BackendStats avg ok since rows)\<rparr>"

text \<open>The cursor a page of logs comes with is the number of its entries, not the id of its last one.
  Asking for the next page with it, newest first, gives the matching rows whose id is below that
  number: a log of \<open>n\<close> rows is never read between its newest page and the ids below the page size.\<close>

theorem logs_cursor_skips:
  assumes "ad_LogStore dp = Some (sqlite_access avg True rows)" "handleLogs dp q s = Reply 200 (PLogs page m n cursor)" "page \<noteq> []"
    "lf_SortDesc (parseLogFilter dp q)" "parseLogFilter dp q2 = (parseLogFilter dp q)\<lparr>lf_Cursor := cursor\<rparr>"
    "lf_Cursor (parseLogFilter dp q) = 0"
  shows "cursor = int (length page)
     \<and> (\<exists>m2 n2 cursor2. handleLogs dp q2 s = Reply 200 (PLogs
          (map snd (take (effective_limit (parseLogFilter dp q))
             (rev (filter (\<lambda>r. where_holds (parseLogFilter dp q) r \<and> fst r < int (length page)) rows)))) m2 n2 cursor2))"
proof -
  let ?f = "parseLogFilter dp q"
  have c: "cursor = int (length page)"
    using assms(1-3) by (auto simp: handleLogs_def sqlite_access_def log_Query_def Let_def split: if_splits)
  then have "0 < cursor" using assms(3) by simp
  then have w: "where_holds (?f\<lparr>lf_Cursor := cursor\<rparr>) = (\<lambda>r. where_holds ?f r \<and> fst r < cursor)"
    using assms(4,6) by (intro ext) (auto simp: where_holds_iff)
  have l: "effective_limit (?f\<lparr>lf_Cursor := cursor\<rparr>) = effective_limit ?f" by (simp add: effective_limit_def)
  show ?thesis using assms(1,4,5)
    by (simp add: handleLogs_def sqlite_access_def log_Query_def query_rows_def w l Let_def) (simp add: c)
qed


definition sample_admin :: "log_row list \<Rightarrow> admin_deps" where
  "sample_admin rows = \<lparr>ad_LogStore = Some (sqlite_access (\<lambda>xs. 0) True rows), ad_Health = None, ad_Router = None, ad_Config = None,
     ad_Version = ''dev'', ad_StartTime = 0, ad_now = 0, ad_time = (\<lambda>_. None), ad_float = (\<lambda>_. 0), ad_rfc3339 = show_int,
     ad_quote = id, ad_fixed2 = (\<lambda>_. ''0.00''), ad_range = (\<lambda>_. [])\<rparr>"

lemma query_params:
  "query_param ''limit=1'' ''limit'' = ''1''" "query_param ''limit=1'' ''cursor'' = []" "query_param ''limit=1'' ''sort'' = []"
  "query_param ''limit=1'' ''method'' = []" "query_param ''limit=1'' ''token_name'' = []" "query_param ''limit=1'' ''backend'' = []"
  "query_param ''limit=1'' ''status_code'' = []" "query_param ''limit=1'' ''status_min'' = []" "query_param ''limit=1'' ''status_max'' = []"
  "query_param ''limit=1'' ''from'' = []" "query_param ''limit=1'' ''to'' = []" "query_param ''limit=1'' ''latency_min'' = []"
  "query_param ''limit=1&cursor=1'' ''limit'' = ''1''" "query_param ''limit=1&cursor=1'' ''cursor'' = ''1''" "query_param ''limit=1&cursor=1'' ''sort'' = []"
  "query_param ''limit=1&cursor=1'' ''method'' = []" "query_param ''limit=1&cursor=1'' ''token_name'' = []" "query_param ''limit=1&cursor=1'' ''backend'' = []"
  "query_param ''limit=1&cursor=1'' ''status_code'' = []" "query_param ''limit=1&cursor=1'' ''status_min'' = []" "query_param ''limit=1&cursor=1'' ''status_max'' = []"
  "query_param ''limit=1&cursor=1'' ''from'' = []" "query_param ''limit=1&cursor=1'' ''to'' = []" "query_param ''limit=1&cursor=1'' ''latency_min'' = []"
  by code_simp+

theorem logs_cursor_skips_witness:
  "(let dp = sample_admin [(1, numbered 1), (2, numbered 2), (3, numbered 3)]; s = \<lparr>as_tokens = None, as_buffer = None\<rparr>
    in (\<exists>m n. handleLogs dp ''limit=1'' s = Reply 200 (PLogs [numbered 3] m n 1))
     \<and> (\<exists>m n c. handleLogs dp ''limit=1&cursor=1'' s = Reply 200 (PLogs [] m n c)))"
proof -
  let ?dp = "sample_admin [(1, numbered 1), (2, numbered 2), (3, numbered 3)]" and ?s = "\<lparr>as_tokens = None, as_buffer = None\<rparr>"
  have one: "atoi_or_clamp ''1'' = 1" by (simp add: atoi_or_clamp_def decimal_simps)
  have ls: "ad_LogStore ?dp = Some (sqlite_access (\<lambda>xs. 0) True [(1, numbered 1), (2, numbered 2), (3, numbered 3)])"
    by (simp add: sample_admin_def)
  have f: "parseLogFilter ?dp ''limit=1'' = \<lparr>lf_Method = [], lf_TokenName = [], lf_Backend = [], lf_StatusCode = 0, lf_StatusMin = 0,
      lf_StatusMax = 0, lf_From = None, lf_To = None, lf_LatencyMin = 0, lf_Limit = 1, lf_Cursor = 0, lf_SortDesc = True\<rparr>"
    by (simp add: parseLogFilter_def clamp_limit_def param_or_def query_params one Let_def)
  have f2: "parseLogFilter ?dp ''limit=1&cursor=1'' = (parseLogFilter ?dp ''limit=1'')\<lparr>lf_Cursor := 1\<rparr>"
    unfolding f by (simp add: parseLogFilter_def clamp_limit_def param_or_def query_params one Let_def)
  have w: "where_holds (parseLogFilter ?dp ''limit=1'') r" for r by (simp add: where_holds_iff f)
  have e: "effective_limit (parseLogFilter ?dp ''limit=1'') = 1" by (simp add: effective_limit_def f)
  have sd: "lf_SortDesc (parseLogFilter ?dp ''limit=1'')" by (simp add: f)
  have qr: "query_rows (parseLogFilter ?dp ''limit=1'') [(1, numbered 1), (2, numbered 2), (3, numbered 3)] = [(3, numbered 3)]"
    by (simp add: query_rows_def w e sd Let_def)
  obtain m n where h: "handleLogs ?dp ''limit=1'' ?s = Reply 200 (PLogs [numbered 3] m n 1)"
    by (simp add: handleLogs_def ls sqlite_access_def log_Query_def qr Let_def)
  from logs_cursor_skips [OF ls h _ _ f2] have "\<exists>m n c. handleLogs ?dp ''limit=1&cursor=1'' ?s = Reply 200 (PLogs [] m n c)"
    by (simp add: f)
  with h show ?thesis by (auto simp: Let_def)
qed

subsection \<open>Reading an export back\<close>

text \<open>A reader of comma-separated text: a field's text and what follows it, the fields of a line, the
  lines. The number of steps is bounded by the length of the text.\<close>

fun read_quoted :: "string \<Rightarrow> (string \<times> string) option" where
  "read_quoted [] = None"
| "read_quoted (c # cs) =
     (if c = CHR 0x22 then
        (case cs of d # ds \<Rightarrow> if d = CHR 0x22 then map_option (apfst (Cons d)) (read_quoted ds) else Some ([], cs) | [] \<Rightarrow> Some ([], []))
      else map_option (apfst (Cons c)) (read_quoted cs))"

definition field_end :: "char \<Rightarrow> bool" where
  "field_end c \<longleftrightarrow> c = CHR '','' \<or> c = CHR 0x0A"

definition read_field :: "string \<Rightarrow> (string \<times> string) option" where
  "read_field s =
     (case s of
        c # cs \<Rightarrow> if c = CHR 0x22 then read_quoted cs else Some (takeWhile (\<lambda>c. \<not> field_end c) s, dropWhile (\<lambda>c. \<not> field_end c) s)
      | [] \<Rightarrow> Some ([], []))"

fun read_line :: "nat \<Rightarrow> string \<Rightarrow> (string list \<times> string) option" where
  "read_line 0 s = None"
| "read_line (Suc n) s =
     (case read_field s of
        Some (f, c # r) \<Rightarrow>
          if c = CHR 0x0A then Some ([f], r)
          else if c = CHR '','' then map_option (apfst (Cons f)) (read_line n r) else None
      | _ \<Rightarrow> None)"

fun read_lines :: "nat \<Rightarrow> string \<Rightarrow> string list list option" where
  "read_lines n [] = Some []"
| "read_lines 0 s = None"
| "read_lines (Suc n) s =
     (case read_line (length s) s of None \<Rightarrow> None | Some (fs, r) \<Rightarrow> map_option (Cons fs) (read_lines n r))"

definition read_csv :: "string \<Rightarrow> string list list option" where
  "read_csv s = read_lines (length s) s"

lemma read_quoted_escaped:
  "r = [] \<or> hd r \<noteq> CHR 0x22 \<Longrightarrow>
     read_quoted (concat (map (\<lambda>c. if c = CHR 0x22 then [c, c] else [c]) s) @ CHR 0x22 # r) = Some (s, r)"
  by (induction s) (auto split: list.split)

lemma read_field_csv:
  assumes "field_end c"
  shows "read_field (csv_field s @ c # r) = Some (s, c # r)"
proof (cases "field_needs_quotes s")
  case True
  moreover have "c \<noteq> CHR 0x22" using assms by (auto simp: field_end_def)
  ultimately show ?thesis by (simp add: csv_field_def read_field_def read_quoted_escaped)
next
  case False
  then have n: "list_all (\<lambda>c. \<not> field_end c \<and> c \<noteq> CHR 0x22) s"
    by (auto simp: field_needs_quotes_def list_ex_iff list_all_iff field_end_def)
  then have "takeWhile (\<lambda>c. \<not> field_end c) (s @ c # r) = s \<and> dropWhile (\<lambda>c. \<not> field_end c) (s @ c # r) = c # r"
    using assms by (induction s) auto
  with False n assms show ?thesis
    by (cases s) (auto simp: csv_field_def read_field_def field_end_def split: if_splits)
qed

lemma read_line_csv:
  "fs \<noteq> [] \<Longrightarrow> length fs \<le> n \<Longrightarrow> read_line n (csv_record fs @ r) = Some (fs, r)"
proof (induction fs arbitrary: n)
  case (Cons f fs)
  then obtain m where m: "n = Suc m" "length fs \<le> m" by (cases n) auto
  show ?case
  proof (cases fs)
    case Nil
    then show ?thesis by (simp add: m csv_record_def read_field_csv field_end_def)
  next
    case (Cons g gs)
    then have "csv_record (f # fs) @ r = csv_field f @ CHR '','' # (csv_record fs @ r)" by (simp add: csv_record_def)
    with Cons.IH [of m] m Cons show ?thesis by (simp add: read_field_csv field_end_def)
  qed
qed simp

lemma csv_record_length: "length fs \<le> length (csv_record fs)"
proof (induction fs)
  case (Cons f fs)
  then show ?case by (cases fs) (simp_all add: csv_record_def)
qed simp

lemma read_lines_csv:
  "list_all (\<lambda>fs. fs \<noteq> []) rows \<Longrightarrow> length rows \<le> n \<Longrightarrow> read_lines n (concat (map csv_record rows)) = Some rows"
proof (induction rows arbitrary: n)
  case (Cons fs rows)
  then obtain m where m: "n = Suc m" "length rows \<le> m" by (cases n) auto
  let ?s = "csv_record fs @ concat (map csv_record rows)"
  have l: "length fs \<le> length ?s" using csv_record_length [of fs] by simp
  have ne: "?s \<noteq> []" by (simp add: csv_record_def)
  then have "read_lines n ?s = (case read_line (length ?s) ?s of None \<Rightarrow> None | Some (fs, r) \<Rightarrow> map_option (Cons fs) (read_lines m r))"
    by (cases ?s) (simp_all add: m(1))
  also have "\<dots> = Some (fs # rows)" using Cons m l by (simp add: read_line_csv)
  finally show ?case by simp
qed simp

lemma limit_pos: "lf_Limit (parseLogFilter dp q) \<noteq> 0"
  by (simp add: parseLogFilter_def clamp_limit_def Let_def)




subsection \<open>Health of the backends\<close>

lemma key_is_name: "endpointHealthKey = endpointName"
  by (simp add: endpointHealthKey_def endpointName_def fun_eq_iff)

lemma names_of_defs:
  "check_names b = concat (map (\<lambda>(name, eps). map (\<lambda>i. endpointName name i (length eps)) [0..<length eps]) (backend_defs b))"
  by (simp add: check_names_def checks_of_def backend_defs_def pool_names)

lemma def_base: "(name, eps) \<in> set (backend_defs b) \<Longrightarrow> CHR ''/'' \<notin> set name"
  by (auto simp: backend_defs_def)

lemma def_unique: "(name, eps) \<in> set (backend_defs b) \<Longrightarrow> (name, eps') \<in> set (backend_defs b) \<Longrightarrow> eps = eps'"
  by (auto simp: backend_defs_def)

lemma base_of_belongs: "CHR ''/'' \<notin> set name \<Longrightarrow> belongs name key \<Longrightarrow> base_of key = name"
  by (auto simp: belongs_def base_of_def prefix_def takeWhile_tail takeWhile_eq_all_conv)

lemma name_belongs: "belongs name (endpointName name i n)"
  by (auto simp: belongs_def endpointName_def)

lemma belongs_iff:
  assumes "(name, eps) \<in> set (backend_defs b)" "key \<in> set (check_names b)"
  shows "belongs name key \<longleftrightarrow> (\<exists>i < length eps. key = endpointName name i (length eps))"
proof
  assume bel: "belongs name key"
  obtain name' eps' i where k: "(name', eps') \<in> set (backend_defs b)" "i < length eps'" "key = endpointName name' i (length eps')"
    using assms(2) unfolding names_of_defs by auto
  have "name' = name" using base_of_belongs [OF def_base [OF assms(1)] bel] base_of_name [OF def_base [OF k(1)]] k(3) by simp
  with k def_unique [OF assms(1)] show "\<exists>i < length eps. key = endpointName name i (length eps)" by blast
qed (auto simp: name_belongs)

lemma aggregate_parts:
  "(fst (health_aggregate name hm keys) \<longleftrightarrow> (\<forall>key \<in> set keys. case hm key of Some hs \<Rightarrow> belongs name key \<longrightarrow> hc_Healthy hs | None \<Rightarrow> True))
   \<and> snd (snd (health_aggregate name hm keys)) = length (filter (\<lambda>key. hm key \<noteq> None \<and> belongs name key) keys)"
proof (induction keys rule: rev_induct)
  case (snoc key keys)
  obtain a t n where acc: "health_aggregate name hm keys = (a, t, n)" by (metis surj_pair)
  have "health_aggregate name hm (keys @ [key]) = health_step name hm (a, t, n) key"
    using acc by (simp add: health_aggregate_def)
  with snoc acc show ?case by (auto simp: health_step_def split: option.splits)
qed (simp add: health_aggregate_def)

text \<open>C34: With one status for every endpoint, as the checker has after its first round, the API shows for the
  endpoint at position \<open>i\<close> of a backend the result of that endpoint's own probe, and calls a
  backend healthy exactly when all its endpoints are: no other backend's probe counts, although the keys
  are matched by prefix.\<close>

theorem backends_show_own_health:
  assumes "ad_Config dp = Some cfg" "ad_Health dp = Some hm" "dom hm = set (check_names (Backends cfg))" "set (ad_range dp hm) = dom hm"
    "handleBackends dp q = Reply 200 (PBackends infos)" "info \<in> set infos"
  shows "map ei_Healthy (bi_EndpointStats info) =
      map (\<lambda>i. map_option hc_Healthy (hm (endpointName (bi_Name info) i (length (bi_Endpoints info))))) [0..<length (bi_Endpoints info)]
    \<and> None \<notin> set (map ei_Healthy (bi_EndpointStats info))
    \<and> bi_Healthy info = Some (list_all (\<lambda>ei. ei_Healthy ei = Some True) (bi_EndpointStats info))"
proof -
  obtain statsMap name eps where d: "(name, eps) \<in> set (backend_defs (Backends cfg))" "eps \<noteq> []" "info = backend_info_of dp statsMap (name, eps)"
    using assms(1,5,6) by (auto simp: handleBackends_def Let_def)
  obtain a t n where agg: "health_aggregate name hm (ad_range dp hm) = (a, t, n)" by (metis surj_pair)
  have ms: "bi_Name (merge_stat st i) = bi_Name i" "bi_Endpoints (merge_stat st i) = bi_Endpoints i"
      "bi_EndpointStats (merge_stat st i) = bi_EndpointStats i" "bi_Healthy (merge_stat st i) = bi_Healthy i" for st i
    by (auto simp: merge_stat_def Let_def split: option.split)
  let ?key = "\<lambda>i. endpointName name i (length eps)"
  have own: "?key i \<in> set (ad_range dp hm)" "hm (?key i) \<noteq> None" if "i < length eps" for i
  proof -
    have "?key i \<in> set (check_names (Backends cfg))" using d(1) that unfolding names_of_defs by fastforce
    then show "?key i \<in> set (ad_range dp hm)" "hm (?key i) \<noteq> None" using assms(3,4) by auto
  qed
  have parts: "bi_Name info = name" "bi_Endpoints info = eps" "bi_Healthy info = (if 0 < n then Some a else None)"
      "map ei_Healthy (bi_EndpointStats info) = map (\<lambda>i. map_option hc_Healthy (hm (?key i))) [0..<length eps]"
    using agg assms(2) unfolding d(3) backend_info_of_def
    by (auto simp: ms Let_def key_is_name endpoint_info_of_def nth_enumerate_eq intro: nth_equalityI)
  have nz: "0 < n"
  proof -
    have "?key 0 \<in> set (filter (\<lambda>key. hm key \<noteq> None \<and> belongs name key) (ad_range dp hm))"
      using own [of 0] d(2) name_belongs by simp
    then have "0 < length (filter (\<lambda>key. hm key \<noteq> None \<and> belongs name key) (ad_range dp hm))" by (rule length_pos_if_in_set)
    also have "\<dots> = n" using aggregate_parts [of name hm "ad_range dp hm"] agg by simp
    finally show ?thesis .
  qed
  have "a \<longleftrightarrow> (\<forall>i < length eps. map_option hc_Healthy (hm (?key i)) = Some True)"
  proof -
    have "a \<longleftrightarrow> (\<forall>key \<in> set (ad_range dp hm). case hm key of Some hs \<Rightarrow> belongs name key \<longrightarrow> hc_Healthy hs | None \<Rightarrow> True)"
      using aggregate_parts [of name hm "ad_range dp hm"] agg by simp
    also have "\<dots> \<longleftrightarrow> (\<forall>i < length eps. map_option hc_Healthy (hm (?key i)) = Some True)"
    proof (intro iffI allI impI ballI)
      fix i assume h: "\<forall>key \<in> set (ad_range dp hm). case hm key of Some hs \<Rightarrow> belongs name key \<longrightarrow> hc_Healthy hs | None \<Rightarrow> True" "i < length eps"
      obtain hs where hs: "hm (?key i) = Some hs" using own(2) [OF h(2)] by blast
      with h(1) own(1) [OF h(2)] name_belongs show "map_option hc_Healthy (hm (?key i)) = Some True" by fastforce
    next
      fix key assume h: "\<forall>i < length eps. map_option hc_Healthy (hm (?key i)) = Some True" "key \<in> set (ad_range dp hm)"
      then have "key \<in> set (check_names (Backends cfg))" using assms(3,4) by simp
      with h(1) belongs_iff [OF d(1)] show "case hm key of Some hs \<Rightarrow> belongs name key \<longrightarrow> hc_Healthy hs | None \<Rightarrow> True"
        by (auto split: option.split)
    qed
    finally show ?thesis .
  qed
  moreover have "list_all (\<lambda>x. x = Some True) (map (\<lambda>i. map_option hc_Healthy (hm (?key i))) [0..<length eps])
      \<longleftrightarrow> (\<forall>i < length eps. map_option hc_Healthy (hm (?key i)) = Some True)"
    by (auto simp: list_all_iff)
  moreover have "list_all (\<lambda>ei. ei_Healthy ei = Some True) (bi_EndpointStats info)
      \<longleftrightarrow> list_all (\<lambda>x. x = Some True) (map ei_Healthy (bi_EndpointStats info))"
    by (simp add: list_all_iff)
  ultimately have "list_all (\<lambda>ei. ei_Healthy ei = Some True) (bi_EndpointStats info) \<longleftrightarrow> a" by (simp only: parts(4))
  moreover have "None \<notin> set (map (\<lambda>i. map_option hc_Healthy (hm (?key i))) [0..<length eps])" using own(2) by fastforce
  ultimately show ?thesis using nz unfolding parts by simp
qed

definition sample_config :: config where
  "sample_config =
     \<lparr>Server = \<lparr>srv_Listen = '':8080'', GRPCListen = [], P2PListen = [], TLSCert = [], TLSKey = [], ReadTimeout = 0, WriteTimeout = 0, MaxBodySize = []\<rparr>,
      Backends = sample_backends, Tokens = [],
      Admin = \<lparr>adm_Listen = '':8081'', Username = [], PasswordHash = [], CORSOrigins = [], LogBufferSize = 100, LogRetentionDays = 7, LogDBPath = []\<rparr>,
      Logging = \<lparr>Level = ''info'', Format = ''json''\<rparr>, Metrics = \<lparr>met_Listen = [], met_Enabled = None\<rparr>,
      CacheCfg = \<lparr>cch_Enabled = False, cch_RedisURL = [], cch_TTL = 0, MaxEntrySize = []\<rparr>,
      Storage = \<lparr>LogDriver = ''sqlite'', PostgresDSN = [], sto_RedisURL = []\<rparr>,
      Tracing = \<lparr>trc_Enabled = False, trc_Endpoint = [], trc_SampleRate = 0\<rparr>\<rparr>"

theorem backends_show_own_health_witness:
  "(let hm = [''celestia-app-rpc'' \<mapsto> healthy 0, ''celestia-node-rpc'' \<mapsto> unhealthy 0 ''refused'', ''celestia-node-archival-rpc'' \<mapsto> healthy 0];
        dp = (sample_admin [])\<lparr>ad_Config := Some sample_config, ad_Health := Some hm,
               ad_range := (\<lambda>_. [''celestia-node-rpc'', ''celestia-node-archival-rpc'', ''celestia-app-rpc''])\<rparr>
    in \<forall>infos. handleBackends dp [] = Reply 200 (PBackends infos) \<longrightarrow>
         (\<forall>info \<in> set infos. bi_Name info = ''celestia-node-rpc'' \<longrightarrow> bi_Healthy info \<noteq> None))"
proof -
  let ?hm = "[''celestia-app-rpc'' \<mapsto> healthy 0, ''celestia-node-rpc'' \<mapsto> unhealthy 0 ''refused'', ''celestia-node-archival-rpc'' \<mapsto> healthy 0]"
  let ?dp = "(sample_admin [])\<lparr>ad_Config := Some sample_config, ad_Health := Some ?hm,
               ad_range := (\<lambda>_. [''celestia-node-rpc'', ''celestia-node-archival-rpc'', ''celestia-app-rpc''])\<rparr>"
  have b: "Backends sample_config = sample_backends" by (simp add: sample_config_def)
  have "dom ?hm = set (check_names (Backends sample_config))" unfolding b
    by (auto simp: check_names_def checks_of_def pool_names sample_backends_def endpointName_def)
  moreover have "set (ad_range ?dp ?hm) = dom ?hm" by auto
  ultimately show ?thesis using backends_show_own_health [of ?dp sample_config ?hm] by (auto simp: Let_def)
qed

end
