(* ===== verification/ProxyServer.thy ===== *)
theory ProxyServer
  imports Handler WebSocket LogSinks Admin
begin

text \<open>
  \<open>cmd/da-proxy/main.go\<close>: the proxy server, put together from the token store, the rate limiter, the
  log sinks, the metrics, the middleware in their order and the two handlers, with the tracing
  middleware of \<open>internal/tracing/middleware.go\<close> when it is enabled.

  The process is one record of the components' states; the two handlers share the router. What one
  request meets (clock readings, fresh ids, the database, Redis) is a \<open>req_env\<close>, what never changes
  a \<open>wiring\<close>.
\<close>

subsection \<open>Tracing\<close>

record span =
  sn_Name :: string
  sn_Attributes :: "(string \<times> string) list"
  sn_Status :: int
  sn_Error :: "string option"

record trace_env =
  te_verb :: string
  te_scheme :: string
  te_agent :: string
  te_trace_id :: "string option"
  te_text :: "herror \<Rightarrow> string"

definition attr :: "string \<Rightarrow> string option \<Rightarrow> (string \<times> string) list" where
  "attr k v = (case v of None \<Rightarrow> [] | Some x \<Rightarrow> [(k, x)])"

text \<open>\<open>te_trace_id\<close> is the span's trace id, if valid; \<open>add\<close> hands the span to the exporter.\<close>

definition tracing_Middleware :: "trace_env \<Rightarrow> (span \<Rightarrow> 's \<Rightarrow> 's) \<Rightarrow> 's handler \<Rightarrow> 's handler" where
  "tracing_Middleware te add next s c =
     (let spanName = te_verb te @ '' '' @ rq_Path c;
          attrs = [(''http.method'', te_verb te), (''http.target'', rq_Path c), (''http.scheme'', te_scheme te), (''http.user_agent'', te_agent te)]
      in case next s c of (err, c', s') \<Rightarrow>
        (let status = rs_Status c';
             attrs = attrs @ attr ''da.backend'' (cv_Backend c') @ attr ''da.rpc_method'' (cv_RPCMethod c') @ attr ''da.token_name'' (cv_TokenName c');
             c' = (case te_trace_id te of None \<Rightarrow> c' | Some i \<Rightarrow> set_resp_header ''X-Trace-Id'' i c');
             problem = (case err of Some e \<Rightarrow> Some (te_text te e) | None \<Rightarrow> if 500 \<le> status then Some ''server error'' else None)
         in (err, c', add \<lparr>sn_Name = spanName, sn_Attributes = attrs, sn_Status = status, sn_Error = problem\<rparr> s')))"

subsection \<open>The process\<close>

record ('c, 'w, 'v, 'l, 'd) sys =
  sy_tokens :: token_store
  sy_limiters :: "'l limiters"
  sy_redis :: redis_sets
  sy_h :: "('c, 'w) hstate"
  sy_ws :: "'v ws_state"
  sy_ring :: ring_buffer
  sy_log :: "'d writer"
  sy_metrics :: metrics
  sy_spans :: "span list"
  sy_panicked :: bool

record req_env =
  re_uuid :: string
  re_env :: env
  re_now :: int
  re_redis :: "(redis_sets \<Rightarrow> redis_sets) option"
  re_redis_now :: int
  re_log_start :: int
  re_log_finish :: int
  re_met_start :: int
  re_met_finish :: int
  re_trace :: trace_env

record ('c, 'w, 'v, 'l) wiring =
  wi_hash :: "string \<Rightarrow> string"
  wi_new_limiter :: "f64 \<Rightarrow> int \<Rightarrow> 'l"
  wi_allow :: "'l \<Rightarrow> bool \<times> 'l"
  wi_handler :: "('c, 'w) deps"
  wi_ws :: "'v ws_deps"

type_synonym ('c, 'w, 'v, 'l, 'd) sys_handler = "('c, 'w, 'v, 'l, 'd) sys handler"

text \<open>Each component works on its part of the process.\<close>

definition sys_lookup :: "(string \<Rightarrow> string) \<Rightarrow> env \<Rightarrow> string \<Rightarrow> ('c, 'w, 'v, 'l, 'd) sys \<Rightarrow> token_info option \<times> ('c, 'w, 'v, 'l, 'd) sys" where
  "sys_lookup H e t s = (case sqlite_Lookup H e t (sy_tokens s) of (r, ts) \<Rightarrow> (r, s\<lparr>sy_tokens := ts\<rparr>))"

definition sys_allow ::
  "('c, 'w, 'v, 'l) wiring \<Rightarrow> string \<Rightarrow> int \<Rightarrow> ('c, 'w, 'v, 'l, 'd) sys \<Rightarrow> bool \<times> ('c, 'w, 'v, 'l, 'd) sys" where
  "sys_allow wi n r s = (case memory_allow (wi_new_limiter wi) (wi_allow wi) n r (sy_limiters s) of (ok, ls) \<Rightarrow> (ok, s\<lparr>sy_limiters := ls\<rparr>))"

definition sys_redis_Allow ::
  "req_env \<Rightarrow> string \<Rightarrow> int \<Rightarrow> ('c, 'w, 'v, 'l, 'd) sys \<Rightarrow> bool \<times> ('c, 'w, 'v, 'l, 'd) sys" where
  "sys_redis_Allow re n r s = (case redis_Allow (re_redis re) (re_redis_now re) n r (sy_redis s) of (ok, rs) \<Rightarrow> (ok, s\<lparr>sy_redis := rs\<rparr>))"

definition ring_sink :: "log_entry \<Rightarrow> ('c, 'w, 'v, 'l, 'd) sys \<Rightarrow> ('c, 'w, 'v, 'l, 'd) sys" where
  "ring_sink e s = (case ring_Push e (sy_ring s) of Some rb \<Rightarrow> s\<lparr>sy_ring := rb\<rparr> | None \<Rightarrow> s\<lparr>sy_panicked := True\<rparr>)"

definition store_sink :: "log_entry \<Rightarrow> ('c, 'w, 'v, 'l, 'd) sys \<Rightarrow> ('c, 'w, 'v, 'l, 'd) sys" where
  "store_sink e s = (case store_Push e (sy_log s) of Done w \<Rightarrow> s\<lparr>sy_log := w\<rparr> | _ \<Rightarrow> s\<lparr>sy_panicked := True\<rparr>)"

definition on_handler :: "('c, 'w) hstate handler \<Rightarrow> ('c, 'w, 'v, 'l, 'd) sys_handler" where
  "on_handler f s c = (case f (sy_h s) c of (err, c', h) \<Rightarrow> (err, c', s\<lparr>sy_h := h\<rparr>))"

definition on_ws :: "'v ws_state handler \<Rightarrow> ('c, 'w, 'v, 'l, 'd) sys_handler" where
  "on_ws f s c =
     (case f ((sy_ws s)\<lparr>wx_router := hs_router (sy_h s)\<rparr>) c of (err, c', x) \<Rightarrow>
        (err, c', s\<lparr>sy_ws := x, sy_h := (sy_h s)\<lparr>hs_router := wx_router x\<rparr>\<rparr>))"

subsection \<open>The server\<close>

definition dispatch :: "('c, 'w, 'v, 'l) wiring \<Rightarrow> ('c, 'w, 'v, 'l, 'd) sys_handler" where
  "dispatch wi s c =
     (if IsWebSocketUpgrade c then on_ws (ws_Handle (wi_ws wi)) s c else on_handler (HandleRequest (wi_handler wi)) s c)"

definition rate_limit_middleware ::
  "config \<Rightarrow> ('c, 'w, 'v, 'l) wiring \<Rightarrow> req_env \<Rightarrow> ('c, 'w, 'v, 'l, 'd) sys_handler \<Rightarrow> ('c, 'w, 'v, 'l, 'd) sys_handler" where
  "rate_limit_middleware cfg wi re =
     (if sto_RedisURL (Storage cfg) \<noteq> [] then RedisRateLimit (sys_redis_Allow re) else RateLimit (sys_allow wi))"

definition observed :: "('c, 'w, 'v, 'l) wiring \<Rightarrow> req_env \<Rightarrow> ('c, 'w, 'v, 'l, 'd) sys_handler" where
  "observed wi re =
     AccessLogger [Some ring_sink, Some store_sink] (re_log_start re) (re_log_finish re)
       (MetricsMiddleware (\<lambda>f s. s\<lparr>sy_metrics := f (sy_metrics s)\<rparr>) (re_met_start re) (re_met_finish re) (dispatch wi))"

definition gated ::
  "config \<Rightarrow> ('c, 'w, 'v, 'l) wiring \<Rightarrow> req_env \<Rightarrow> ('c, 'w, 'v, 'l, 'd) sys_handler" where
  "gated cfg wi re = Auth (sys_lookup (wi_hash wi) (re_env re)) (re_now re) (rate_limit_middleware cfg wi re (observed wi re))"

definition proxyServer ::
  "config \<Rightarrow> ('c, 'w, 'v, 'l) wiring \<Rightarrow> req_env \<Rightarrow> ('c, 'w, 'v, 'l, 'd) sys_handler" where
  "proxyServer cfg wi re =
     RequestID (re_uuid re)
       (if trc_Enabled (Tracing cfg) then tracing_Middleware (re_trace re) (\<lambda>sp s. s\<lparr>sy_spans := sy_spans s @ [sp]\<rparr>) (gated cfg wi re)
        else gated cfg wi re)"

subsection \<open>The context keeps its request\<close>

text \<open>What the handlers leave alone in the context.\<close>

definition same_request :: "ctx \<Rightarrow> ctx \<Rightarrow> bool" where
  "same_request c c' \<longleftrightarrow> rq_Path c' = rq_Path c \<and> cv_TokenName c' = cv_TokenName c \<and> cv_RequestID c' = cv_RequestID c
     \<and> rq_RealIP c' = rq_RealIP c"

lemma same_request_simps [simp]:
  "same_request c c" "same_request c (set_resp_header k v c') \<longleftrightarrow> same_request c c'"
  "same_request c (write_header n c') \<longleftrightarrow> same_request c c'" "same_request c (write_body b c') \<longleftrightarrow> same_request c c'"
  "same_request c (c'\<lparr>rs_Header := h\<rparr>) \<longleftrightarrow> same_request c c'"
  "same_request c (c'\<lparr>cv_Backend := x\<rparr>) \<longleftrightarrow> same_request c c'" "same_request c (c'\<lparr>cv_RPCMethod := y\<rparr>) \<longleftrightarrow> same_request c c'"
  "same_request (c\<lparr>cv_Backend := x\<rparr>) c' \<longleftrightarrow> same_request c c'" "same_request (c\<lparr>cv_RPCMethod := y\<rparr>) c' \<longleftrightarrow> same_request c c'"
  by (auto simp: same_request_def set_resp_header_def write_header_def write_body_def Let_def)

lemma flush_request: "flushBuffered dp buf b m h rb sc s c = (err, c', s') \<Longrightarrow> same_request c c'"
  by (auto simp: flushBuffered_def Let_def)

lemma proxyWithRetry_request:
  "proxyWithRetry dp d t path q body h sc s c = (err, c', s') \<Longrightarrow> same_request c c'"
  by (auto simp: proxyWithRetry_def Let_def dest!: flush_request split: prod.splits if_splits)

lemma proxyDirect_request:
  "proxyDirect dp d t path q body h sc s c = (err, c', s') \<Longrightarrow> same_request c c'"
  by (auto simp: proxyDirect_def serve_response_def Let_def split: prod.splits option.splits)

lemma serve_decision_request:
  "serve_decision dp d path q body s c = (err, c', s') \<Longrightarrow> same_request c c'"
  by (auto simp: serve_decision_def serve_cached_def Let_def dest: proxyWithRetry_request proxyDirect_request
      split: prod.splits option.splits if_splits)

lemma HandleRequest_request: "HandleRequest dp s c = (err, c', s') \<Longrightarrow> same_request c c'"
  by (auto simp: HandleRequest_def Let_def dest!: serve_decision_request split: prod.splits option.splits sum.splits if_splits)

lemma ws_Handle_request: "ws_Handle dp s c = (err, c', s') \<Longrightarrow> same_request c c'"
  by (auto simp: ws_Handle_def ws_connect_def Let_def split: prod.splits option.splits if_splits)

lemma dispatch_request: "dispatch wi s c = (err, c', s') \<Longrightarrow> same_request c c'"
  by (auto simp: dispatch_def on_ws_def on_handler_def dest: HandleRequest_request ws_Handle_request split: prod.splits if_splits)

lemma dispatch_frame:
  "dispatch wi s c = (err, c', s') \<Longrightarrow> s' = s\<lparr>sy_h := sy_h s', sy_ws := sy_ws s'\<rparr>"
  by (auto simp: dispatch_def on_ws_def on_handler_def split: prod.splits if_splits)

subsection \<open>What a request passes on its way\<close>

definition tagged :: "req_env \<Rightarrow> ctx \<Rightarrow> ctx" where
  "tagged re c =
     (let h = hdr_get (rq_Header c) HeaderXRequestID; i = (if h = [] then re_uuid re else h)
      in set_resp_header HeaderXRequestID i (c\<lparr>cv_RequestID := Some i\<rparr>))"

lemma tagged_simps [simp]:
  "rq_Path (tagged re c) = rq_Path c" "rq_Header (tagged re c) = rq_Header c" "rq_Body (tagged re c) = rq_Body c"
  "rq_BodyFails (tagged re c) = rq_BodyFails c" "rq_RawQuery (tagged re c) = rq_RawQuery c" "rs_Committed (tagged re c) = rs_Committed c"
  by (simp_all add: tagged_def Let_def set_resp_header_def)

definition names_request :: "req_env \<Rightarrow> ctx \<Rightarrow> span \<Rightarrow> bool" where
  "names_request re c sp \<longleftrightarrow> sn_Name sp = te_verb (re_trace re) @ '' '' @ rq_Path c \<and> (''http.target'', rq_Path c) \<in> set (sn_Attributes sp)"

lemma tracing_adds_header:
  "\<exists>hd sp. tracing_Middleware te add next s c = (case next s c of (err, c', s') \<Rightarrow> (err, c'\<lparr>rs_Header := hd\<rparr>, add sp s'))
     \<and> sn_Name sp = te_verb te @ '' '' @ rq_Path c \<and> (''http.target'', rq_Path c) \<in> set (sn_Attributes sp)"
proof -
  obtain err c' s' where n: "next s c = (err, c', s')" by (metis surj_pair)
  define hd where "hd = (case te_trace_id te of None \<Rightarrow> rs_Header c' | Some i \<Rightarrow> (rs_Header c')(''X-Trace-Id'' \<mapsto> [i]))"
  have h: "(case te_trace_id te of None \<Rightarrow> c' | Some i \<Rightarrow> set_resp_header ''X-Trace-Id'' i c') = c'\<lparr>rs_Header := hd\<rparr>"
    by (cases "te_trace_id te") (simp_all add: hd_def set_resp_header_def hdr_set_def)
  show ?thesis
    unfolding tracing_Middleware_def n Let_def prod.case h by (intro exI [of _ hd] exI conjI, rule refl) simp_all
qed

lemma proxyServer_tagged:
  assumes "gated cfg wi re s (tagged re c) = (err, c2, s2)"
  shows "\<exists>hd added. proxyServer cfg wi re s c = (err, c2\<lparr>rs_Header := hd\<rparr>, s2\<lparr>sy_spans := sy_spans s2 @ added\<rparr>)
    \<and> (if trc_Enabled (Tracing cfg) then \<exists>sp. added = [sp] \<and> names_request re c sp else added = [])"
proof (cases "trc_Enabled (Tracing cfg)")
  case True
  obtain hd sp where "tracing_Middleware (re_trace re) (\<lambda>sp s. s\<lparr>sy_spans := sy_spans s @ [sp]\<rparr>) (gated cfg wi re) s (tagged re c) =
      (err, c2\<lparr>rs_Header := hd\<rparr>, s2\<lparr>sy_spans := sy_spans s2 @ [sp]\<rparr>)" "names_request re c sp"
    using tracing_adds_header [of "re_trace re" "\<lambda>sp s. s\<lparr>sy_spans := sy_spans s @ [sp]\<rparr>" "gated cfg wi re" s "tagged re c"]
    by (auto simp: assms names_request_def)
  then have "proxyServer cfg wi re s c = (err, c2\<lparr>rs_Header := hd\<rparr>, s2\<lparr>sy_spans := sy_spans s2 @ [sp]\<rparr>)"
      "names_request re c sp"
    using True by (simp_all add: proxyServer_def RequestID_def tagged_def Let_def)
  with True show ?thesis by auto
next
  case False
  with assms have "proxyServer cfg wi re s c = (err, c2, s2)"
    by (simp add: proxyServer_def RequestID_def tagged_def Let_def)
  moreover have "c2 = c2\<lparr>rs_Header := rs_Header c2\<rparr>" "s2 = s2\<lparr>sy_spans := sy_spans s2 @ []\<rparr>" by simp_all
  ultimately show ?thesis using False by metis
qed

lemma sys_lookup_coherent:
  assumes "coherent (sy_tokens s)"
  shows "\<exists>ts. sys_lookup H e t s = (stored H (sy_tokens s) t, s\<lparr>sy_tokens := ts\<rparr>) \<and> coherent ts \<and> ts_db ts = ts_db (sy_tokens s)"
proof -
  obtain r ts where l: "sqlite_Lookup H e t (sy_tokens s) = (r, ts)" by (metis surj_pair)
  with Lookup_coherent [OF assms, of H e t] show ?thesis by (auto simp: sys_lookup_def)
qed

text \<open>The token a request is admitted with, if any.\<close>

definition admission :: "('c, 'w, 'v, 'l) wiring \<Rightarrow> req_env \<Rightarrow> token_store \<Rightarrow> ctx \<Rightarrow> token_info option" where
  "admission wi re ts c =
     (let tok = fst (extractToken (rq_Path c))
      in if tok = [] then None
         else case stored (wi_hash wi) ts tok of Some info \<Rightarrow> if admits (re_now re) info then Some info else None | None \<Rightarrow> None)"

text \<open>A disabled token is 403; a missing, unknown or expired one 401.\<close>

definition rejection_code :: "('c, 'w, 'v, 'l) wiring \<Rightarrow> token_store \<Rightarrow> ctx \<Rightarrow> int" where
  "rejection_code wi ts c =
     (let tok = fst (extractToken (rq_Path c))
      in if tok = [] then 401
         else case stored (wi_hash wi) ts tok of Some info \<Rightarrow> if ti_Enabled info then 401 else 403 | None \<Rightarrow> 401)"

lemma rejection_code_tagged [simp]: "rejection_code wi ts (tagged re c) = rejection_code wi ts c"
  by (simp add: rejection_code_def)

lemma admission_tagged [simp]: "admission wi re ts (tagged re c) = admission wi re ts c"
  by (simp add: admission_def)

lemma gated_rejects:
  assumes "coherent (sy_tokens s)" "admission wi re (sy_tokens s) c = None"
  shows "\<exists>code msg ts. gated cfg wi re s c = (Some (HTTPError code msg), c, s\<lparr>sy_tokens := ts\<rparr>) \<and> code = rejection_code wi (sy_tokens s) c
     \<and> coherent ts \<and> ts_db ts = ts_db (sy_tokens s)"
proof (cases "fst (extractToken (rq_Path c)) = []")
  case True
  have "s = s\<lparr>sy_tokens := sy_tokens s\<rparr>" by simp
  with True assms(1) show ?thesis
    by (auto simp: gated_def Auth_def split_beta rejection_code_def intro!: exI [of _ "sy_tokens s"])
next
  case False
  obtain ts where l: "sys_lookup (wi_hash wi) (re_env re) (fst (extractToken (rq_Path c))) s =
      (stored (wi_hash wi) (sy_tokens s) (fst (extractToken (rq_Path c))), s\<lparr>sy_tokens := ts\<rparr>)" "coherent ts" "ts_db ts = ts_db (sy_tokens s)"
    using sys_lookup_coherent [OF assms(1)] by blast
  with False assms(2) show ?thesis
    by (auto simp: gated_def Auth_def split_beta admission_def admits_def rejection_code_def Let_def split: option.splits if_splits)
qed

lemma gated_admits:
  assumes "coherent (sy_tokens s)" "admission wi re (sy_tokens s) c = Some info"
  shows "\<exists>ts. gated cfg wi re s c = rate_limit_middleware cfg wi re (observed wi re) (s\<lparr>sy_tokens := ts\<rparr>)
        (admitted_ctx info (snd (extractToken (rq_Path c))) c) \<and> coherent ts \<and> ts_db ts = ts_db (sy_tokens s)"
proof -
  obtain ts where l: "sys_lookup (wi_hash wi) (re_env re) (fst (extractToken (rq_Path c))) s =
      (stored (wi_hash wi) (sy_tokens s) (fst (extractToken (rq_Path c))), s\<lparr>sy_tokens := ts\<rparr>)" "coherent ts" "ts_db ts = ts_db (sy_tokens s)"
    using sys_lookup_coherent [OF assms(1)] by blast
  with assms(2) show ?thesis
    by (auto simp: gated_def Auth_def split_beta admission_def admits_def admitted_ctx_def Let_def split: option.splits if_splits)
qed

text \<open>The limiter's answer for an admitted request.\<close>

definition limit_allows :: "config \<Rightarrow> ('c, 'w, 'v, 'l) wiring \<Rightarrow> req_env \<Rightarrow> token_info \<Rightarrow> ('c, 'w, 'v, 'l, 'd) sys \<Rightarrow> bool" where
  "limit_allows cfg wi re info s \<longleftrightarrow> ti_RateLimit info = 0 \<or>
     (if sto_RedisURL (Storage cfg) \<noteq> []
      then fst (redis_Allow (re_redis re) (re_redis_now re) (ti_Name info) (ti_RateLimit info) (sy_redis s))
      else fst (memory_allow (wi_new_limiter wi) (wi_allow wi) (ti_Name info) (ti_RateLimit info) (sy_limiters s)))"

lemma limit_allows_tokens [simp]: "limit_allows cfg wi re info (s\<lparr>sy_tokens := ts\<rparr>) \<longleftrightarrow> limit_allows cfg wi re info s"
  by (simp add: limit_allows_def)

lemma limiter_decides:
  assumes "cv_TokenName c = Some (ti_Name info)" "cv_RateLimit c = Some (ti_RateLimit info)"
  shows "\<exists>ls rs. rate_limit_middleware cfg wi re h s c =
     (if limit_allows cfg wi re info s then h (s\<lparr>sy_limiters := ls, sy_redis := rs\<rparr>) c
      else (Some (HTTPError 429 ''rate limit exceeded''),
            set_resp_header ''Retry-After'' (show_int (go_quot 60 (ti_RateLimit info) + 1)) c, s\<lparr>sy_limiters := ls, sy_redis := rs\<rparr>))"
proof -
  have s: "s = s\<lparr>sy_limiters := sy_limiters s, sy_redis := sy_redis s\<rparr>" by simp
  show ?thesis
  proof (cases "ti_RateLimit info = 0")
    case True
    then have "rate_limit_middleware cfg wi re h s c = h s c"
      using assms by (simp add: rate_limit_middleware_def RedisRateLimit_def RateLimit_def)
    with True s show ?thesis by (metis limit_allows_def)
  next
    case False
    obtain ok rs where r: "redis_Allow (re_redis re) (re_redis_now re) (ti_Name info) (ti_RateLimit info) (sy_redis s) = (ok, rs)" by (metis surj_pair)
    obtain ok' ls where m: "memory_allow (wi_new_limiter wi) (wi_allow wi) (ti_Name info) (ti_RateLimit info) (sy_limiters s) = (ok', ls)" by (metis surj_pair)
    show ?thesis
    proof (cases "sto_RedisURL (Storage cfg) \<noteq> []")
      case True
      with False assms r show ?thesis
        by (intro exI [of _ "sy_limiters s"] exI [of _ rs])
          (simp add: rate_limit_middleware_def RedisRateLimit_def sys_redis_Allow_def limit_allows_def)
    next
      case mem: False
      with False assms m show ?thesis
        by (intro exI [of _ ls] exI [of _ "sy_redis s"])
          (simp add: rate_limit_middleware_def RateLimit_def sys_allow_def limit_allows_def)
    qed
  qed
qed

text \<open>What a turned away request leaves as it was: the backends' side, the logs and the metrics.\<close>

definition untouched :: "('c, 'w, 'v, 'l, 'd) sys \<Rightarrow> ('c, 'w, 'v, 'l, 'd) sys \<Rightarrow> bool" where
  "untouched s s' \<longleftrightarrow> sy_h s' = sy_h s \<and> sy_ws s' = sy_ws s \<and> sy_ring s' = sy_ring s \<and> sy_log s' = sy_log s
     \<and> sy_metrics s' = sy_metrics s \<and> sy_panicked s' = sy_panicked s"

text \<open>The part behind the limiter: one entry to each sink and one count.\<close>

lemma observed_records:
  assumes "observed wi re s c = (err, c', s')" "ring_wf (sy_ring s)" "\<not> bw_chan_closed (sy_log s)"
  shows "\<exists>e s1. dispatch wi s c = (err, c', s1) \<and> same_request c c'
     \<and> sy_h s' = sy_h s1 \<and> sy_ws s' = sy_ws s1 \<and> sy_tokens s' = sy_tokens s \<and> sy_spans s' = sy_spans s
     \<and> sy_metrics s' = observe_request c' (re_met_finish re - re_met_start re) (sy_metrics s)
     \<and> ring_Push e (sy_ring s) = Some (sy_ring s') \<and> ring_wf (sy_ring s') \<and> store_Push e (sy_log s) = Done (sy_log s')
     \<and> sy_panicked s' = sy_panicked s
     \<and> le_TokenName e = stringFromCtx (cv_TokenName c) \<and> le_Path e = rq_Path c \<and> le_RequestID e = stringFromCtx (cv_RequestID c)
     \<and> le_StatusCode e = logged_status err c' \<and> le_Error e = logged_error err"
proof -
  obtain err1 c1 s1 where d: "dispatch wi s c = (err1, c1, s1)" by (metis surj_pair)
  have fr: "sy_ring s1 = sy_ring s" "sy_log s1 = sy_log s" "sy_tokens s1 = sy_tokens s" "sy_spans s1 = sy_spans s"
      "sy_metrics s1 = sy_metrics s" "sy_panicked s1 = sy_panicked s"
    using arg_cong [where f = sy_ring, OF dispatch_frame [OF d]] arg_cong [where f = sy_log, OF dispatch_frame [OF d]]
      arg_cong [where f = sy_tokens, OF dispatch_frame [OF d]] arg_cong [where f = sy_spans, OF dispatch_frame [OF d]]
      arg_cong [where f = sy_metrics, OF dispatch_frame [OF d]] arg_cong [where f = sy_panicked, OF dispatch_frame [OF d]] by simp_all
  define e where "e = \<lparr>le_Timestamp = re_log_start re, le_RequestID = stringFromCtx (cv_RequestID c1),
                     le_TokenName = stringFromCtx (cv_TokenName c1), le_Method = stringFromCtx (cv_RPCMethod c1),
                     le_Backend = stringFromCtx (cv_Backend c1), le_StatusCode = logged_status err1 c1,
                     le_LatencyMs = sample_ms (re_log_finish re - re_log_start re), le_RequestBytes = rq_ContentLength c1,
                     le_ResponseBytes = rs_Size c1, le_ClientIP = rq_RealIP c1, le_Error = logged_error err1,
                     le_Path = rq_Path c1\<rparr>"
  obtain rb where rb: "ring_Push e (sy_ring s) = Some rb" "ring_wf rb" using Push_wf [OF assms(2)] by metis
  obtain w where w: "store_Push e (sy_log s) = Done w" using assms(3)
    by (cases "length (bw_chan (sy_log s)) < chan_capacity") (auto simp: store_Push_def)
  let ?m = "observe_request c1 (re_met_finish re - re_met_start re) (sy_metrics s1)"
  have o: "observed wi re s c = (err1, c1, store_sink e (ring_sink e (s1\<lparr>sy_metrics := ?m\<rparr>)))"
    by (simp add: observed_def AccessLogger_def MetricsMiddleware_def d e_def [symmetric] Let_def)
  also have "\<dots> = (err1, c1, s1\<lparr>sy_metrics := ?m, sy_ring := rb, sy_log := w\<rparr>)"
    by (simp add: ring_sink_def store_sink_def fr rb w)
  finally have o: "err = err1" "c' = c1" "s' = s1\<lparr>sy_metrics := ?m, sy_ring := rb, sy_log := w\<rparr>" using assms(1) by simp_all
  have r: "same_request c c1" by (rule dispatch_request [OF d])
  have "le_TokenName e = stringFromCtx (cv_TokenName c) \<and> le_Path e = rq_Path c \<and> le_RequestID e = stringFromCtx (cv_RequestID c)
     \<and> le_StatusCode e = logged_status err c' \<and> le_Error e = logged_error err"
    using r by (simp add: e_def same_request_def o)
  with d r fr rb w show ?thesis
    by (intro exI [of _ e] exI [of _ s1]) (simp add: o)
qed

subsection \<open>What one request does to the process\<close>

text \<open>One entry goes to both sinks, and one request is counted.\<close>

definition logged_once :: "log_entry \<Rightarrow> ctx \<Rightarrow> req_env \<Rightarrow> ('c, 'w, 'v, 'l, 'd) sys \<Rightarrow> ('c, 'w, 'v, 'l, 'd) sys \<Rightarrow> bool" where
  "logged_once e c' re s s' \<longleftrightarrow>
     ring_Push e (sy_ring s) = Some (sy_ring s') \<and> store_Push e (sy_log s) = Done (sy_log s')
     \<and> sy_metrics s' = observe_request c' (re_met_finish re - re_met_start re) (sy_metrics s)
     \<and> sy_panicked s' = sy_panicked s"

definition sys_ok :: "('c, 'w, 'v, 'l, 'd) sys \<Rightarrow> bool" where
  "sys_ok s \<longleftrightarrow> coherent (sy_tokens s) \<and> ring_wf (sy_ring s) \<and> \<not> bw_chan_closed (sy_log s)"

lemma observe_request_header [simp]: "observe_request (c\<lparr>rs_Header := h\<rparr>) d m = observe_request c d m"
proof -
  have "rs_Size (c\<lparr>rs_Header := h\<rparr>) = rs_Size c" by (simp add: rs_Size_def)
  then show ?thesis by (simp add: observe_request_def Let_def cong: if_cong)
qed

lemma logged_status_header [simp]: "logged_status e (c\<lparr>rs_Header := h\<rparr>) = logged_status e c"
  by (simp add: logged_status_def split: option.split herror.split)

lemma store_Push_open: "store_Push e w = Done w' \<Longrightarrow> \<not> bw_chan_closed w \<Longrightarrow> \<not> bw_chan_closed w'"
  by (auto simp: store_Push_def split: if_splits)

text \<open>What the request became on its way to the handlers.\<close>

definition forwarded_ctx :: "req_env \<Rightarrow> token_info \<Rightarrow> ctx \<Rightarrow> ctx" where
  "forwarded_ctx re info c = admitted_ctx info (snd (extractToken (rq_Path c))) (tagged re c)"

lemma forwarded_ctx_simps [simp]:
  "rq_Path (forwarded_ctx re info c) = snd (extractToken (rq_Path c))" "rq_Header (forwarded_ctx re info c) = rq_Header c"
  "rq_Body (forwarded_ctx re info c) = rq_Body c" "rq_RawQuery (forwarded_ctx re info c) = rq_RawQuery c"
  "cv_TokenName (forwarded_ctx re info c) = Some (ti_Name info)" "cv_RateLimit (forwarded_ctx re info c) = Some (ti_RateLimit info)"
  "rs_Committed (forwarded_ctx re info c) = rs_Committed c" "cv_TokenInfo (forwarded_ctx re info c) = Some info"
  by (simp_all add: forwarded_ctx_def admitted_ctx_def)

lemma forwarded_ws [simp]: "IsWebSocketUpgrade (forwarded_ctx re info c) \<longleftrightarrow> IsWebSocketUpgrade c"
  by (simp add: IsWebSocketUpgrade_def)

lemma gated_served:
  assumes "coherent (sy_tokens s)" "admission wi re (sy_tokens s) c = Some info" "limit_allows cfg wi re info s"
  shows "\<exists>ts ls rs. gated cfg wi re s (tagged re c) =
       observed wi re (s\<lparr>sy_tokens := ts, sy_limiters := ls, sy_redis := rs\<rparr>) (forwarded_ctx re info c)
     \<and> coherent ts \<and> ts_db ts = ts_db (sy_tokens s)"
proof -
  obtain ts where g: "gated cfg wi re s (tagged re c) = rate_limit_middleware cfg wi re (observed wi re) (s\<lparr>sy_tokens := ts\<rparr>)
        (forwarded_ctx re info c)" "coherent ts" "ts_db ts = ts_db (sy_tokens s)"
    using gated_admits [of s wi re "tagged re c" info cfg] assms(1,2) by (auto simp: forwarded_ctx_def)
  have a: "limit_allows cfg wi re info (s\<lparr>sy_tokens := ts\<rparr>)" using assms(3) by simp
  obtain ls rs where "rate_limit_middleware cfg wi re (observed wi re) (s\<lparr>sy_tokens := ts\<rparr>) (forwarded_ctx re info c) =
      observed wi re (s\<lparr>sy_tokens := ts, sy_limiters := ls, sy_redis := rs\<rparr>) (forwarded_ctx re info c)"
    using limiter_decides [of "forwarded_ctx re info c" info cfg wi re "observed wi re" "s\<lparr>sy_tokens := ts\<rparr>"] a
    by (simp add: forwarded_ctx_simps) blast
  with g show ?thesis by auto
qed

lemma served_effect:
  assumes "sys_ok s" "admission wi re (sy_tokens s) c = Some info" "limit_allows cfg wi re info s"
    "proxyServer cfg wi re s c = (err, c', s')"
  shows "\<exists>e ts ls rs s1 c1 added.
     dispatch wi (s\<lparr>sy_tokens := ts, sy_limiters := ls, sy_redis := rs\<rparr>) (forwarded_ctx re info c) = (err, c1, s1) \<and> sy_h s' = sy_h s1 \<and> sy_ws s' = sy_ws s1
     \<and> logged_once e c' re s s' \<and> sys_ok s' \<and> ts_db (sy_tokens s') = ts_db (sy_tokens s)
     \<and> sy_spans s' = sy_spans s @ added
     \<and> (if trc_Enabled (Tracing cfg) then \<exists>sp. added = [sp] \<and> names_request re c sp else added = [])
     \<and> le_TokenName e = ti_Name info \<and> le_Path e = snd (extractToken (rq_Path c))
     \<and> le_StatusCode e = logged_status err c' \<and> le_Error e = logged_error err
     \<and> cv_Backend c' = cv_Backend c1 \<and> cv_RPCMethod c' = cv_RPCMethod c1 \<and> cv_TokenName c' = Some (ti_Name info)"
proof -
  have ok: "coherent (sy_tokens s)" "ring_wf (sy_ring s)" "\<not> bw_chan_closed (sy_log s)" using assms(1) by (simp_all add: sys_ok_def)
  obtain ts ls rs where g: "gated cfg wi re s (tagged re c) =
       observed wi re (s\<lparr>sy_tokens := ts, sy_limiters := ls, sy_redis := rs\<rparr>) (forwarded_ctx re info c)"
     "coherent ts" "ts_db ts = ts_db (sy_tokens s)"
    using gated_served [OF ok(1) assms(2,3)] by blast
  let ?s = "s\<lparr>sy_tokens := ts, sy_limiters := ls, sy_redis := rs\<rparr>"
  obtain err1 c1 s1 where o: "observed wi re ?s (forwarded_ctx re info c) = (err1, c1, s1)" by (metis surj_pair)
  obtain hd added where p: "proxyServer cfg wi re s c = (err1, c1\<lparr>rs_Header := hd\<rparr>, s1\<lparr>sy_spans := sy_spans s1 @ added\<rparr>)"
      "if trc_Enabled (Tracing cfg) then \<exists>sp. added = [sp] \<and> names_request re c sp else added = []"
    using proxyServer_tagged [of cfg wi re s c err1 c1 s1] g(1) o by auto
  have eqs: "err = err1" "c' = c1\<lparr>rs_Header := hd\<rparr>" "s' = s1\<lparr>sy_spans := sy_spans s1 @ added\<rparr>"
    using p(1) assms(4) by simp_all
  obtain e s2 where ob: "dispatch wi ?s (forwarded_ctx re info c) = (err1, c1, s2)" "sy_h s1 = sy_h s2" "sy_ws s1 = sy_ws s2"
      "sy_tokens s1 = ts" "sy_spans s1 = sy_spans s"
      "sy_metrics s1 = observe_request c1 (re_met_finish re - re_met_start re) (sy_metrics s)"
      "ring_Push e (sy_ring s) = Some (sy_ring s1)" "ring_wf (sy_ring s1)" "store_Push e (sy_log s) = Done (sy_log s1)"
      "sy_panicked s1 = sy_panicked s"
      "le_TokenName e = ti_Name info" "le_Path e = snd (extractToken (rq_Path c))"
      "le_StatusCode e = logged_status err1 c1" "le_Error e = logged_error err1"
    using observed_records [OF o] ok(2,3) by (auto simp: stringFromCtx_def)
  have rec: "logged_once e c' re s s'" using ob by (simp add: logged_once_def eqs)
  have ok': "sys_ok s'" using g(2) ob store_Push_open [OF ob(9) ok(3)] by (simp add: sys_ok_def eqs)
  have st: "logged_status err1 c1 = logged_status err c'" "sy_spans s' = sy_spans s @ added" "sy_tokens s' = ts"
      "sy_h s' = sy_h s2" "sy_ws s' = sy_ws s2" "cv_Backend c' = cv_Backend c1" "cv_RPCMethod c' = cv_RPCMethod c1"
      "cv_TokenName c' = Some (ti_Name info)"
    using ob dispatch_request [OF ob(1)] by (simp_all add: eqs same_request_def)
  show ?thesis
    by (intro exI [of _ e] exI [of _ ts] exI [of _ ls] exI [of _ rs] exI [of _ s2] exI [of _ c1] exI [of _ added] conjI)
      (use rec ok' ob g(3) p(2) st eqs(1) in simp_all)
qed

lemma turned_away_effect:
  assumes "sys_ok s"
    "case admission wi re (sy_tokens s) c of None \<Rightarrow> True | Some info \<Rightarrow> \<not> limit_allows cfg wi re info s"
    "proxyServer cfg wi re s c = (err, c', s')"
  shows "untouched s s' \<and> sys_ok s' \<and> ts_db (sy_tokens s') = ts_db (sy_tokens s)
     \<and> (\<exists>code msg. err = Some (HTTPError code msg)
          \<and> (if admission wi re (sy_tokens s) c = None
             then code = rejection_code wi (sy_tokens s) c \<and> sy_limiters s' = sy_limiters s \<and> sy_redis s' = sy_redis s else code = 429))
     \<and> rs_Committed c' = rs_Committed c
     \<and> (\<exists>added. sy_spans s' = sy_spans s @ added
          \<and> (if trc_Enabled (Tracing cfg) then \<exists>sp. added = [sp] \<and> names_request re c sp else added = []))"
proof -
  have ok: "coherent (sy_tokens s)" "ring_wf (sy_ring s)" "\<not> bw_chan_closed (sy_log s)" using assms(1) by (simp_all add: sys_ok_def)
  show ?thesis
  proof (cases "admission wi re (sy_tokens s) c")
    case None
    obtain code msg ts where g: "gated cfg wi re s (tagged re c) = (Some (HTTPError code msg), tagged re c, s\<lparr>sy_tokens := ts\<rparr>)"
        "code = rejection_code wi (sy_tokens s) c" "coherent ts" "ts_db ts = ts_db (sy_tokens s)"
      using gated_rejects [of s wi re "tagged re c" cfg] ok(1) None by auto
    from proxyServer_tagged [OF g(1)] assms(3) g(2-4) ok None show ?thesis
      by (auto simp: untouched_def sys_ok_def)
  next
    case (Some info)
    with assms(2) have na: "\<not> limit_allows cfg wi re info s" by simp
    obtain ts where g: "gated cfg wi re s (tagged re c) = rate_limit_middleware cfg wi re (observed wi re) (s\<lparr>sy_tokens := ts\<rparr>)
          (forwarded_ctx re info c)" "coherent ts" "ts_db ts = ts_db (sy_tokens s)"
      using gated_admits [of s wi re "tagged re c" info cfg] ok(1) Some by (auto simp: forwarded_ctx_def)
    have a: "\<not> limit_allows cfg wi re info (s\<lparr>sy_tokens := ts\<rparr>)" using na by simp
    obtain ls rs where r: "gated cfg wi re s (tagged re c) = (Some (HTTPError 429 ''rate limit exceeded''),
        set_resp_header ''Retry-After'' (show_int (go_quot 60 (ti_RateLimit info) + 1)) (forwarded_ctx re info c),
        s\<lparr>sy_tokens := ts, sy_limiters := ls, sy_redis := rs\<rparr>)"
      using limiter_decides [of "forwarded_ctx re info c" info cfg wi re "observed wi re" "s\<lparr>sy_tokens := ts\<rparr>"] a
      unfolding g(1) by (auto simp: forwarded_ctx_simps)
    from proxyServer_tagged [OF r] assms(3) g(2,3) ok Some show ?thesis
      by (auto simp: untouched_def sys_ok_def set_resp_header_def)
  qed
qed

end
