(* ===== verification/Process.thy ===== *)
theory Process
  imports ProxyServer
begin

text \<open>
  The running process: what \<open>main\<close> builds before it serves (\<open>cmd/da-proxy/main.go\<close>), and a step relation
  that interleaves its requests with the goroutines sharing their state: the log writer, the
  administrator's token operations and the health checker's head updates. The properties here span
  the components. A step is one whole request, so two requests never interleave inside the model;
  the Go code guards each component by its own lock.
\<close>

subsection \<open>Startup\<close>

text \<open>What \<open>main\<close> finds outside: whether the files, Redis and PostgreSQL open, and their contents.\<close>

record ('c, 'w, 'v, 'd) startup_env =
  su_float :: "string \<Rightarrow> f64 option"
  su_hash :: "string \<Rightarrow> string"
  su_token_open :: db_open
  su_token_env :: env
  su_token_db :: token_db
  su_migrate_env :: "nat \<Rightarrow> env"
  su_reload_env :: env
  su_redis_ok :: bool
  su_redis :: redis_sets
  su_log_open :: db_open
  su_sink :: 'd
  su_cache_ok :: bool
  su_cache :: 'c
  su_world :: 'w
  su_ws_world :: 'v

definition no_metrics :: metrics where
  "no_metrics = \<lparr>mt_RequestsTotal = (\<lambda>_. 0), mt_RequestDuration = (\<lambda>_. []), mt_RequestSize = (\<lambda>_. []), mt_ResponseSize = (\<lambda>_. [])\<rparr>"

definition startup_tokens :: "config \<Rightarrow> ('c, 'w, 'v, 'd) startup_env \<Rightarrow> token_store result" where
  "startup_tokens cfg su =
     (case NewSQLiteTokenStore (su_token_open su) (su_token_env su) (su_token_db su) 30 of
        Inl e \<Rightarrow> Inl ''failed to create token store''
      | Inr ts \<Rightarrow>
          Inr (if 0 < length (Tokens cfg)
               then snd (MigrateConfigTokens (su_hash su) (su_migrate_env su) (su_reload_env su) (Tokens cfg) ts) else ts))"

definition startup_log :: "config \<Rightarrow> ('c, 'w, 'v, 'd) startup_env \<Rightarrow> 'd writer result" where
  "startup_log cfg su =
     (if LogDriver (Storage cfg) = ''postgres'' \<and> PostgresDSN (Storage cfg) \<noteq> [] then
        (case NewPostgresStore (su_log_open su) (su_sink su) of Inl e \<Rightarrow> Inl ''failed to create postgres log store'' | Inr w \<Rightarrow> Inr w)
      else
        (case NewSQLiteStore (su_log_open su) (su_sink su) of Inl e \<Rightarrow> Inl ''failed to create sqlite log store'' | Inr w \<Rightarrow> Inr w))"

text \<open>Each failed construction is fatal, as is a negative ring capacity (\<open>make\<close> panics); a failed token
  migration is only logged.\<close>

definition startup_stores :: "config \<Rightarrow> ('c, 'w, 'v, 'd) startup_env \<Rightarrow> (token_store \<times> ring_buffer \<times> 'd writer) result" where
  "startup_stores cfg su =
     (case startup_tokens cfg su of
        Inl e \<Rightarrow> Inl e
      | Inr ts \<Rightarrow>
          if sto_RedisURL (Storage cfg) \<noteq> [] \<and> \<not> su_redis_ok su then Inl ''failed to create redis rate limiter''
          else case NewRingBuffer (LogBufferSize (Admin cfg)) of
            None \<Rightarrow> Inl ''panic''
          | Some ring \<Rightarrow> (case startup_log cfg su of Inl e \<Rightarrow> Inl e | Inr lw \<Rightarrow> Inr (ts, ring, lw)))"

definition startup_cache :: "config \<Rightarrow> ('c, 'w, 'v, 'd) startup_env \<Rightarrow> unit result" where
  "startup_cache cfg su =
     (if cch_Enabled (CacheCfg cfg) then
        (case MaxEntrySizeBytes (su_float su) (CacheCfg cfg) of
           Inl e \<Rightarrow> Inl ''invalid cache.max_entry_size''
         | Inr m \<Rightarrow> if su_cache_ok su then Inr () else Inl ''failed to create response cache'')
      else Inr ())"

definition startup_handlers ::
  "config \<Rightarrow> ('c, 'w, 'v, 'd) startup_env \<Rightarrow> token_store \<Rightarrow> ring_buffer \<Rightarrow> 'd writer \<Rightarrow> (int \<times> ('c, 'w, 'v, 'l, 'd) sys) result" where
  "startup_handlers cfg su ts ring lw =
     (let rt = NewRouter (Backends cfg)
      in case MaxBodySizeBytes (su_float su) (Server cfg) of
           Inl e \<Rightarrow> Inl ''invalid max_body_size''
         | Inr maxBodySize \<Rightarrow>
             (case startup_cache cfg su of
                Inl e \<Rightarrow> Inl e
              | Inr _ \<Rightarrow>
                  Inr (maxBodySize,
                    \<lparr>sy_tokens = ts, sy_limiters = Map.empty, sy_redis = su_redis su,
                     sy_h = \<lparr>hs_router = rt, hs_cache = su_cache su, hs_world = su_world su, hs_sent = []\<rparr>,
                     sy_ws = \<lparr>wx_router = rt, wx_world = su_ws_world su, wx_dialed = [], wx_to_backend = [], wx_to_client = []\<rparr>,
                     sy_ring = ring, sy_log = lw, sy_metrics = no_metrics, sy_spans = [], sy_panicked = False\<rparr>)))"

text \<open>The result is the body limit and the process.\<close>

definition startup :: "config \<Rightarrow> ('c, 'w, 'v, 'd) startup_env \<Rightarrow> (int \<times> ('c, 'w, 'v, 'l, 'd) sys) result" where
  "startup cfg su =
     (case startup_stores cfg su of Inl e \<Rightarrow> Inl e | Inr (ts, ring, lw) \<Rightarrow> startup_handlers cfg su ts ring lw)"

lemma startup_log_writer: "startup_log cfg su = Inr lw \<Longrightarrow> lw = NewWriter (su_sink su)"
  by (auto simp: startup_log_def NewPostgresStore_def NewSQLiteStore_def split: sum.splits if_splits)

subsection \<open>Steps\<close>

text \<open>The writer's own turns; pushes come from requests, and the end of the process is not part of a run.
  A token operation here is one whose reload of the cache succeeds.\<close>

fun writer_turn :: "'e event \<Rightarrow> bool" where
  "writer_turn (EvRecv e) = True"
| "writer_turn (EvTick e) = True"
| "writer_turn _ = False"

definition serve :: "config \<Rightarrow> ('c, 'w, 'v, 'l) wiring \<Rightarrow> req_env \<Rightarrow> ctx \<Rightarrow> ('c, 'w, 'v, 'l, 'd) sys \<Rightarrow> ('c, 'w, 'v, 'l, 'd) sys" where
  "serve cfg wi re c s = snd (snd (proxyServer cfg wi re s c))"

inductive sys_step ::
  "config \<Rightarrow> ('c, 'w, 'v, 'l) wiring \<Rightarrow> ('e \<Rightarrow> log_entry list \<Rightarrow> 'd \<Rightarrow> 'd) \<Rightarrow> ('c, 'w, 'v, 'l, 'd) sys \<Rightarrow> ('c, 'w, 'v, 'l, 'd) sys \<Rightarrow> bool"
  for cfg wi save where
  request: "sys_step cfg wi save s (serve cfg wi re c s)"
| log_write: "writer_turn ev \<Longrightarrow> writer_step save ev (sy_log s) = Done w \<Longrightarrow> sys_step cfg wi save s (s\<lparr>sy_log := w\<rparr>)"
| token_op: "reloads (wi_hash wi) (sy_tokens s) op \<Longrightarrow>
    sys_step cfg wi save s (s\<lparr>sy_tokens := store_step (wi_hash wi) op (sy_tokens s)\<rparr>)"
| head_update: "sys_step cfg wi save s (s\<lparr>sy_h := (sy_h s)\<lparr>hs_router := router_SetHead h (hs_router (sy_h s))\<rparr>\<rparr>)"

inductive_cases sys_stepE: "sys_step cfg wi save s s'"

subsection \<open>The invariant\<close>

definition pools_of :: "config \<Rightarrow> router \<Rightarrow> bool" where
  "pools_of cfg r \<longleftrightarrow> router_wf r \<and> (\<forall>b. router_AllEndpoints b r = router_AllEndpoints b (NewRouter (Backends cfg)))"

definition sys_inv :: "config \<Rightarrow> ('c, 'w, 'v, 'l, 'd) sys \<Rightarrow> bool" where
  "sys_inv cfg s \<longleftrightarrow> sys_ok s \<and> pools_of cfg (hs_router (sy_h s)) \<and> writer_wf (sy_log s) \<and> bw_running (sy_log s) \<and> \<not> sy_panicked s"

lemma serve_decision_pools:
  "serve_decision dp d path q body s c = (err, c', s') \<Longrightarrow> same_pools s s'"
  using serve_decision_sends [where eps = UNIV] by (fastforce simp: sends_def)

lemma same_pools_of: "same_pools s s' \<Longrightarrow> pools_of cfg (hs_router s) \<Longrightarrow> pools_of cfg (hs_router s')"
  by (simp add: same_pools_def pools_of_def)

lemma Route_pools: "pools_of cfg r \<Longrightarrow> router_Route d body r = (x, r') \<Longrightarrow> pools_of cfg r'"
  using router_Route_frame [where d = d and body = body and r = r] by (simp add: pools_of_def)

lemma HandleRequest_pools:
  assumes "HandleRequest dp s c = (err, c', s')" "pools_of cfg (hs_router s)"
  shows "pools_of cfg (hs_router s')"
proof -
  have d: "pools_of cfg (hs_router s')"
    if "router_Route dr body (hs_router s) = (x, r)" "serve_decision dp d path q b (s\<lparr>hs_router := r\<rparr>) c1 = (err, c', s')" for dr body x r d path q b c1
    using same_pools_of [OF serve_decision_pools [OF that(2)]] Route_pools [OF assms(2) that(1)] by simp
  show ?thesis
    using assms d Route_pools [OF assms(2)]
    by (auto simp: HandleRequest_def Let_def split: prod.splits option.splits sum.splits if_splits)
qed

lemma TargetURL_pools: "pools_of cfg r \<Longrightarrow> pools_of cfg (snd (router_TargetURL d b r))"
  by (simp add: pools_of_def TargetURL_serving)

lemma ws_Handle_pools:
  "ws_Handle dp s c = (err, c', s') \<Longrightarrow> pools_of cfg (wx_router s) \<Longrightarrow> pools_of cfg (wx_router s')"
  using TargetURL_pools [of cfg "wx_router s" "wp_draw dp" "resolveWSBackend (rq_Path c)"]
  by (auto simp: ws_Handle_def ws_connect_def Let_def split: prod.splits option.splits if_splits)

lemma dispatch_pools:
  "dispatch wi s c = (err, c', s') \<Longrightarrow> pools_of cfg (hs_router (sy_h s)) \<Longrightarrow> pools_of cfg (hs_router (sy_h s'))"
  by (auto simp: dispatch_def on_ws_def on_handler_def intro: HandleRequest_pools dest: ws_Handle_pools split: prod.splits if_splits)

lemma Push_writer_wf: "store_Push e w = Done w' \<Longrightarrow> writer_wf w \<Longrightarrow> bw_running w \<Longrightarrow> writer_wf w' \<and> bw_running w'"
  using writer_step_wf [of w _ "EvPush e" w'] by (auto simp: writer_step_def store_Push_def split: if_splits)

lemma serve_inv:
  assumes "sys_inv cfg s"
  shows "sys_inv cfg (serve cfg wi re c s)"
proof -
  obtain err c' s' where p: "proxyServer cfg wi re s c = (err, c', s')" by (metis surj_pair)
  have ok: "sys_ok s" and inv: "pools_of cfg (hs_router (sy_h s))" "writer_wf (sy_log s)" "bw_running (sy_log s)" "\<not> sy_panicked s"
    using assms by (simp_all add: sys_inv_def)
  have "sys_inv cfg s'"
  proof (cases "case admission wi re (sy_tokens s) c of None \<Rightarrow> True | Some info \<Rightarrow> \<not> limit_allows cfg wi re info s")
    case True
    from turned_away_effect [OF ok True p] inv show ?thesis by (auto simp: sys_inv_def untouched_def)
  next
    case False
    then obtain info where i: "admission wi re (sy_tokens s) c = Some info" "limit_allows cfg wi re info s"
      by (auto split: option.splits)
    from served_effect [OF ok i p] obtain e ts ls rs s1 c1 where
      d: "dispatch wi (s\<lparr>sy_tokens := ts, sy_limiters := ls, sy_redis := rs\<rparr>) (forwarded_ctx re info c) = (err, c1, s1)"
        "sy_h s' = sy_h s1" "logged_once e c' re s s'" "sys_ok s'"
      by blast
    have "pools_of cfg (hs_router (sy_h s1))" using dispatch_pools [OF d(1)] inv(1) by simp
    with d(2-4) inv Push_writer_wf show ?thesis by (auto simp: sys_inv_def logged_once_def)
  qed
  then show ?thesis by (simp add: serve_def p)
qed

lemma SetHead_pools: "pools_of cfg r \<Longrightarrow> pools_of cfg (router_SetHead h r)"
  using router_step_frame [where op = "RtHead h" and r = r] by (simp add: pools_of_def)

lemma sys_step_inv:
  assumes "sys_step cfg wi save s s'" "sys_inv cfg s"
  shows "sys_inv cfg s'"
  using assms(1)
proof cases
  case (request re c)
  with serve_inv [OF assms(2)] show ?thesis by simp
next
  case (log_write ev w)
  from writer_step_wf [OF _ log_write(3)] assms(2) have "writer_wf w" by (simp add: sys_inv_def)
  moreover have "bw_running w"
    using log_write(2,3) assms(2) by (cases ev) (auto simp: writer_step_def sys_inv_def Let_def split: if_splits list.splits)
  ultimately show ?thesis using log_write assms(2) by (auto simp: sys_inv_def sys_ok_def writer_wf_def)
next
  case (token_op op)
  with assms(2) store_step_coherent show ?thesis by (auto simp: sys_inv_def sys_ok_def)
next
  case (head_update h)
  with assms(2) SetHead_pools show ?thesis by (auto simp: sys_inv_def sys_ok_def)
qed

lemma reachable_inv: "(sys_step cfg wi save)\<^sup>*\<^sup>* s s' \<Longrightarrow> sys_inv cfg s \<Longrightarrow> sys_inv cfg s'"
  by (induction rule: rtranclp_induct) (auto intro: sys_step_inv)

text \<open>A start whose token table opens with distinct keys, and whose migration, if any, does not stop.\<close>

definition clean_start :: "config \<Rightarrow> ('c, 'w, 'v, 'd) startup_env \<Rightarrow> bool" where
  "clean_start cfg su \<longleftrightarrow> db_wf (su_token_db su) \<and>
     (case NewSQLiteTokenStore (su_token_open su) (su_token_env su) (su_token_db su) 30 of
        Inl _ \<Rightarrow> True
      | Inr ts \<Rightarrow> reloads (su_hash su) ts (SoMigrate (su_migrate_env su) (su_reload_env su) (Tokens cfg)))"

lemma startup_tokens_coherent:
  assumes "startup_tokens cfg su = Inr ts" "clean_start cfg su"
  shows "coherent ts"
proof -
  obtain t0 where t0: "NewSQLiteTokenStore (su_token_open su) (su_token_env su) (su_token_db su) 30 = Inr t0"
    using assms(1) by (auto simp: startup_tokens_def split: sum.splits)
  then have "coherent t0"
    using assms(2) loadCache_coherent [of "su_token_env su"
        "\<lparr>ts_db = su_token_db su, ts_cache = Map.empty, ts_cacheTTL = 30, ts_lastLoad = 0\<rparr>"]
    by (auto simp: NewSQLiteTokenStore_def createTable_def clean_start_def loadCache_def split: if_splits)
  with store_step_coherent [of t0 "su_hash su" "SoMigrate (su_migrate_env su) (su_reload_env su) (Tokens cfg)"] assms t0
  show ?thesis by (auto simp: startup_tokens_def clean_start_def split: if_splits)
qed

lemma startup_inv:
  assumes "startup cfg su = Inr (m, s)" "clean_start cfg su" "0 < LogBufferSize (Admin cfg)"
  shows "sys_inv cfg s"
proof -
  obtain ts ring lw where t: "startup_tokens cfg su = Inr ts" "NewRingBuffer (LogBufferSize (Admin cfg)) = Some ring"
      "sy_tokens s = ts" "sy_ring s = ring" "hs_router (sy_h s) = NewRouter (Backends cfg)" "sy_log s = lw"
      "\<not> sy_panicked s" "startup_log cfg su = Inr lw"
    using assms(1) by (auto simp: startup_def startup_stores_def startup_handlers_def Let_def split: sum.splits option.splits if_splits)
  note t = t(1-5) t(6) [unfolded startup_log_writer [OF t(8)]] t(7)
  have "coherent ts" "ring_wf ring"
    using startup_tokens_coherent [OF t(1) assms(2)] NewRingBuffer_wf [OF t(2) assms(3)] by simp_all
  with t(3-7) NewWriter_wf [of "su_sink su"] NewRouter_wf [of "Backends cfg"] show ?thesis
    by (simp add: sys_inv_def sys_ok_def pools_of_def) (simp add: NewWriter_def)
qed

subsection \<open>Properties of the running process\<close>

lemma extractToken_rest: "snd (extractToken p) \<noteq> []"
proof -
  have "drop i t \<noteq> []" if "index_byte t (CHR ''/'') = Some i" for i t
    using index_byte_Some [OF that] by auto
  then show ?thesis by (auto simp: extractToken_def Let_def split: option.splits)
qed


text \<open>C3: A request without a token that is known, enabled and not expired goes nowhere. It gets 403 if the
  token is disabled and 401 if it is missing, unknown or expired: no backend is contacted over HTTP or WebSocket, no limiter is charged, the token table
  stays as it is, and the request is neither logged nor counted.\<close>

theorem unauthorized_goes_nowhere:
  assumes "sys_ok s" "admission wi re (sy_tokens s) c = None" "\<not> rs_Committed c" "proxyServer cfg wi re s c = (err, c', s')"
  shows "client_status (err, c', s') = rejection_code wi (sy_tokens s) c \<and> untouched s s' \<and> sy_limiters s' = sy_limiters s \<and> sy_redis s' = sy_redis s
     \<and> ts_db (sy_tokens s') = ts_db (sy_tokens s)"
  using turned_away_effect [OF assms(1) _ assms(4)] assms(2,3) by (auto simp: client_status_def)

text \<open>An admitted request over its token's limit ends with 429 and, but for the limiter's own
  state, goes nowhere either: no backend is contacted, and it is neither logged nor counted.\<close>

theorem throttled_goes_nowhere:
  assumes "sys_ok s" "admission wi re (sy_tokens s) c = Some info" "\<not> limit_allows cfg wi re info s" "\<not> rs_Committed c"
    "proxyServer cfg wi re s c = (err, c', s')"
  shows "client_status (err, c', s') = 429 \<and> untouched s s' \<and> ts_db (sy_tokens s') = ts_db (sy_tokens s)"
  using turned_away_effect [OF assms(1) _ assms(5)] assms(2-4) by (auto simp: client_status_def)




text \<open>With tracing on, every request, whether admitted, throttled or rejected, hands the exporter one
  span, and its name and its \<open>http.target\<close> are the request's path as it came, which begins with
  the token: the tracing middleware stands before the one that strips it.\<close>

theorem trace_names_token:
  assumes "sys_ok s" "trc_Enabled (Tracing cfg)" "proxyServer cfg wi re s c = (err, c', s')"
  shows "\<exists>sp. sy_spans s' = sy_spans s @ [sp] \<and> sn_Name sp = te_verb (re_trace re) @ '' '' @ rq_Path c
     \<and> (''http.target'', rq_Path c) \<in> set (sn_Attributes sp)"
proof (cases "case admission wi re (sy_tokens s) c of None \<Rightarrow> True | Some info \<Rightarrow> \<not> limit_allows cfg wi re info s")
  case True
  from turned_away_effect [OF assms(1) True assms(3)] assms(2) show ?thesis by (auto simp: names_request_def)
next
  case False
  then obtain info where i: "admission wi re (sy_tokens s) c = Some info" "limit_allows cfg wi re info s"
    by (auto split: option.splits)
  from served_effect [OF assms(1) i assms(3)] assms(2) show ?thesis by (auto simp: names_request_def)
qed

subsection \<open>A small process\<close>

text \<open>One token, a limiter that answers \<open>p\<close>, the backends and contexts of the earlier samples.\<close>

definition sample_wiring :: "bool \<Rightarrow> (unit, unit, unit, nat) wiring" where
  "sample_wiring p = \<lparr>wi_hash = id, wi_new_limiter = (\<lambda>rps burst. nat burst), wi_allow = (\<lambda>n. (p, n - 1)),
     wi_handler = sample_deps, wi_ws = sample_ws\<rparr>"

definition sample_sys :: "(unit, unit, unit, nat, unit) sys" where
  "sample_sys = \<lparr>sy_tokens = one_store, sy_limiters = Map.empty, sy_redis = (\<lambda>_. None), sy_h = sample_hstate, sy_ws = sample_wx,
     sy_ring = the (NewRingBuffer 3), sy_log = NewWriter (), sy_metrics = no_metrics, sy_spans = [], sy_panicked = False\<rparr>"

definition sample_req :: req_env where
  "sample_req = \<lparr>re_uuid = ''id'', re_env = fresh_env 6 [], re_now = 6, re_redis = None, re_redis_now = 6, re_log_start = 0,
     re_log_finish = 1, re_met_start = 0, re_met_finish = 1,
     re_trace = \<lparr>te_verb = ''POST'', te_scheme = ''http'', te_agent = [], te_trace_id = None, te_text = (\<lambda>_. ''error'')\<rparr>\<rparr>"

definition call_with :: "string \<Rightarrow> ctx" where
  "call_with path = new_ctx path [] Map.empty (render sample_request) ''1.2.3.4''"

lemma sample_sys_inv: "sys_inv sample_config sample_sys"
proof -
  obtain rb where rb: "NewRingBuffer 3 = Some rb" by (simp add: NewRingBuffer_def)
  then have "ring_wf rb" by (rule NewRingBuffer_wf) simp
  with rb one_store_wf NewWriter_wf [of "()"] sample_hstate_pools(1) show ?thesis
    by (simp add: sys_inv_def sys_ok_def sample_sys_def pools_of_def) (simp add: NewWriter_def sample_hstate_def sample_config_def)
qed

lemma sample_sys_ok: "sys_ok sample_sys"
  using sample_sys_inv by (simp add: sys_inv_def)

lemma call_with_simps [simp]:
  "rq_Path (call_with p) = p" "\<not> rs_Committed (call_with p)" "rq_Body (call_with p) = Some (render sample_request)"
  "\<not> IsWebSocketUpgrade (call_with p)"
proof -
  have "fold_name [] = []" by code_simp
  then show "\<not> IsWebSocketUpgrade (call_with p)"
    by (simp add: call_with_def new_ctx_def IsWebSocketUpgrade_def hdr_get_def)
qed (simp_all add: call_with_def new_ctx_def)

lemma sample_token: "extractToken ''/4142/v1'' = (''4142'', ''/v1'')"
  using extractToken_path [of "''4142''" "''/v1''"] by simp

lemma sample_admission:
  "admission (sample_wiring p) sample_req (sy_tokens sample_sys) (call_with ''/4142/v1'') = Some (info_of_row one_row)"
  by (simp add: admission_def sample_token sample_wiring_def sample_sys_def stored_def one_store_eq row_with_hash_def one_row_def
      hashToken_def hex_AB admits_def IsExpired_def sample_req_def info_of_row_def)

lemma sample_limit: "limit_allows sample_config (sample_wiring p) sample_req (info_of_row one_row) sample_sys \<longleftrightarrow> p"
  by (simp add: limit_allows_def sample_config_def info_of_row_def one_row_def memory_allow_def GetLimiter_def sample_wiring_def sample_sys_def Let_def)

definition start_config :: config where
  "start_config = sample_config\<lparr>Server := (Server sample_config)\<lparr>MaxBodySize := ''7''\<rparr>\<rparr>"

definition sample_su :: "(unit, unit, unit, unit) startup_env" where
  "sample_su =
     \<lparr>su_float = (\<lambda>_. None), su_hash = id, su_token_open = opens, su_token_env = fresh_env 5 [], su_token_db = ts_db one_store,
      su_migrate_env = (\<lambda>_. fresh_env 5 []), su_reload_env = fresh_env 5 [], su_redis_ok = True, su_redis = Map.empty,
      su_log_open = opens, su_sink = (), su_cache_ok = True, su_cache = (), su_world = (), su_ws_world = ()\<rparr>"

lemma quick_start: "\<exists>s0 :: (unit, unit, unit, nat, unit) sys. startup start_config sample_su = Inr (7, s0)"
proof -
  have "MaxBodySizeBytes (\<lambda>_. None) ((Server sample_config)\<lparr>MaxBodySize := ''7''\<rparr>) = Inr 7" by code_simp
  then show ?thesis
    by (simp add: startup_def startup_stores_def startup_handlers_def startup_tokens_def startup_log_def startup_cache_def NewSQLiteTokenStore_def NewSQLiteStore_def createTable_def opens_def loadCache_def fresh_env_def sample_config_def
        start_config_def sample_su_def NewRingBuffer_def Let_def)
qed

lemma quick_clean:
  "clean_start start_config sample_su"
  using one_store_wf(2)
  by (simp add: clean_start_def NewSQLiteTokenStore_def createTable_def opens_def loadCache_def fresh_env_def sample_config_def start_config_def sample_su_def MigrateConfigTokens_def)


theorem unauthorized_goes_nowhere_witness:
  "(let res = proxyServer sample_config (sample_wiring True) sample_req sample_sys (call_with ''/'')
    in client_status res = 401 \<and> untouched sample_sys (snd (snd res)))"
proof -
  obtain err c' s' where p: "proxyServer sample_config (sample_wiring True) sample_req sample_sys (call_with ''/'') = (err, c', s')"
    by (metis surj_pair)
  have e: "extractToken ''/'' = ([], ''/'')" by (simp add: extractToken_def trim_prefix_def)
  then have "admission (sample_wiring True) sample_req (sy_tokens sample_sys) (call_with ''/'') = None"
      "rejection_code (sample_wiring True) (sy_tokens sample_sys) (call_with ''/'') = 401"
    by (simp_all add: admission_def rejection_code_def)
  with unauthorized_goes_nowhere [OF sample_sys_ok _ _ p] show ?thesis by (simp add: p)
qed

theorem throttled_goes_nowhere_witness:
  "(let res = proxyServer sample_config (sample_wiring False) sample_req sample_sys (call_with ''/4142/v1'')
    in client_status res = 429 \<and> untouched sample_sys (snd (snd res)))"
proof -
  obtain err c' s' where p: "proxyServer sample_config (sample_wiring False) sample_req sample_sys (call_with ''/4142/v1'') = (err, c', s')"
    by (metis surj_pair)
  from throttled_goes_nowhere [OF sample_sys_ok sample_admission _ _ p] show ?thesis by (simp add: p sample_limit)
qed




theorem trace_names_token_witness:
  "(let cfg = sample_config\<lparr>Tracing := \<lparr>trc_Enabled = True, trc_Endpoint = [], trc_SampleRate = 0\<rparr>\<rparr>
    in map sn_Name (sy_spans (serve cfg (sample_wiring True) sample_req (call_with ''/4142/v1'') sample_sys)) = [''POST /4142/v1''])"
proof -
  let ?cfg = "sample_config\<lparr>Tracing := \<lparr>trc_Enabled = True, trc_Endpoint = [], trc_SampleRate = 0\<rparr>\<rparr>"
  obtain err c' s' where p: "proxyServer ?cfg (sample_wiring True) sample_req sample_sys (call_with ''/4142/v1'') = (err, c', s')"
    by (metis surj_pair)
  have t: "trc_Enabled (Tracing ?cfg)" by simp
  have n: "sy_spans sample_sys = []" "te_verb (re_trace sample_req) = ''POST''" by (simp_all add: sample_sys_def sample_req_def)
  from trace_names_token [OF sample_sys_ok t p] show ?thesis
    by (auto simp: serve_def p n)
qed

end
