(* ===== verification/Utf8.thy ===== *)
theory Utf8
  imports Json
begin

text \<open>
  Valid UTF-8 (\<open>utf8.Valid\<close>), and why every string decoded from JSON is: \<open>unquote\<close> replaces what is not.
\<close>

function valid_utf8 :: "string \<Rightarrow> bool" where
  "valid_utf8 s = (if s = [] then True else case utf8_len s of None \<Rightarrow> False | Some n \<Rightarrow> valid_utf8 (drop (max 1 n) s))"
  by pat_completeness auto
termination by (relation "measure length") auto

declare valid_utf8.simps [simp del]

lemma utf8_len_Nil [simp]: "utf8_len [] = None"
  by (simp add: utf8_len_def byte_in_def)

lemma byte_in_Cons [simp]:
  "byte_in lo hi (c # cs) 0 \<longleftrightarrow> lo \<le> (of_char c :: nat) \<and> (of_char c :: nat) \<le> hi"
  "byte_in lo hi (c # cs) (Suc i) \<longleftrightarrow> byte_in lo hi cs i"
  "byte_in lo hi (c # cs) (numeral k) \<longleftrightarrow> byte_in lo hi cs (pred_numeral k)"
  by (simp_all add: byte_in_def)

text \<open>The table behind the branches: ranges of the bytes of each shape. The shapes exclude one another by
  their first byte.\<close>

definition utf8_shapes :: "(nat \<times> nat) list list" where
  "utf8_shapes =
     [[(0, 127)], [(194, 223), (128, 191)], [(224, 224), (160, 191), (128, 191)], [(225, 236), (128, 191), (128, 191)],
      [(238, 239), (128, 191), (128, 191)], [(237, 237), (128, 159), (128, 191)],
      [(240, 240), (144, 191), (128, 191), (128, 191)], [(241, 243), (128, 191), (128, 191), (128, 191)],
      [(244, 244), (128, 143), (128, 191), (128, 191)]]"

fun in_shape :: "(nat \<times> nat) list \<Rightarrow> string \<Rightarrow> bool" where
  "in_shape [] s = True"
| "in_shape ((lo, hi) # rs) [] = False"
| "in_shape ((lo, hi) # rs) (c # cs) = (lo \<le> (of_char c :: nat) \<and> (of_char c :: nat) \<le> hi \<and> in_shape rs cs)"

lemma in_shape_iff: "in_shape rs s \<longleftrightarrow> (\<forall>i < length rs. byte_in (fst (rs ! i)) (snd (rs ! i)) s i)"
proof (induction rs s rule: in_shape.induct)
  case (3 lo hi rs c cs)
  then show ?case by (auto simp: less_Suc_eq_0_disj)
qed (auto simp: byte_in_def)

lemma utf8_len_shape: "utf8_len s = Some n \<longleftrightarrow> (\<exists>rs \<in> set utf8_shapes. in_shape rs s \<and> n = length rs)"
proof (cases s)
  case (Cons c cs)
  define b :: nat where "b = of_char c"
  have b1: "in_shape [(l, h)] cs \<longleftrightarrow> byte_in l h cs 0" "in_shape [(l, h), (l', h')] cs \<longleftrightarrow> byte_in l h cs 0 \<and> byte_in l' h' cs 1"
    "in_shape [(l, h), (l', h'), (l2, h2)] cs \<longleftrightarrow> byte_in l h cs 0 \<and> byte_in l' h' cs 1 \<and> byte_in l2 h2 cs 2" for l h l' h' l2 h2
    by (auto simp: in_shape_iff less_Suc_eq numeral_2_eq_2)
  have n34: "Suc (Suc (Suc 0)) = 3" "Suc (Suc (Suc (Suc 0))) = 4" by simp_all
  consider "b \<le> 127" | "128 \<le> b" "b \<le> 193" | "194 \<le> b" "b \<le> 223" | "b = 224" | "225 \<le> b" "b \<le> 236" | "b = 237"
    | "238 \<le> b" "b \<le> 239" | "b = 240" | "241 \<le> b" "b \<le> 243" | "b = 244" | "245 \<le> b" by linarith
  then show ?thesis unfolding Cons utf8_len_def utf8_shapes_def
    by cases (auto simp: b_def [symmetric] b1 n34)
qed (simp add: utf8_len_def utf8_shapes_def byte_in_def)

lemma in_shape_length: "in_shape rs s \<Longrightarrow> length rs \<le> length s"
  by (induction rs s rule: in_shape.induct) auto

lemma in_shape_append: "in_shape rs s \<Longrightarrow> in_shape rs (s @ t)"
  by (induction rs s rule: in_shape.induct) auto

lemma in_shape_take: "in_shape rs s \<Longrightarrow> in_shape rs (take (length rs) s)"
  by (induction rs s rule: in_shape.induct) auto

lemma utf8_len_bounds: "utf8_len s = Some n \<Longrightarrow> 0 < n \<and> n \<le> length s"
  unfolding utf8_len_shape by (auto simp: utf8_shapes_def dest: in_shape_length)

text \<open>The encoding at the head depends on its own bytes only.\<close>

lemma utf8_len_append: "utf8_len s = Some n \<Longrightarrow> utf8_len (s @ t) = Some n"
  unfolding utf8_len_shape by (blast intro: in_shape_append)

lemma utf8_len_take: "utf8_len s = Some n \<Longrightarrow> utf8_len (take n s) = Some n"
  unfolding utf8_len_shape by (blast intro: in_shape_take)

lemma valid_utf8_Nil [simp]: "valid_utf8 []"
  by (simp add: valid_utf8.simps)

lemma valid_utf8_step: "utf8_len s = Some n \<Longrightarrow> valid_utf8 s \<longleftrightarrow> valid_utf8 (drop n s)"
  using utf8_len_bounds [of s n] by (subst valid_utf8.simps) (auto simp: max_def)

lemma valid_utf8_append: "valid_utf8 s \<Longrightarrow> valid_utf8 (s @ t) \<longleftrightarrow> valid_utf8 t"
proof (induction s rule: valid_utf8.induct)
  case (1 s)
  show ?case
  proof (cases "s = []")
    case False
    with "1.prems" obtain n where n: "utf8_len s = Some n" by (subst (asm) valid_utf8.simps) (auto split: option.splits)
    have b: "0 < n" "n \<le> length s" using utf8_len_bounds [OF n] by simp_all
    have "valid_utf8 (drop (max 1 n) s)" using "1.prems" valid_utf8_step [OF n] b by (simp add: max_def)
    from "1.IH" [OF False n this] show ?thesis
      using valid_utf8_step [OF utf8_len_append [OF n, of t]] b by (simp add: max_def)
  qed simp
qed

lemma valid_utf8_head: "utf8_len s = Some n \<Longrightarrow> valid_utf8 (take n s)"
  using valid_utf8_step [OF utf8_len_take] by simp

lemma valid_utf8_ascii: "list_all (\<lambda>c. (of_char c :: nat) < 128) s \<Longrightarrow> valid_utf8 s"
  by (induction s) (simp_all add: valid_utf8_step [OF utf8_len_ascii])

lemma valid_utf8_show_nat [simp]: "valid_utf8 (show_nat n)"
  by (rule valid_utf8_ascii) (use show_nat_digits [of n] in \<open>auto simp: list_all_iff is_digit_def\<close>)

subsection \<open>Encoded runes\<close>

lemma utf8_encode_len:
  assumes "r < 1114112" "\<not> is_surrogate r"
  shows "utf8_len (utf8_encode r) = Some (length (utf8_encode r))"
proof -
  have b: "(of_char (char_of k :: char) :: nat) = k mod 256" for k by simp
  consider "r < 128" | "128 \<le> r" "r < 2048" | "2048 \<le> r" "r < 65536" | "65536 \<le> r" by linarith
  then show ?thesis
  proof cases
    case 1
    then have "in_shape [(0, 127)] (utf8_encode r)" by (simp add: utf8_encode_def)
    with 1 show ?thesis unfolding utf8_len_shape by (intro bexI [of _ "[(0, 127)]"]) (simp_all add: utf8_shapes_def utf8_encode_def)
  next
    case 2
    have "2 \<le> r div 64" "r div 64 < 32" using 2 by linarith+
    then have "in_shape [(194, 223), (128, 191)] (utf8_encode r)" using 2 by (simp add: utf8_encode_def)
    with 2 show ?thesis unfolding utf8_len_shape
      by (intro bexI [of _ "[(194, 223), (128, 191)]"]) (simp_all add: utf8_shapes_def utf8_encode_def)
  next
    case 3
    define a m l where "a = r div 4096" and "m = (r div 64) mod 64" and "l = r mod 64"
    have e: "utf8_encode r = [char_of (224 + a), char_of (128 + m), char_of (128 + l)]"
      using 3 by (simp add: utf8_encode_def a_def m_def l_def)
    have d: "a < 16" "m < 64" "l < 64" using 3 by (simp_all add: a_def m_def l_def)
    have "r div 64 = 64 * a + m" "r = 64 * (r div 64) + l" by (simp_all add: a_def m_def l_def div_mult2_eq [of r 64 64, simplified])
    then have r: "r = 4096 * a + 64 * m + l" by linarith
    have z: "a = 0 \<Longrightarrow> 32 \<le> m" using 3 r d by linarith
    have s: "a = 13 \<Longrightarrow> m \<le> 31" using assms(2) r d unfolding is_surrogate_def by linarith
    consider "a = 0" | "1 \<le> a" "a \<le> 12" | "a = 13" | "14 \<le> a" "a \<le> 15" using d by linarith
    then show ?thesis unfolding e
      by cases (use d z s in \<open>simp_all add: utf8_len_shape utf8_shapes_def\<close>)
  next
    case 4
    define a m l k where "a = r div 262144" and "m = (r div 4096) mod 64" and "l = (r div 64) mod 64" and "k = r mod 64"
    have e: "utf8_encode r = [char_of (240 + a), char_of (128 + m), char_of (128 + l), char_of (128 + k)]"
      using 4 by (simp add: utf8_encode_def a_def m_def l_def k_def)
    have "r div 4096 = 64 * a + m" "r div 64 = 64 * (r div 4096) + l" "r = 64 * (r div 64) + k"
      by (simp_all add: a_def m_def l_def k_def div_mult2_eq [of r 4096 64, simplified] div_mult2_eq [of r 64 64, simplified])
    then have r: "r = 262144 * a + 4096 * m + 64 * l + k" by linarith
    have d: "a < 5" "m < 64" "l < 64" "k < 64" using assms(1) by (simp_all add: a_def m_def l_def k_def)
    have z: "a = 0 \<Longrightarrow> 16 \<le> m" using 4 r d by linarith
    have s: "a = 4 \<Longrightarrow> m \<le> 15" using assms(1) r d by linarith
    consider "a = 0" | "1 \<le> a" "a \<le> 3" | "a = 4" using d by linarith
    then show ?thesis unfolding e
      by cases (use d z s in \<open>simp_all add: utf8_len_shape utf8_shapes_def\<close>)
  qed
qed

lemma utf8_encode_valid: "r < 1114112 \<Longrightarrow> \<not> is_surrogate r \<Longrightarrow> valid_utf8 (utf8_encode r)"
  using valid_utf8_step [OF utf8_encode_len] by simp

subsection \<open>Unquoting\<close>

definition simple_escapes :: "char set" where
  "simple_escapes = {CHR 0x22, CHR 0x5C, CHR ''/'', CHR ''b'', CHR ''f'', CHR ''n'', CHR ''r'', CHR ''t''}"

text \<open>What the scanner lets through between the quotes: every backslash starts an escape.\<close>

fun escaped :: "string \<Rightarrow> bool" where
  "escaped [] = True"
| "escaped (c # cs) =
     (if c = CHR 0x5C then
        (case cs of
           [] \<Rightarrow> False
         | e # es \<Rightarrow>
             if e = CHR ''u'' then
               (case es of h1 # h2 # h3 # h4 # r \<Rightarrow> is_hex h1 \<and> is_hex h2 \<and> is_hex h3 \<and> is_hex h4 \<and> escaped r | _ \<Rightarrow> False)
             else e \<in> simple_escapes \<and> escaped es)
      else escaped cs)"

lemma scan_str_escaped: "scan_str s = Some (w, r) \<Longrightarrow> escaped w"
proof (induction "length s" arbitrary: s w r rule: less_induct)
  case less
  show ?case
  proof (cases s)
    case (Cons c cs)
    have IH: "escaped w'" if "scan_str t = Some (w', r')" "length t < length s" for t w' r'
      using less.hyps that by blast
    from less.prems [unfolded Cons scan_str.simps(2) [folded simple_escapes_def]] show ?thesis
      by (auto simp: Cons split: if_splits list.splits dest!: IH)
  qed (use less.prems in simp)
qed

lemma hex_val_bound: "hex_val c = Some a \<Longrightarrow> a < 16"
  by (auto simp: hex_val_def Let_def split: if_splits)

lemma getu4_bound: "getu4 s = Some r \<Longrightarrow> r < 65536"
  by (auto simp: getu4_def split: list.splits if_splits option.splits dest!: hex_val_bound)

text \<open>A \<open>\uXXXX\<close> at the head goes on with escaped text.\<close>

lemma getu4_escaped: "getu4 s = Some r \<Longrightarrow> escaped s \<Longrightarrow> escaped (drop 6 s) \<and> 6 \<le> length s"
  by (auto simp: getu4_def split: list.splits if_splits option.splits)

lemma escaped_unicode: "escaped (CHR 0x5C # CHR ''u'' # es) \<Longrightarrow> getu4 (CHR 0x5C # CHR ''u'' # es) \<noteq> None"
  by (auto simp: getu4_def is_hex_def split: list.splits)

lemma escaped_plain_prefix:
  "escaped (s @ t) \<Longrightarrow> list_all (\<lambda>c. c \<noteq> CHR 0x5C) s \<Longrightarrow> escaped t"
  by (induction s) auto

lemma utf8_head_plain:
  assumes "utf8_len (c # cs) = Some n" "c \<noteq> CHR 0x5C"
  shows "list_all (\<lambda>c. c \<noteq> CHR 0x5C) (take n (c # cs))"
proof -
  have k: "(of_char d :: nat) \<noteq> 92" if "128 \<le> (of_char d :: nat)" for d :: char using that by linarith
  have "d \<noteq> CHR 0x5C" if "128 \<le> (of_char d :: nat)" for d :: char using that by auto
  then have t: "in_shape rs s \<Longrightarrow> list_all (\<lambda>(lo, hi). 128 \<le> lo) rs \<Longrightarrow> list_all (\<lambda>c. c \<noteq> CHR 0x5C) (take (length rs) s)" for rs s
    by (induction rs s rule: in_shape.induct) auto
  obtain rs where rs: "rs \<in> set utf8_shapes" "in_shape rs (c # cs)" "n = length rs"
    using assms(1) by (auto simp: utf8_len_shape)
  then have "rs \<noteq> []" "list_all (\<lambda>(lo, hi). 128 \<le> lo) (tl rs)" by (auto simp: utf8_shapes_def)
  with rs(2,3) assms(2) t [of "tl rs" cs] show ?thesis by (cases rs) auto
qed

lemma escape_char_ascii:
  "e \<in> simple_escapes \<Longrightarrow> (of_char (escape_char e) :: nat) < 128"
  unfolding simple_escapes_def by (elim insertE emptyE) (simp_all add: escape_char_def)

lemma decode_pair_rune: "decode_pair a b = Some d \<Longrightarrow> d < 1114112 \<and> \<not> is_surrogate d"
  by (auto simp: decode_pair_def is_surrogate_def split: if_splits)

lemma replacement_valid: "valid_utf8 (utf8_encode replacement_rune)"
  by (rule utf8_encode_valid) (simp_all add: replacement_rune_def is_surrogate_def)

lemma unquote_valid: "escaped s \<Longrightarrow> valid_utf8 (unquote s)"
proof (induction "length s" arbitrary: s rule: less_induct)
  case (less s)
  have IH: "valid_utf8 (unquote t)" if "escaped t" "length t < length s" for t
    using less.hyps that by blast
  have step: "unquote s = (if c = CHR 0x5C then
            (case getu4 s of
               Some r \<Rightarrow>
                 if is_surrogate r then
                   (case Option.bind (getu4 (drop 6 s)) (decode_pair r) of
                      Some d \<Rightarrow> utf8_encode d @ unquote (drop 12 s)
                    | None \<Rightarrow> utf8_encode replacement_rune @ unquote (drop 6 s))
                 else utf8_encode r @ unquote (drop 6 s)
             | None \<Rightarrow> (case cs of [] \<Rightarrow> [] | e # es \<Rightarrow> escape_char e # unquote es))
          else (case utf8_len s of
                  Some n \<Rightarrow> take n s @ unquote (drop (max 1 n) s)
                | None \<Rightarrow> utf8_encode replacement_rune @ unquote cs))" if "s = c # cs" for c cs
    unfolding unquote.simps [of s] by (simp only: that list.case)
  show ?case
  proof (cases s)
    case Nil
    then show ?thesis by (simp add: unquote.simps)
  next
    case (Cons c cs)
    show ?thesis
    proof (cases "c = CHR 0x5C")
      case esc: True
      show ?thesis
      proof (cases "getu4 s")
        case (Some r)
        have e6: "escaped (drop 6 s)" using getu4_escaped [OF Some less.prems] by simp
        have e12: "escaped (drop 12 s)" if "Option.bind (getu4 (drop 6 s)) (decode_pair r) = Some d" for d
          using that getu4_escaped [OF _ e6] by (auto simp: bind_eq_Some_conv)
        have r: "r < 1114112" using getu4_bound [OF Some] by simp
        show ?thesis
        proof (cases "is_surrogate r")
          case sur: True
          show ?thesis
          proof (cases "Option.bind (getu4 (drop 6 s)) (decode_pair r)")
            case None
            have u: "unquote s = utf8_encode replacement_rune @ unquote (drop 6 s)"
              unfolding step [OF Cons] by (simp only: esc Some sur None simp_thms if_True option.case)
            show ?thesis
              unfolding u valid_utf8_append [OF replacement_valid] by (rule IH [OF e6]) (use Cons in simp)
          next
            case pair: (Some d)
            have d: "valid_utf8 (utf8_encode d)" using decode_pair_rune pair utf8_encode_valid by (auto simp: bind_eq_Some_conv)
            have u: "unquote s = utf8_encode d @ unquote (drop 12 s)"
              unfolding step [OF Cons] by (simp only: esc Some sur pair simp_thms if_True option.case)
            show ?thesis
              unfolding u valid_utf8_append [OF d] by (rule IH [OF e12 [OF pair]]) (use Cons in simp)
          qed
        next
          case sur: False
          have u: "unquote s = utf8_encode r @ unquote (drop 6 s)"
            unfolding step [OF Cons] by (simp only: esc Some sur simp_thms if_True if_False option.case)
          show ?thesis
            unfolding u valid_utf8_append [OF utf8_encode_valid [OF r sur]] by (rule IH [OF e6]) (use Cons in simp)
        qed
      next
        case None
        then obtain e es where cs: "cs = e # es" using less.prems Cons esc by (cases cs) auto
        have e: "e \<in> simple_escapes" "escaped es"
          using less.prems escaped_unicode [of es] None Cons esc cs by (auto split: if_splits)
        have u: "unquote s = [escape_char e] @ unquote es"
          unfolding step [OF Cons] by (simp add: esc None cs)
        have "valid_utf8 [escape_char e]" using escape_char_ascii [OF e(1)] by (simp add: valid_utf8_ascii)
        show ?thesis
          unfolding u valid_utf8_append [OF \<open>valid_utf8 [escape_char e]\<close>] by (rule IH [OF e(2)]) (use Cons cs in simp)
      qed
    next
      case raw: False
      show ?thesis
      proof (cases "utf8_len s")
        case None
        have u: "unquote s = utf8_encode replacement_rune @ unquote cs"
          unfolding step [OF Cons] by (simp add: raw None)
        have esc_rest: "escaped cs" using less.prems Cons raw by simp
        show ?thesis
          unfolding u valid_utf8_append [OF replacement_valid] by (rule IH [OF esc_rest]) (use Cons in simp)
      next
        case (Some n)
        have n: "0 < n" "max 1 n = n" using utf8_len_bounds [OF Some] by simp_all
        have u: "unquote s = take n s @ unquote (drop n s)"
          unfolding step [OF Cons] by (simp only: raw Some n(2) if_False option.case)
        have esc_rest: "escaped (drop n s)"
          using escaped_plain_prefix [of "take n s" "drop n s"] utf8_head_plain [OF Some [unfolded Cons] raw] less.prems Cons by simp
        show ?thesis
          unfolding u valid_utf8_append [OF valid_utf8_head [OF Some]] by (rule IH [OF esc_rest]) (use Cons n in simp)
      qed
    qed
  qed
qed

subsection \<open>Decoded values\<close>

text \<open>Every string value in a document is valid.\<close>

fun json_utf8 :: "json \<Rightarrow> bool" where
  "json_utf8 (JStr t) = valid_utf8 t"
| "json_utf8 (JArr es) = list_all (\<lambda>(raw, v). json_utf8 v) es"
| "json_utf8 (JObj ms) = list_all (\<lambda>(k, raw, v). valid_utf8 k \<and> json_utf8 v) ms"
| "json_utf8 _ = True"

lemma parse_utf8_all:
  "(\<forall>d s v r. parse_val f d s = Some (v, r) \<longrightarrow> json_utf8 v)
   \<and> (\<forall>d s es r. parse_elems f d s = Some (es, r) \<longrightarrow> list_all (\<lambda>(raw, v). json_utf8 v) es)
   \<and> (\<forall>d s ms r. parse_members f d s = Some (ms, r) \<longrightarrow> list_all (\<lambda>(k, raw, v). valid_utf8 k \<and> json_utf8 v) ms)"
proof (induction f)
  case (Suc f)
  from Suc have v: "json_utf8 v" if "parse_val f d s = Some (v, r)" for d s v r using that by blast
  from Suc have e: "list_all (\<lambda>(raw, v). json_utf8 v) es" if "parse_elems f d s = Some (es, r)" for d s es r using that by blast
  from Suc have m: "list_all (\<lambda>(k, raw, v). valid_utf8 k \<and> json_utf8 v) ms" if "parse_members f d s = Some (ms, r)" for d s ms r
    using that by blast
  have k: "valid_utf8 (unquote w)" if "scan_str s = Some (w, r)" for s w r
    by (rule unquote_valid) (rule scan_str_escaped [OF that])
  have "json_utf8 v" if "parse_val (Suc f) d s = Some (v, r)" for d s v r
    using that by (auto simp: parse_val.simps split: list.splits if_splits dest!: e m k)
  moreover have "list_all (\<lambda>(raw, v). json_utf8 v) es" if "parse_elems (Suc f) d s = Some (es, r)" for d s es r
    using that by (auto simp: parse_elems.simps split: list.splits option.splits if_splits dest!: v e)
  moreover have "list_all (\<lambda>(k, raw, v). valid_utf8 k \<and> json_utf8 v) ms" if "parse_members (Suc f) d s = Some (ms, r)" for d s ms r
    using that by (auto simp: parse_members.simps Let_def split: list.splits option.splits if_splits dest!: k v m)
  ultimately show ?case by blast
qed (simp add: parse_val.simps parse_elems.simps parse_members.simps)

lemma json_parse_utf8: "json_parse s = Some v \<Longrightarrow> json_utf8 v"
  using parse_utf8_all by (fastforce simp: json_parse_def json_parse_first_def Let_def split: option.splits if_splits)

lemma set_str_field_utf8:
  "foldl (set_str_field name) acc ms = (t, b) \<Longrightarrow> valid_utf8 (fst acc) \<Longrightarrow>
     list_all (\<lambda>(k, raw, v). valid_utf8 k \<and> json_utf8 v) ms \<Longrightarrow> valid_utf8 t"
proof (induction ms arbitrary: acc)
  case (Cons m ms)
  obtain k raw v where m: "m = (k, raw, v)" by (metis prod_cases3)
  have "valid_utf8 (fst (set_str_field name acc m))"
    using Cons.prems(2,3) by (auto simp: m set_str_field_def split: json.split)
  with Cons.IH [of "set_str_field name acc m"] Cons.prems show ?case by simp
qed simp

lemma decode_str_utf8: "json_utf8 v \<Longrightarrow> valid_utf8 (fst (decode_str_struct name v))"
  using set_str_field_utf8 [of name "([], False)"]
  by (cases v) (auto simp: decode_str_struct_def intro: prod.exhaust_sel)

lemma unmarshal_str_utf8: "unmarshal_str_struct name body = Some t \<Longrightarrow> valid_utf8 t"
  by (auto simp: unmarshal_str_struct_def bind_eq_Some_conv checked_def split: if_splits dest: json_parse_utf8 intro: decode_str_utf8)

lemma unmarshal_strs_utf8: "unmarshal_str_structs name body = Some ts \<Longrightarrow> list_all valid_utf8 ts"
proof -
  assume "unmarshal_str_structs name body = Some ts"
  then obtain v where v: "json_parse body = Some v"
      "(case v of JNull \<Rightarrow> Some [] | JArr es \<Rightarrow>
           (let ds = map (\<lambda>e. decode_str_struct name (snd e)) es
            in if list_ex snd ds then None else Some (map fst ds)) | _ \<Rightarrow> None) = Some ts"
    by (auto simp: unmarshal_str_structs_def bind_eq_Some_conv)
  with json_parse_utf8 [OF v(1)] decode_str_utf8 show ?thesis
    by (cases v) (fastforce simp: Let_def list_all_iff split: if_splits)+
qed

end
