(* ===== verification/Prometheus.thy ===== *)
theory Prometheus
  imports Utf8 Float64
begin

text \<open>
  \<open>internal/metrics/prometheus.go\<close> and the registration of \<open>internal/cache/metrics.go\<close>: the declared
  metrics with their label names, and the discipline their use has to follow.

  The client library is a parameter. What it does with a use of a vector is documented: \<open>With\<close> panics
  unless the labels given are exactly the declared ones and every value is valid UTF-8;
  \<open>MustRegister\<close> panics on a name that is already registered. The two are stated as the laws
  \<open>with_law\<close> and \<open>register_law\<close>.
\<close>

datatype collector_kind = CounterVec | GaugeVec | HistogramVec "f64 list" | PlainCounter | PlainGauge

record collector =
  col_Name :: string
  col_Help :: string
  col_Kind :: collector_kind
  col_Labels :: "string list"

definition latency_buckets :: "f64 list" where
  "latency_buckets = map f64_round [0.005, 0.01, 0.025, 0.05, 0.1, 0.25, 0.5, 1.0, 2.5, 5.0, 10.0]"

definition RequestsTotal :: collector where
  "RequestsTotal = \<lparr>col_Name = ''daproxy_requests_total'', col_Help = ''Total number of proxied requests.'', col_Kind = CounterVec,
     col_Labels = [''method'', ''backend'', ''token_name'', ''status_code'']\<rparr>"

definition RequestDuration :: collector where
  "RequestDuration = \<lparr>col_Name = ''daproxy_request_duration_seconds'', col_Help = ''Request latency distribution in seconds.'',
     col_Kind = HistogramVec latency_buckets, col_Labels = [''method'', ''backend'', ''token_name'']\<rparr>"

text \<open>\<open>eb\<close> is the library's \<open>ExponentialBuckets\<close>.\<close>

definition RequestSize :: "(int \<Rightarrow> int \<Rightarrow> nat \<Rightarrow> f64 list) \<Rightarrow> collector" where
  "RequestSize eb = \<lparr>col_Name = ''daproxy_request_size_bytes'', col_Help = ''Request body size distribution in bytes.'',
     col_Kind = HistogramVec (eb 64 4 10), col_Labels = [''method'', ''backend'']\<rparr>"

definition ResponseSize :: "(int \<Rightarrow> int \<Rightarrow> nat \<Rightarrow> f64 list) \<Rightarrow> collector" where
  "ResponseSize eb = \<lparr>col_Name = ''daproxy_response_size_bytes'', col_Help = ''Response body size distribution in bytes.'',
     col_Kind = HistogramVec (eb 64 4 10), col_Labels = [''method'', ''backend'']\<rparr>"

definition ErrorsTotal :: collector where
  "ErrorsTotal = \<lparr>col_Name = ''daproxy_errors_total'', col_Help = ''Total errors by type.'', col_Kind = CounterVec, col_Labels = [''type'']\<rparr>"

definition BackendErrorsTotal :: collector where
  "BackendErrorsTotal = \<lparr>col_Name = ''daproxy_backend_errors_total'', col_Help = ''Upstream errors per backend.'', col_Kind = CounterVec,
     col_Labels = [''backend'']\<rparr>"

definition BackendUp :: collector where
  "BackendUp = \<lparr>col_Name = ''daproxy_backend_up'', col_Help = ''Backend health status (1=healthy, 0=unreachable).'', col_Kind = GaugeVec,
     col_Labels = [''backend'']\<rparr>"

definition BackendHealthDuration :: collector where
  "BackendHealthDuration = \<lparr>col_Name = ''daproxy_backend_health_check_duration_seconds'',
     col_Help = ''Last health check round-trip time in seconds.'', col_Kind = GaugeVec, col_Labels = [''backend'']\<rparr>"

definition RateLimitRemaining :: collector where
  "RateLimitRemaining = \<lparr>col_Name = ''daproxy_rate_limit_remaining'', col_Help = ''Remaining requests in current rate limit window.'',
     col_Kind = GaugeVec, col_Labels = [''token_name'']\<rparr>"

definition RateLimitHitsTotal :: collector where
  "RateLimitHitsTotal = \<lparr>col_Name = ''daproxy_rate_limit_hits_total'', col_Help = ''Total times rate limit was triggered.'',
     col_Kind = CounterVec, col_Labels = [''token_name'']\<rparr>"

definition GRPCRequestsTotal :: collector where
  "GRPCRequestsTotal = \<lparr>col_Name = ''daproxy_grpc_requests_total'', col_Help = ''Total number of proxied gRPC requests.'',
     col_Kind = CounterVec, col_Labels = [''method'', ''grpc_code'']\<rparr>"

definition GRPCRequestDuration :: collector where
  "GRPCRequestDuration = \<lparr>col_Name = ''daproxy_grpc_request_duration_seconds'', col_Help = ''gRPC request latency distribution in seconds.'',
     col_Kind = HistogramVec latency_buckets, col_Labels = [''method'']\<rparr>"

definition TCPConnectionsTotal :: collector where
  "TCPConnectionsTotal = \<lparr>col_Name = ''daproxy_tcp_connections_total'', col_Help = ''Total number of TCP proxy connections.'',
     col_Kind = CounterVec, col_Labels = [''status'']\<rparr>"

definition TCPConnectionDuration :: collector where
  "TCPConnectionDuration = \<lparr>col_Name = ''daproxy_tcp_connection_duration_seconds'', col_Help = ''TCP proxy connection duration in seconds.'',
     col_Kind = HistogramVec (map f64_round [0.1, 0.5, 1, 5, 10, 30, 60, 300, 600]), col_Labels = []\<rparr>"

definition TCPBytesTotal :: collector where
  "TCPBytesTotal = \<lparr>col_Name = ''daproxy_tcp_bytes_total'', col_Help = ''Total bytes transferred through TCP proxy.'',
     col_Kind = CounterVec, col_Labels = [''direction'']\<rparr>"

text \<open>The order of the registrations.\<close>

definition NewMetrics :: "(int \<Rightarrow> int \<Rightarrow> nat \<Rightarrow> f64 list) \<Rightarrow> collector list" where
  "NewMetrics eb =
     [RequestsTotal, RequestDuration, RequestSize eb, ResponseSize eb, ErrorsTotal, BackendErrorsTotal, BackendUp,
      BackendHealthDuration, RateLimitRemaining, RateLimitHitsTotal, GRPCRequestsTotal, GRPCRequestDuration,
      TCPConnectionsTotal, TCPConnectionDuration, TCPBytesTotal]"

definition plain_collector :: "string \<Rightarrow> string \<Rightarrow> collector_kind \<Rightarrow> collector" where
  "plain_collector name help kind = \<lparr>col_Name = name, col_Help = help, col_Kind = kind, col_Labels = []\<rparr>"

definition RegisterMetrics :: "collector list" where
  "RegisterMetrics =
     [plain_collector ''daproxy_cache_hits_total'' ''Total cache hits.'' PlainCounter,
      plain_collector ''daproxy_cache_misses_total'' ''Total cache misses.'' PlainCounter,
      plain_collector ''daproxy_cache_sets_total'' ''Total cache set operations.'' PlainCounter,
      plain_collector ''daproxy_cache_skipped_total'' ''Total cache sets skipped (entry too large).'' PlainCounter,
      plain_collector ''daproxy_cache_hit_ratio'' ''Rolling cache hit ratio (0.0 to 1.0).'' PlainGauge]"

subsection \<open>The laws of the library\<close>

type_synonym labels = "(string \<times> string) list"

definition well_labelled :: "collector \<Rightarrow> labels \<Rightarrow> bool" where
  "well_labelled v ls \<longleftrightarrow> set (map fst ls) = set (col_Labels v) \<and> length ls = length (col_Labels v) \<and> list_all (valid_utf8 \<circ> snd) ls"

text \<open>\<open>w v ls\<close> says that \<open>v.With(ls)\<close> does not panic.\<close>

definition with_law :: "(collector \<Rightarrow> labels \<Rightarrow> bool) \<Rightarrow> bool" where
  "with_law w \<longleftrightarrow> (\<forall>v ls. distinct (map fst ls) \<longrightarrow> (w v ls \<longleftrightarrow> well_labelled v ls))"

text \<open>\<open>MustRegister\<close> on one collector; \<open>None\<close> is its panic. \<open>names\<close> are the registered names.\<close>

definition register_law :: "('r \<Rightarrow> collector \<Rightarrow> 'r option) \<Rightarrow> ('r \<Rightarrow> string set) \<Rightarrow> bool" where
  "register_law reg names \<longleftrightarrow> (\<forall>r c. case reg r c of None \<Rightarrow> col_Name c \<in> names r | Some r' \<Rightarrow> names r' = insert (col_Name c) (names r))"

fun MustRegister :: "('r \<Rightarrow> collector \<Rightarrow> 'r option) \<Rightarrow> collector list \<Rightarrow> 'r \<Rightarrow> 'r option" where
  "MustRegister reg [] r = Some r"
| "MustRegister reg (c # cs) r = (case reg r c of None \<Rightarrow> None | Some r' \<Rightarrow> MustRegister reg cs r')"

lemma MustRegister_ok:
  assumes "register_law reg names" "distinct (map col_Name cs)" "set (map col_Name cs) \<inter> names r = {}"
  shows "\<exists>r'. MustRegister reg cs r = Some r' \<and> names r' = names r \<union> set (map col_Name cs)"
  using assms(2,3)
proof (induction cs arbitrary: r)
  case (Cons c cs)
  from assms(1) have l: "case reg r c of None \<Rightarrow> col_Name c \<in> names r | Some r' \<Rightarrow> names r' = insert (col_Name c) (names r)"
    by (simp add: register_law_def)
  with Cons.prems obtain r1 where r1: "reg r c = Some r1" "names r1 = insert (col_Name c) (names r)" by (auto split: option.splits)
  have "set (map col_Name cs) \<inter> names r1 = {}" using Cons.prems r1(2) by auto
  from Cons.IH [OF _ this] Cons.prems(1) r1 show ?case by auto
qed simp

end
