(* ===== verification/GrpcProxy.thy ===== *)
theory GrpcProxy
  imports Router RingBuffer Prometheus
begin

text \<open>
  \<open>internal/proxy/grpc_proxy.go\<close>: the two forwarding loops of a call and the handler around them.

  The library is the record \<open>grpc_deps\<close>; its streams are sequences of results. A session is a list of
  events: a round of the client's loop (a goroutine), a round of the backend's loop (the handler
  itself), and the two ways the handler's final \<open>select\<close> can go. Every order in which they can
  happen is such a list. Error values are \<open>io.EOF\<close>, errors with a status, and others.

  A handler returns, is still blocked, or panics: a use of a metric vector the library refuses panics,
  and nothing between the handler and the runtime recovers it.
\<close>

datatype rpc_error = EOF | StatusError nat string | OtherError string

definition codes_OK :: nat where "codes_OK = 0"
definition codes_Unknown :: nat where "codes_Unknown = 2"
definition codes_Internal :: nat where "codes_Internal = 13"
definition codes_Unavailable :: nat where "codes_Unavailable = 14"

subsection \<open>The codec\<close>

text \<open>A dynamic value: a frame, or something of another type.\<close>

datatype go_value = Frame string | OfType string

definition raw_Marshal :: "go_value \<Rightarrow> rpc_error + string" where
  "raw_Marshal v =
     (case v of Frame payload \<Rightarrow> Inr payload | OfType t \<Rightarrow> Inl (StatusError codes_Internal (''rawCodec: unexpected type '' @ t)))"

definition raw_Unmarshal :: "string \<Rightarrow> go_value \<Rightarrow> rpc_error + go_value" where
  "raw_Unmarshal data v =
     (case v of Frame _ \<Rightarrow> Inr (Frame data) | OfType t \<Rightarrow> Inl (StatusError codes_Internal (''rawCodec: unexpected type '' @ t)))"

text \<open>\<open>RecvMsg\<close> into a fresh frame and \<open>SendMsg\<close> of a frame, over the wire's payloads: what the stream
  gives or refuses is the last argument.\<close>

definition recv_msg :: "rpc_error + string \<Rightarrow> rpc_error + go_value" where
  "recv_msg r = (case r of Inl err \<Rightarrow> Inl err | Inr data \<Rightarrow> raw_Unmarshal data (Frame []))"

definition send_msg :: "go_value \<Rightarrow> rpc_error option \<Rightarrow> rpc_error + string" where
  "send_msg v refused =
     (case raw_Marshal v of Inl err \<Rightarrow> Inl err | Inr data \<Rightarrow> (case refused of Some err \<Rightarrow> Inl err | None \<Rightarrow> Inr data))"

subsection \<open>The loops\<close>

text \<open>One direction: the payloads sent on, whether the sending side was closed, and what the loop
  returned, if it has (\<open>Some None\<close> is nil).\<close>

record stream_dir =
  sd_sent :: "string list"
  sd_closed :: bool
  sd_result :: "rpc_error option option"

definition open_dir :: stream_dir where
  "open_dir = \<lparr>sd_sent = [], sd_closed = False, sd_result = None\<rparr>"

type_synonym stream_round = "(rpc_error + string) \<times> rpc_error option"

definition nil_at_EOF :: "rpc_error \<Rightarrow> rpc_error option" where
  "nil_at_EOF err = (if err = EOF then None else Some err)"

definition send_on :: "go_value \<Rightarrow> rpc_error option \<Rightarrow> stream_dir \<Rightarrow> stream_dir" where
  "send_on f refused d =
     (case send_msg f refused of
        Inl err \<Rightarrow> d\<lparr>sd_result := Some (Some err)\<rparr>
      | Inr data \<Rightarrow> d\<lparr>sd_sent := sd_sent d @ [data]\<rparr>)"

definition forwardClientToBackend_round :: "stream_round \<Rightarrow> stream_dir \<Rightarrow> stream_dir" where
  "forwardClientToBackend_round ev d =
     (case recv_msg (fst ev) of
        Inl err \<Rightarrow> d\<lparr>sd_closed := True, sd_result := Some (nil_at_EOF err)\<rparr>
      | Inr f \<Rightarrow> send_on f (snd ev) d)"

definition forwardBackendToClient_round :: "stream_round \<Rightarrow> stream_dir \<Rightarrow> stream_dir" where
  "forwardBackendToClient_round ev d =
     (case recv_msg (fst ev) of
        Inl err \<Rightarrow> d\<lparr>sd_result := Some (nil_at_EOF err)\<rparr>
      | Inr f \<Rightarrow> send_on f (snd ev) d)"

fun loop_rounds :: "(stream_round \<Rightarrow> stream_dir \<Rightarrow> stream_dir) \<Rightarrow> stream_round list \<Rightarrow> stream_dir \<Rightarrow> stream_dir" where
  "loop_rounds rnd [] d = d"
| "loop_rounds rnd (ev # evs) d = (if sd_result d \<noteq> None then d else loop_rounds rnd evs (rnd ev d))"

subsection \<open>The session\<close>

datatype session_event = FromClient stream_round | FromBackend stream_round | Joined | TimedOut

text \<open>\<open>ss_c2bErr\<close> is set once the final \<open>select\<close> has been passed.\<close>

record grpc_session =
  ss_c2b :: stream_dir
  ss_b2c :: stream_dir
  ss_cancelled :: bool
  ss_c2bErr :: "rpc_error option option"
  ss_warned :: bool

definition new_session :: grpc_session where
  "new_session = \<lparr>ss_c2b = open_dir, ss_b2c = open_dir, ss_cancelled = False, ss_c2bErr = None, ss_warned = False\<rparr>"

definition returned :: "grpc_session \<Rightarrow> bool" where "returned s \<longleftrightarrow> ss_c2bErr s \<noteq> None"

definition session_step :: "session_event \<Rightarrow> grpc_session \<Rightarrow> grpc_session option" where
  "session_step ev s =
     (case ev of
        FromClient r \<Rightarrow>
          if sd_result (ss_c2b s) \<noteq> None then None
          else Some (s\<lparr>ss_c2b := forwardClientToBackend_round r (ss_c2b s)\<rparr>)
      | FromBackend r \<Rightarrow>
          if sd_result (ss_b2c s) \<noteq> None then None
          else (let d = forwardBackendToClient_round r (ss_b2c s)
                in Some (s\<lparr>ss_b2c := d, ss_cancelled := (sd_result d \<noteq> None)\<rparr>))
      | Joined \<Rightarrow>
          if ss_cancelled s \<and> \<not> returned s \<and> sd_result (ss_c2b s) \<noteq> None
          then Some (s\<lparr>ss_c2bErr := sd_result (ss_c2b s)\<rparr>) else None
      | TimedOut \<Rightarrow>
          if ss_cancelled s \<and> \<not> returned s then Some (s\<lparr>ss_c2bErr := Some None, ss_warned := True\<rparr>) else None)"

fun session_run :: "session_event list \<Rightarrow> grpc_session \<Rightarrow> grpc_session option" where
  "session_run [] s = Some s"
| "session_run (ev # evs) s = (case session_step ev s of None \<Rightarrow> None | Some s' \<Rightarrow> session_run evs s')"

text \<open>The error the handler returns: the backend's, else the client's loop's.\<close>

definition retErr :: "grpc_session \<Rightarrow> rpc_error option" where
  "retErr s =
     (let b2cErr = the (sd_result (ss_b2c s))
      in if b2cErr = None then the (ss_c2bErr s) else b2cErr)"

definition grpc_code_of :: "rpc_error option \<Rightarrow> nat" where
  "grpc_code_of err =
     (case err of None \<Rightarrow> codes_OK | Some (StatusError code msg) \<Rightarrow> code | Some EOF \<Rightarrow> codes_Unknown | Some (OtherError msg) \<Rightarrow> codes_Unknown)"

subsection \<open>The handler\<close>

type_synonym metadata = "string \<rightharpoonup> string list"

record server_stream =
  sv_Method :: "string option"
  sv_Peer :: "string option"
  sv_Metadata :: "metadata option"

text \<open>The two vectors the proxy writes; an observation is a duration in nanoseconds, which the library
  gets in seconds.\<close>

record grpc_metrics =
  qm_total :: "string \<times> string \<Rightarrow> nat"
  qm_duration :: "string \<Rightarrow> int list"

record 'w grpc_deps =
  gp_draw :: draw
  gp_now :: "'w \<Rightarrow> int"
  gp_client :: "string \<Rightarrow> string option"
  gp_open :: "string \<Rightarrow> metadata \<Rightarrow> string \<Rightarrow> 'w \<Rightarrow> rpc_error option \<times> 'w"
  gp_session :: "'w \<Rightarrow> session_event list \<times> 'w"
  gp_trailer :: "'w \<Rightarrow> metadata"
  gp_text :: "rpc_error \<Rightarrow> string"
  gp_code_string :: "nat \<Rightarrow> string"
  gp_With :: "collector \<Rightarrow> labels \<Rightarrow> bool"

record 'w grpc_state =
  gx_router :: router
  gx_world :: 'w
  gx_metrics :: "grpc_metrics option"
  gx_sinks :: "log_entry list option list"
  gx_opened :: "(string \<times> metadata \<times> string) list"

definition grpc_recordMetrics :: "'w grpc_deps \<Rightarrow> string \<Rightarrow> int \<Rightarrow> rpc_error option \<Rightarrow> 'w grpc_state \<Rightarrow> 'w grpc_state outcome" where
  "grpc_recordMetrics dp fullMethod start err s =
     (case gx_metrics s of
        None \<Rightarrow> Done s
      | Some m \<Rightarrow>
          (let code = gp_code_string dp (grpc_code_of err);
               l = (fullMethod, code)
           in if \<not> gp_With dp GRPCRequestsTotal [(''method'', fullMethod), (''grpc_code'', code)] then Panic
              else if \<not> gp_With dp GRPCRequestDuration [(''method'', fullMethod)] then Panic
              else Done (s\<lparr>gx_metrics := Some (m\<lparr>qm_total := (qm_total m)(l := qm_total m l + 1),
                  qm_duration := (qm_duration m)(fullMethod := qm_duration m fullMethod @ [gp_now dp (gx_world s) - start])\<rparr>)\<rparr>)))"

definition sinks_push :: "log_entry \<Rightarrow> log_entry list option list \<Rightarrow> log_entry list option list" where
  "sinks_push e sinks = map (map_option (\<lambda>es. es @ [e])) sinks"

definition grpc_entry :: "'w grpc_deps \<Rightarrow> string \<Rightarrow> string \<Rightarrow> int \<Rightarrow> int \<Rightarrow> rpc_error option \<Rightarrow> log_entry" where
  "grpc_entry dp fullMethod clientIP start latency err =
     zero_entry\<lparr>le_Timestamp := start, le_Method := fullMethod, le_Backend := BackendCelestiaAppGRPC,
       le_StatusCode := int (grpc_code_of err), le_LatencyMs := sample_ms latency, le_ClientIP := clientIP,
       le_Error := (case err of None \<Rightarrow> [] | Some e \<Rightarrow> gp_text dp e), le_Path := ''grpc''\<rparr>"

text \<open>What follows the \<open>select\<close>.\<close>

definition grpc_finish :: "'w grpc_deps \<Rightarrow> string \<Rightarrow> string \<Rightarrow> string \<Rightarrow> int \<Rightarrow> grpc_session \<Rightarrow> 'w grpc_state \<Rightarrow> 'w grpc_state outcome" where
  "grpc_finish dp fullMethod clientIP endpoint start ss s =
     (let now = gp_now dp (gx_world s);
          s = s\<lparr>gx_router := router_RecordLatency BackendCelestiaAppGRPC endpoint (now - start) (gx_router s)\<rparr>;
          entry = grpc_entry dp fullMethod clientIP start (now - start) (retErr ss)
      in map_outcome (\<lambda>s. s\<lparr>gx_sinks := sinks_push entry (gx_sinks s)\<rparr>) (grpc_recordMetrics dp fullMethod start (retErr ss) s))"

text \<open>The result: the error, and the trailer set on the server stream if any. \<open>Blocked\<close> is a handler that
  has not returned.\<close>

type_synonym 'w grpc_result = "(rpc_error option \<times> metadata option \<times> 'w grpc_state) outcome"

definition grpc_forward :: "'w grpc_deps \<Rightarrow> string \<Rightarrow> string \<Rightarrow> string \<Rightarrow> int \<Rightarrow> 'w grpc_state \<Rightarrow> 'w grpc_result" where
  "grpc_forward dp fullMethod clientIP endpoint start s =
     (case gp_session dp (gx_world s) of (evs, w) \<Rightarrow>
        (case session_run evs new_session of
           None \<Rightarrow> Blocked
         | Some ss \<Rightarrow>
             if returned ss then
               map_outcome (\<lambda>s. (retErr ss, Some (gp_trailer dp w), s))
                 (grpc_finish dp fullMethod clientIP endpoint start ss (s\<lparr>gx_world := w\<rparr>))
             else Blocked))"

definition streamHandler :: "'w grpc_deps \<Rightarrow> server_stream \<Rightarrow> 'w grpc_state \<Rightarrow> 'w grpc_result" where
  "streamHandler dp sv s =
     (case sv_Method sv of
        None \<Rightarrow> Done (Some (StatusError codes_Internal ''failed to get method from stream''), None, s)
      | Some fullMethod \<Rightarrow>
          (let start = gp_now dp (gx_world s);
               clientIP = (case sv_Peer sv of None \<Rightarrow> [] | Some ip \<Rightarrow> ip)
           in case router_TargetURL (gp_draw dp) BackendCelestiaAppGRPC (gx_router s) of (endpoint, r) \<Rightarrow>
             (let s = s\<lparr>gx_router := r\<rparr>
              in if endpoint = [] then Done (Some (StatusError codes_Unavailable ''no gRPC backend available''), None, s)
                 else case gp_client dp (''passthrough:///'' @ endpoint) of
                   Some err \<Rightarrow> Done (Some (StatusError codes_Unavailable (''backend connection failed: '' @ err)), None, s)
                 | None \<Rightarrow>
                     (let md = (case sv_Metadata sv of None \<Rightarrow> Map.empty | Some md \<Rightarrow> md);
                          s = s\<lparr>gx_opened := gx_opened s @ [(endpoint, md, fullMethod)]\<rparr>
                      in case gp_open dp (''passthrough:///'' @ endpoint) md fullMethod (gx_world s) of
                           (Some err, w) \<Rightarrow>
                             map_outcome (\<lambda>s. (Some err, None, s)) (grpc_recordMetrics dp fullMethod start (Some err) (s\<lparr>gx_world := w\<rparr>))
                         | (None, w) \<Rightarrow> grpc_forward dp fullMethod clientIP endpoint start (s\<lparr>gx_world := w\<rparr>)))))"

subsection \<open>The codec and the loops\<close>

lemma recv_msg_eq [simp]: "recv_msg (Inr data) = Inr (Frame data)" "recv_msg (Inl err) = Inl err"
  by (simp_all add: recv_msg_def raw_Unmarshal_def)

lemma send_msg_eq [simp]: "send_msg (Frame data) None = Inr data" "send_msg (Frame data) (Some err) = Inl err"
  by (simp_all add: send_msg_def raw_Marshal_def)

text \<open>What a loop does with its rounds: it copies the payloads up to the first failure.\<close>

definition passed :: "stream_round \<Rightarrow> bool" where
  "passed ev \<longleftrightarrow> (case ev of (Inr data, None) \<Rightarrow> True | _ \<Rightarrow> False)"

definition payload :: "stream_round \<Rightarrow> string" where
  "payload ev = (case fst ev of Inr data \<Rightarrow> data | Inl err \<Rightarrow> [])"

definition verdict :: "stream_round list \<Rightarrow> rpc_error option option" where
  "verdict evs =
     (case evs of [] \<Rightarrow> None | (Inl err, _) # _ \<Rightarrow> Some (nil_at_EOF err) | (Inr data, Some err) # _ \<Rightarrow> Some (Some err) | _ \<Rightarrow> None)"

lemma loop_rounds_eq:
  assumes "rnd = forwardClientToBackend_round \<or> rnd = forwardBackendToClient_round" "sd_result d = None"
  shows "sd_sent (loop_rounds rnd evs d) = sd_sent d @ map payload (takeWhile passed evs)
     \<and> sd_result (loop_rounds rnd evs d) = verdict (dropWhile passed evs)"
  using assms(2)
proof (induction evs arbitrary: d)
  case (Cons ev evs)
  obtain r q where ev: "ev = (r, q)" by (metis surj_pair)
  have stop: "loop_rounds rnd evs d' = d'" if "sd_result d' \<noteq> None" for d' using that by (cases evs) simp_all
  show ?case
  proof (cases "passed ev")
    case True
    then obtain data where e: "ev = (Inr data, None)" using ev by (auto simp: passed_def split: sum.splits option.splits)
    with assms(1) have "rnd ev d = d\<lparr>sd_sent := sd_sent d @ [data]\<rparr>"
      by (auto simp: forwardClientToBackend_round_def forwardBackendToClient_round_def send_on_def)
    with Cons.IH [of "d\<lparr>sd_sent := sd_sent d @ [data]\<rparr>"] Cons.prems True e show ?thesis by (simp add: payload_def)
  next
    case False
    then have r: "sd_sent (rnd ev d) = sd_sent d" "sd_result (rnd ev d) = verdict (ev # evs)" "sd_result (rnd ev d) \<noteq> None"
      using assms(1) ev
      by (cases r; cases q; auto simp: passed_def verdict_def forwardClientToBackend_round_def forwardBackendToClient_round_def send_on_def)+
    with False Cons.prems stop [OF r(3)] show ?thesis by simp
  qed
qed (simp add: verdict_def)

definition client_rounds :: "session_event list \<Rightarrow> stream_round list" where
  "client_rounds evs = List.map_filter (\<lambda>ev. case ev of FromClient r \<Rightarrow> Some r | _ \<Rightarrow> None) evs"

definition backend_rounds :: "session_event list \<Rightarrow> stream_round list" where
  "backend_rounds evs = List.map_filter (\<lambda>ev. case ev of FromBackend r \<Rightarrow> Some r | _ \<Rightarrow> None) evs"

lemma rounds_simps [simp]:
  "client_rounds [] = []" "client_rounds (FromClient r # evs) = r # client_rounds evs"
  "client_rounds (FromBackend r # evs) = client_rounds evs" "client_rounds (Joined # evs) = client_rounds evs"
  "client_rounds (TimedOut # evs) = client_rounds evs"
  "backend_rounds [] = []" "backend_rounds (FromBackend r # evs) = r # backend_rounds evs"
  "backend_rounds (FromClient r # evs) = backend_rounds evs" "backend_rounds (Joined # evs) = backend_rounds evs"
  "backend_rounds (TimedOut # evs) = backend_rounds evs"
  by (simp_all add: client_rounds_def backend_rounds_def map_filter_def)

lemma session_run_loops:
  assumes "session_run evs s = Some s'"
  shows "ss_c2b s' = loop_rounds forwardClientToBackend_round (client_rounds evs) (ss_c2b s)
     \<and> ss_b2c s' = loop_rounds forwardBackendToClient_round (backend_rounds evs) (ss_b2c s)"
  using assms
proof (induction evs arbitrary: s)
  case (Cons ev evs)
  then obtain s1 where s1: "session_step ev s = Some s1" "session_run evs s1 = Some s'" by (auto split: option.splits)
  from Cons.IH [OF s1(2)] s1(1) show ?case
    by (cases ev) (auto simp: session_step_def Let_def split: if_splits)
qed simp


text \<open>C25: In every interleaving the proxy is transparent to payloads: in each direction it has sent on
  exactly the frames read before that direction's first failure, byte for byte and in order, and each
  loop ends with what stopped it, an end of stream counting as success.\<close>

theorem grpc_copies_frames:
  assumes "session_run evs new_session = Some ss"
  shows "sd_sent (ss_c2b ss) = map payload (takeWhile passed (client_rounds evs))
     \<and> sd_sent (ss_b2c ss) = map payload (takeWhile passed (backend_rounds evs))
     \<and> sd_result (ss_c2b ss) = verdict (dropWhile passed (client_rounds evs))
     \<and> sd_result (ss_b2c ss) = verdict (dropWhile passed (backend_rounds evs))"
  using session_run_loops [OF assms] loop_rounds_eq [of forwardClientToBackend_round open_dir "client_rounds evs"]
    loop_rounds_eq [of forwardBackendToClient_round open_dir "backend_rounds evs"]
  by (simp add: new_session_def open_dir_def)

text \<open>A unary call: one request, one answer, both sides ending well; and one in which the client sends
  on after the backend has ended the call.\<close>

definition unary_call :: "session_event list" where
  "unary_call = [FromClient (Inr ''ask'', None), FromClient (Inl EOF, None), FromBackend (Inr ''answer'', None), FromBackend (Inl EOF, None), Joined]"

definition late_send :: "session_event list" where
  "late_send = [FromClient (Inr ''ask'', None), FromBackend (Inr ''answer'', None), FromBackend (Inl EOF, None), FromClient (Inr ''more'', Some EOF), Joined]"

lemmas session_eval = session_step_def new_session_def open_dir_def forwardClientToBackend_round_def forwardBackendToClient_round_def
  send_on_def returned_def nil_at_EOF_def Let_def

theorem grpc_copies_frames_witness:
  "map_option (\<lambda>ss. (sd_sent (ss_c2b ss), sd_sent (ss_b2c ss))) (session_run unary_call new_session) = Some ([''ask''], [''answer''])"
proof -
  obtain ss where ss: "session_run unary_call new_session = Some ss" by (simp add: unary_call_def session_eval)
  have "client_rounds unary_call = [(Inr ''ask'', None), (Inl EOF, None)]" "backend_rounds unary_call = [(Inr ''answer'', None), (Inl EOF, None)]"
    by (simp_all add: unary_call_def)
  with grpc_copies_frames [OF ss] show ?thesis by (simp add: ss passed_def payload_def)
qed

subsection \<open>The outcome of a call\<close>

definition session_wf :: "grpc_session \<Rightarrow> bool" where
  "session_wf s \<longleftrightarrow> (ss_cancelled s \<longleftrightarrow> sd_result (ss_b2c s) \<noteq> None)
     \<and> (returned s \<longrightarrow> ss_cancelled s \<and> ss_c2bErr s = (if ss_warned s then Some None else sd_result (ss_c2b s)))
     \<and> (ss_warned s \<longrightarrow> returned s)"

lemma session_step_wf: "session_wf s \<Longrightarrow> session_step ev s = Some s' \<Longrightarrow> session_wf s'"
  by (cases ev) (auto simp: session_step_def session_wf_def returned_def Let_def split: if_splits)

lemma session_run_wf: "session_wf s \<Longrightarrow> session_run evs s = Some s' \<Longrightarrow> session_wf s'"
  by (induction evs arbitrary: s) (auto split: option.splits intro: session_step_wf)

lemma new_session_wf: "session_wf new_session"
  by (simp add: session_wf_def new_session_def returned_def open_dir_def)

text \<open>C26: A returned call reports the backend's error when the backend's stream failed; when it ended
  well, the error of the client's loop, and success if that loop was not waited for. The reported
  code is the backend's own status code whenever the backend gave one.\<close>

theorem grpc_call_outcome:
  assumes "session_run evs new_session = Some ss" "returned ss"
  shows "\<exists>b. verdict (dropWhile passed (backend_rounds evs)) = Some b
     \<and> retErr ss = (if b \<noteq> None then b else if ss_warned ss then None else the (verdict (dropWhile passed (client_rounds evs))))
     \<and> (ss_warned ss \<or> verdict (dropWhile passed (client_rounds evs)) \<noteq> None)
     \<and> (\<forall>code msg. b = Some (StatusError code msg) \<longrightarrow> grpc_code_of (retErr ss) = code)"
proof -
  have wf: "session_wf ss" by (rule session_run_wf [OF new_session_wf assms(1)])
  with assms(2) obtain b where "sd_result (ss_b2c ss) = Some b" by (auto simp: session_wf_def)
  with wf assms(2) grpc_copies_frames [OF assms(1)] show ?thesis
    by (auto simp: session_wf_def retErr_def grpc_code_of_def Let_def returned_def split: if_splits)
qed

text \<open>C28: A call the backend ended well can still fail: when the client sends on after that end, the send
  is refused with \<open>io.EOF\<close>, which the client's loop returns as an error; the handler then returns
  \<open>EOF\<close>, and the client and the log get the code \<open>Unknown\<close> for a call that had succeeded.\<close>

theorem late_send_spoils_success:
  assumes "session_run evs new_session = Some ss" "returned ss" "\<not> ss_warned ss"
    "verdict (dropWhile passed (backend_rounds evs)) = Some None"
    "dropWhile passed (client_rounds evs) = (Inr data, Some EOF) # rest"
  shows "retErr ss = Some EOF \<and> grpc_code_of (retErr ss) = codes_Unknown"
proof -
  have wf: "session_wf ss" by (rule session_run_wf [OF new_session_wf assms(1)])
  then show ?thesis using assms(2-5) grpc_copies_frames [OF assms(1)]
    by (simp add: session_wf_def retErr_def grpc_code_of_def Let_def verdict_def)
qed


lemma late_send_runs: "\<exists>ss. session_run late_send new_session = Some ss \<and> returned ss \<and> \<not> ss_warned ss"
  by (simp add: late_send_def session_eval)

lemma late_send_rounds:
  "client_rounds late_send = [(Inr ''ask'', None), (Inr ''more'', Some EOF)]"
  "backend_rounds late_send = [(Inr ''answer'', None), (Inl EOF, None)]"
  by (simp_all add: late_send_def)

theorem late_send_spoils_success_witness:
  "map_option (\<lambda>ss. (sd_sent (ss_b2c ss), retErr ss)) (session_run late_send new_session) = Some ([''answer''], Some EOF)"
proof -
  obtain ss where ss: "session_run late_send new_session = Some ss" "returned ss" "\<not> ss_warned ss" using late_send_runs by blast
  have v: "verdict (dropWhile passed (backend_rounds late_send)) = Some None"
      "dropWhile passed (client_rounds late_send) = (Inr ''more'', Some EOF) # []"
    by (simp_all add: late_send_rounds passed_def verdict_def nil_at_EOF_def)
  have "sd_sent (ss_b2c ss) = [''answer'']"
    using session_run_loops [OF ss(1)] loop_rounds_eq [of forwardBackendToClient_round open_dir "backend_rounds late_send"]
    by (simp add: late_send_rounds new_session_def open_dir_def passed_def payload_def)
  with late_send_spoils_success [OF ss v] show ?thesis by (simp add: ss(1))
qed

theorem grpc_call_outcome_witness:
  "map_option (\<lambda>ss. grpc_code_of (retErr ss)) (session_run [FromClient (Inr ''ask'', None), FromBackend (Inl (StatusError 5 ''absent''), None), TimedOut] new_session) = Some 5"
proof -
  let ?evs = "[FromClient (Inr ''ask'', None), FromBackend (Inl (StatusError 5 ''absent''), None), TimedOut]"
  obtain ss where ss: "session_run ?evs new_session = Some ss" "returned ss" by (simp add: session_eval)
  from grpc_call_outcome [OF ss] show ?thesis by (simp only: ss(1)) (auto simp: passed_def verdict_def nil_at_EOF_def)
qed



subsection \<open>The handler around it\<close>

definition counted :: "'w grpc_deps \<Rightarrow> string \<Rightarrow> rpc_error option \<Rightarrow> grpc_metrics option \<Rightarrow> nat" where
  "counted dp m err q = (case q of None \<Rightarrow> 0 | Some q \<Rightarrow> qm_total q (m, gp_code_string dp (grpc_code_of err)))"

lemma recordMetrics_done:
  assumes "grpc_recordMetrics dp m t err s = Done s'"
  shows "gx_router s' = gx_router s \<and> gx_sinks s' = gx_sinks s \<and> gx_opened s' = gx_opened s \<and> gx_world s' = gx_world s
    \<and> (gx_metrics s' = None \<longleftrightarrow> gx_metrics s = None)
    \<and> counted dp m err (gx_metrics s') = counted dp m err (gx_metrics s) + (if gx_metrics s = None then 0 else 1)"
  using assms by (auto simp: grpc_recordMetrics_def counted_def Let_def split: option.splits if_splits)

lemma finish_done:
  assumes "grpc_finish dp m ip ep t ss s = Done s'"
  shows "gx_opened s' = gx_opened s
    \<and> counted dp m (retErr ss) (gx_metrics s') = counted dp m (retErr ss) (gx_metrics s) + (if gx_metrics s = None then 0 else 1)
    \<and> gx_router s' = router_RecordLatency BackendCelestiaAppGRPC ep (gp_now dp (gx_world s) - t) (gx_router s)
    \<and> gx_sinks s' = sinks_push (grpc_entry dp m ip t (gp_now dp (gx_world s) - t) (retErr ss)) (gx_sinks s)"
proof -
  from assms obtain s1 where s1:
      "grpc_recordMetrics dp m t (retErr ss) (s\<lparr>gx_router := router_RecordLatency BackendCelestiaAppGRPC ep (gp_now dp (gx_world s) - t) (gx_router s)\<rparr>) = Done s1"
      "s' = s1\<lparr>gx_sinks := sinks_push (grpc_entry dp m ip t (gp_now dp (gx_world s) - t) (retErr ss)) (gx_sinks s1)\<rparr>"
    by (auto simp: grpc_finish_def Let_def map_outcome_Done)
  from recordMetrics_done [OF s1(1)] show ?thesis by (simp add: s1(2))
qed

lemma grpc_serving: "serving BackendCelestiaAppGRPC r = BackendCelestiaAppGRPC"
  by (simp add: serving_def backend_consts)

text \<open>What a call that reached its stream leaves behind.\<close>

definition call_record :: "log_entry \<Rightarrow> string \<Rightarrow> rpc_error option \<Rightarrow> bool" where
  "call_record e m err \<longleftrightarrow> le_Method e = m \<and> le_Backend e = BackendCelestiaAppGRPC \<and> le_StatusCode e = int (grpc_code_of err)
     \<and> le_Path e = ''grpc'' \<and> le_TokenName e = [] \<and> (err = None \<longrightarrow> le_Error e = [])"

lemma grpc_entry_record: "call_record (grpc_entry dp m ip t d err) m err"
  by (simp add: call_record_def grpc_entry_def zero_entry_def)

lemma grpc_forward_result:
  assumes "grpc_forward dp m ip ep start s = Done (err, tr, s')"
  shows "gx_opened s' = gx_opened s \<and> tr \<noteq> None
    \<and> counted dp m err (gx_metrics s') = counted dp m err (gx_metrics s) + (if gx_metrics s = None then 0 else 1)
    \<and> (\<exists>e. call_record e m err \<and> gx_sinks s' = sinks_push e (gx_sinks s))
    \<and> (\<exists>d. gx_router s' = router_RecordLatency BackendCelestiaAppGRPC ep d (gx_router s))"
proof -
  obtain evs w ss where x: "gp_session dp (gx_world s) = (evs, w)" "session_run evs new_session = Some ss" "returned ss"
    "err = retErr ss" "tr = Some (gp_trailer dp w)" "grpc_finish dp m ip ep start ss (s\<lparr>gx_world := w\<rparr>) = Done s'"
    using assms by (auto simp: grpc_forward_def map_outcome_Done split: prod.splits option.splits if_splits)
  from finish_done [OF x(6)] x(4,5) show ?thesis by (auto intro: grpc_entry_record)
qed

text \<open>A call opens at most one stream, to a configured gRPC endpoint, with the client's method and
  metadata unchanged. One that reached its stream and returned is counted once under the code of its
  result, gives every sink one entry with that code and leaves one latency on that endpoint; any
  other returns an error, logs nothing and, when the stream could not be opened, is counted.\<close>

theorem grpc_handler_records:
  assumes "streamHandler dp sv s = Done (err, tr, s')" "sv_Method sv = Some m"
    "router_wf (gx_router s)" "good_draw (gp_draw dp)" "router_AllEndpoints BackendCelestiaAppGRPC (gx_router s) \<noteq> []"
  shows "gx_sinks s' = gx_sinks s \<and> err \<noteq> None \<and> tr = None \<and> gx_opened s' = gx_opened s
    \<or> (\<exists>ep. ep \<in> set (router_AllEndpoints BackendCelestiaAppGRPC (gx_router s))
        \<and> gx_opened s' = gx_opened s @ [(ep, case sv_Metadata sv of None \<Rightarrow> Map.empty | Some md \<Rightarrow> md, m)]
        \<and> counted dp m err (gx_metrics s') = counted dp m err (gx_metrics s) + (if gx_metrics s = None then 0 else 1)
        \<and> (if tr = None then err \<noteq> None \<and> gx_sinks s' = gx_sinks s
           else (\<exists>e. call_record e m err \<and> gx_sinks s' = sinks_push e (gx_sinks s))
              \<and> (\<exists>d r. gx_router s' = router_RecordLatency BackendCelestiaAppGRPC ep d r)))"
proof -
  obtain ep r where t: "router_TargetURL (gp_draw dp) BackendCelestiaAppGRPC (gx_router s) = (ep, r)" by (metis surj_pair)
  have ep: "ep \<in> set (router_AllEndpoints BackendCelestiaAppGRPC (gx_router s))"
    using rt.target_member [OF assms(3,4), of BackendCelestiaAppGRPC] assms(5) t by (simp add: grpc_serving)
  consider (early) "gx_sinks s' = gx_sinks s" "err \<noteq> None" "tr = None" "gx_opened s' = gx_opened s"
    | (opened) md s1 where "md = (case sv_Metadata sv of None \<Rightarrow> Map.empty | Some md \<Rightarrow> md)"
        "gx_opened s1 = gx_opened s @ [(ep, md, m)]" "gx_sinks s1 = gx_sinks s" "gx_metrics s1 = gx_metrics s"
        "(\<exists>e t. err = Some e \<and> tr = None \<and> grpc_recordMetrics dp m t (Some e) s1 = Done s')
          \<or> (\<exists>ip start. grpc_forward dp m ip ep start s1 = Done (err, tr, s'))"
  proof -
    let ?md = "case sv_Metadata sv of None \<Rightarrow> Map.empty | Some md \<Rightarrow> md"
    obtain o1 w where o: "gp_open dp (''passthrough:///'' @ ep) ?md m (gx_world s) = (o1, w)" by (metis surj_pair)
    let ?s = "s\<lparr>gx_router := r, gx_opened := gx_opened s @ [(ep, ?md, m)], gx_world := w\<rparr>"
    show thesis
    proof (cases "ep = [] \<or> gp_client dp (''passthrough:///'' @ ep) \<noteq> None")
      case True
      then show thesis using assms(1,2) t by (intro early) (auto simp: streamHandler_def Let_def split: if_splits)
    next
      case False
      then show thesis using assms(1,2) t o
        by (intro opened [of ?md ?s]) (auto simp: streamHandler_def Let_def map_outcome_Done split: option.splits)
    qed
  qed
  then show ?thesis
  proof cases
    case early
    then show ?thesis by simp
  next
    case opened
    from opened(5) show ?thesis
    proof
      assume "\<exists>e t. err = Some e \<and> tr = None \<and> grpc_recordMetrics dp m t (Some e) s1 = Done s'"
      with opened(1-4) ep show ?thesis using recordMetrics_done by fastforce
    next
      assume "\<exists>ip start. grpc_forward dp m ip ep start s1 = Done (err, tr, s')"
      then show ?thesis using grpc_forward_result opened(1-4) ep by fastforce
    qed
  qed
qed


definition sample_grpc :: "unit grpc_deps" where
  "sample_grpc = \<lparr>gp_draw = steady, gp_now = (\<lambda>w. 7), gp_client = (\<lambda>t. None), gp_open = (\<lambda>t md m w. (None, w)),
     gp_session = (\<lambda>w. (unary_call, w)), gp_trailer = (\<lambda>w. Map.empty), gp_text = (\<lambda>e. ''rpc error''), gp_code_string = show_nat,
     gp_With = well_labelled\<rparr>"

definition sample_gx :: "unit grpc_state" where
  "sample_gx = \<lparr>gx_router = NewRouter (sample_backends\<lparr>CelestiaAppGRPC := [''grpc:9090'']\<rparr>), gx_world = (), gx_metrics = None,
     gx_sinks = [Some [], None], gx_opened = []\<rparr>"

theorem grpc_handler_records_witness:
  "(case streamHandler sample_grpc \<lparr>sv_Method = Some ''/cosmos.Query/Get'', sv_Peer = None, sv_Metadata = None\<rparr> sample_gx of
      Done (err, tr, s') \<Rightarrow> gx_sinks s' = [Some [], None] \<or> (\<exists>e. le_Method e = ''/cosmos.Query/Get'' \<and> gx_sinks s' = [Some [e], None])
    | _ \<Rightarrow> True)"
proof -
  have d: "good_draw (gp_draw sample_grpc)" by (simp add: sample_grpc_def)
  have wf: "router_wf (gx_router sample_gx)" by (simp add: sample_gx_def NewRouter_wf)
  have ne: "router_AllEndpoints BackendCelestiaAppGRPC (gx_router sample_gx) \<noteq> []"
    by (simp add: sample_gx_def NewRouter_def buildBalancers_def router_AllEndpoints_def balancer_All_def NewBalancer_def backend_consts)
  have sk: "gx_sinks sample_gx = [Some [], None]" by (simp add: sample_gx_def)
  let ?sv = "\<lparr>sv_Method = Some ''/cosmos.Query/Get'', sv_Peer = None, sv_Metadata = None\<rparr>"
  have m: "sv_Method ?sv = Some ''/cosmos.Query/Get''" by simp
  show ?thesis
  proof (cases "streamHandler sample_grpc ?sv sample_gx")
    case (Done r)
    obtain err tr s' where r: "r = (err, tr, s')" by (metis surj_pair)
    from grpc_handler_records [OF Done [unfolded r] m wf d ne] Done r show ?thesis
      by (auto simp: sk sinks_push_def call_record_def split: if_splits)
  qed simp_all
qed

subsection \<open>Panics\<close>

lemma with_total: "with_law w \<Longrightarrow> w GRPCRequestsTotal [(''method'', m), (''grpc_code'', c)] \<longleftrightarrow> valid_utf8 m \<and> valid_utf8 c"
  by (simp add: with_law_def well_labelled_def GRPCRequestsTotal_def)

lemma with_duration: "with_law w \<Longrightarrow> w GRPCRequestDuration [(''method'', m)] \<longleftrightarrow> valid_utf8 m"
  by (simp add: with_law_def well_labelled_def GRPCRequestDuration_def)

lemma recordMetrics_panics:
  assumes "with_law (gp_With dp)" "\<And>c. valid_utf8 (gp_code_string dp c)"
  shows "grpc_recordMetrics dp m t err s = Panic \<longleftrightarrow> gx_metrics s \<noteq> None \<and> \<not> valid_utf8 m"
  by (simp add: grpc_recordMetrics_def Let_def with_total [OF assms(1)] with_duration [OF assms(1)] assms(2) split: option.split)

lemma finish_panics:
  assumes "with_law (gp_With dp)" "\<And>c. valid_utf8 (gp_code_string dp c)"
  shows "grpc_finish dp m ip ep t ss s = Panic \<longleftrightarrow> gx_metrics s \<noteq> None \<and> \<not> valid_utf8 m"
  by (simp add: grpc_finish_def Let_def recordMetrics_panics [OF assms])

lemma forward_panics:
  assumes "with_law (gp_With dp)" "\<And>c. valid_utf8 (gp_code_string dp c)"
    "\<And>w. \<exists>ss. session_run (fst (gp_session dp w)) new_session = Some ss \<and> returned ss"
  shows "grpc_forward dp m ip ep t s = Panic \<longleftrightarrow> gx_metrics s \<noteq> None \<and> \<not> valid_utf8 m"
proof -
  obtain evs w where e: "gp_session dp (gx_world s) = (evs, w)" by (metis surj_pair)
  with assms(3) [of "gx_world s"] obtain ss where "session_run evs new_session = Some ss" "returned ss" by auto
  with e show ?thesis by (simp add: grpc_forward_def finish_panics [OF assms(1,2)])
qed

text \<open>C22: A call can bring the proxy down. With the endpoints in place and a session that ends, however it
  does, the handler panics exactly when the client's method name is not valid UTF-8: the name is a
  label value, which the metrics library refuses with a panic. It panics whatever the backend answers
  and although the backend has refused the stream, and needs no token.\<close>

theorem grpc_call_panics:
  assumes "with_law (gp_With dp)" "\<And>c. valid_utf8 (gp_code_string dp c)"
    "router_wf (gx_router s)" "good_draw (gp_draw dp)"
    "router_AllEndpoints BackendCelestiaAppGRPC (gx_router s) \<noteq> []" "[] \<notin> set (router_AllEndpoints BackendCelestiaAppGRPC (gx_router s))"
    "\<And>t. gp_client dp t = None" "\<And>w. \<exists>ss. session_run (fst (gp_session dp w)) new_session = Some ss \<and> returned ss"
    "sv_Method sv = Some m" "gx_metrics s \<noteq> None"
  shows "streamHandler dp sv s = Panic \<longleftrightarrow> \<not> valid_utf8 m"
proof -
  obtain ep r where t: "router_TargetURL (gp_draw dp) BackendCelestiaAppGRPC (gx_router s) = (ep, r)" by (metis surj_pair)
  have "ep \<in> set (router_AllEndpoints BackendCelestiaAppGRPC (gx_router s))"
    using rt.target_member [OF assms(3,4), of BackendCelestiaAppGRPC] assms(5) t by (simp add: grpc_serving)
  with assms(6) have ep: "ep \<noteq> []" by auto
  show ?thesis
    by (cases "gp_open dp (''passthrough:///'' @ ep) (case sv_Metadata sv of None \<Rightarrow> Map.empty | Some md \<Rightarrow> md) m (gx_world s)")
      (simp add: streamHandler_def Let_def t ep assms(7,9,10) recordMetrics_panics [OF assms(1,2)] forward_panics [OF assms(1,2,8)]
         split: option.split)
qed

theorem grpc_call_panics_witness:
  "streamHandler sample_grpc \<lparr>sv_Method = Some (''/a/b'' @ [CHR 0xFF]), sv_Peer = None, sv_Metadata = None\<rparr>
     (sample_gx\<lparr>gx_metrics := Some \<lparr>qm_total = (\<lambda>l. 0), qm_duration = (\<lambda>l. [])\<rparr>\<rparr>) = Panic"
proof -
  let ?s = "sample_gx\<lparr>gx_metrics := Some \<lparr>qm_total = (\<lambda>l. 0), qm_duration = (\<lambda>l. [])\<rparr>\<rparr>"
  have law: "with_law (gp_With sample_grpc)" by (simp add: with_law_def sample_grpc_def)
  have codes: "valid_utf8 (gp_code_string sample_grpc c)" for c
    by (simp add: sample_grpc_def)
  have eps: "router_AllEndpoints BackendCelestiaAppGRPC (gx_router ?s) = [''grpc:9090'']"
    by (simp add: sample_gx_def NewRouter_def buildBalancers_def router_AllEndpoints_def balancer_All_def NewBalancer_def backend_consts)
  have ends: "\<exists>ss. session_run (fst (gp_session sample_grpc w)) new_session = Some ss \<and> returned ss" for w
    by (simp add: sample_grpc_def unary_call_def session_eval)
  have "\<not> valid_utf8 (''/a/b'' @ [CHR 0xFF])" by code_simp
  with grpc_call_panics [OF law codes _ _ _ _ _ ends, of ?s "\<lparr>sv_Method = Some (''/a/b'' @ [CHR 0xFF]), sv_Peer = None, sv_Metadata = None\<rparr>"] eps
  show ?thesis by (simp add: sample_grpc_def sample_gx_def NewRouter_wf)
qed

end
