(* ===== verification/TcpProxy.thy ===== *)
theory TcpProxy
  imports GrpcProxy
begin

text \<open>
  \<open>internal/proxy/tcp_proxy.go\<close>: one proxied connection, and the accept loop with \<open>Close\<close>.

  A direction is \<open>io.Copy\<close>: a round reads some bytes and writes them. The two copies run side by side,
  so a connection is any interleaving of their rounds. The accept loop, the connections and \<open>Close\<close>
  are a step relation on the server's fields.
\<close>

subsection \<open>io.Copy\<close>

text \<open>A round: the bytes read, whether the read ended the stream (an error or its end), and how many of
  the bytes the write took; a write that takes fewer is an error.\<close>

record copy_round =
  cr_data :: string
  cr_end :: bool
  cr_took :: nat

record copy_dir =
  cd_out :: string
  cd_n :: int
  cd_half_closed :: bool
  cd_done :: bool

definition new_copy :: copy_dir where
  "new_copy = \<lparr>cd_out = [], cd_n = 0, cd_half_closed = False, cd_done = False\<rparr>"

definition io_Copy_round :: "copy_round \<Rightarrow> copy_dir \<Rightarrow> copy_dir" where
  "io_Copy_round r d =
     (let nr = length (cr_data r);
          nw = min nr (cr_took r);
          d = d\<lparr>cd_out := cd_out d @ take nw (cr_data r), cd_n := cd_n d + int nw\<rparr>
      in if nw < nr \<or> cr_end r then d\<lparr>cd_done := True\<rparr> else d)"

text \<open>After its copy a direction closes the writing side of a TCP peer.\<close>

definition copy_then_half_close :: "bool \<Rightarrow> copy_round \<Rightarrow> copy_dir \<Rightarrow> copy_dir" where
  "copy_then_half_close is_tcp r d =
     (let d = io_Copy_round r d in if cd_done d then d\<lparr>cd_half_closed := is_tcp\<rparr> else d)"

subsection \<open>One connection\<close>

text \<open>Whether the backend's and the client's connection are TCP connections is a pair of flags.\<close>

datatype conn_event = ClientData copy_round | BackendData copy_round

record tcp_session =
  ts_c2b :: copy_dir
  ts_b2c :: copy_dir

definition new_tcp_session :: tcp_session where
  "new_tcp_session = \<lparr>ts_c2b = new_copy, ts_b2c = new_copy\<rparr>"

definition tcp_step :: "bool \<times> bool \<Rightarrow> conn_event \<Rightarrow> tcp_session \<Rightarrow> tcp_session option" where
  "tcp_step tcp ev s =
     (case ev of
        ClientData r \<Rightarrow> if cd_done (ts_c2b s) then None else Some (s\<lparr>ts_c2b := copy_then_half_close (fst tcp) r (ts_c2b s)\<rparr>)
      | BackendData r \<Rightarrow> if cd_done (ts_b2c s) then None else Some (s\<lparr>ts_b2c := copy_then_half_close (snd tcp) r (ts_b2c s)\<rparr>))"

fun tcp_run :: "bool \<times> bool \<Rightarrow> conn_event list \<Rightarrow> tcp_session \<Rightarrow> tcp_session option" where
  "tcp_run tcp [] s = Some s"
| "tcp_run tcp (ev # evs) s = (case tcp_step tcp ev s of None \<Rightarrow> None | Some s' \<Rightarrow> tcp_run tcp evs s')"

record tcp_metrics =
  tm_total :: "string \<Rightarrow> nat"
  tm_duration :: "int list"
  tm_bytes :: "string \<Rightarrow> int"

record 'w tcp_deps =
  tp_draw :: draw
  tp_now :: "'w \<Rightarrow> int"
  tp_dial :: "string \<Rightarrow> 'w \<Rightarrow> string option \<times> 'w"
  tp_tcp :: "bool \<times> bool"
  tp_session :: "'w \<Rightarrow> conn_event list \<times> 'w"

record 'w tcp_state =
  tx_router :: router
  tx_world :: 'w
  tx_metrics :: "tcp_metrics option"
  tx_sinks :: "log_entry list option list"
  tx_dialed :: "string list"
  tx_client_closed :: bool

definition tcp_recordMetrics :: "'w tcp_deps \<Rightarrow> string \<Rightarrow> int \<Rightarrow> int \<Rightarrow> int \<Rightarrow> 'w tcp_state \<Rightarrow> 'w tcp_state" where
  "tcp_recordMetrics dp status sent received start s =
     (case tx_metrics s of
        None \<Rightarrow> s
      | Some m \<Rightarrow>
          (let m = m\<lparr>tm_total := (tm_total m)(status := tm_total m status + 1)\<rparr>;
               m = m\<lparr>tm_duration := tm_duration m @ [tp_now dp (tx_world s) - start]\<rparr>;
               m = (if 0 < sent then m\<lparr>tm_bytes := (tm_bytes m)(''sent'' := tm_bytes m ''sent'' + sent)\<rparr> else m);
               m = (if 0 < received then m\<lparr>tm_bytes := (tm_bytes m)(''received'' := tm_bytes m ''received'' + received)\<rparr> else m)
           in s\<lparr>tx_metrics := Some m\<rparr>))"

definition tcp_entry :: "string \<Rightarrow> int \<Rightarrow> int \<Rightarrow> log_entry" where
  "tcp_entry clientIP start duration =
     zero_entry\<lparr>le_Timestamp := start, le_Method := ''tcp'', le_Backend := BackendCelestiaAppP2P,
       le_LatencyMs := sample_ms duration, le_ClientIP := clientIP, le_Path := ''tcp''\<rparr>"

text \<open>The part after both copies have ended.\<close>

definition tcp_finish :: "'w tcp_deps \<Rightarrow> string \<Rightarrow> string \<Rightarrow> int \<Rightarrow> tcp_session \<Rightarrow> 'w tcp_state \<Rightarrow> 'w tcp_state" where
  "tcp_finish dp clientIP endpoint start ts s =
     (let duration = tp_now dp (tx_world s) - start;
          sentBytes = cd_n (ts_c2b ts);
          recvBytes = cd_n (ts_b2c ts);
          s = s\<lparr>tx_router := router_RecordLatency BackendCelestiaAppP2P endpoint duration (tx_router s)\<rparr>;
          s = tcp_recordMetrics dp ''success'' sentBytes recvBytes start s
      in s\<lparr>tx_sinks := sinks_push (tcp_entry clientIP start duration) (tx_sinks s)\<rparr>)"

text \<open>\<open>None\<close> is a handler that has not returned. The result is the session, if the backend was reached.\<close>

definition tcp_forward :: "'w tcp_deps \<Rightarrow> string \<Rightarrow> string \<Rightarrow> int \<Rightarrow> 'w tcp_state \<Rightarrow> (tcp_session option \<times> 'w tcp_state) option" where
  "tcp_forward dp clientIP endpoint start s =
     (case tp_session dp (tx_world s) of (evs, w) \<Rightarrow>
        (case tcp_run (tp_tcp dp) evs new_tcp_session of
           None \<Rightarrow> None
         | Some ts \<Rightarrow>
             if cd_done (ts_b2c ts) \<and> cd_done (ts_c2b ts)
             then Some (Some ts, (tcp_finish dp clientIP endpoint start ts (s\<lparr>tx_world := w\<rparr>))\<lparr>tx_client_closed := True\<rparr>)
             else None))"

definition handleConn :: "'w tcp_deps \<Rightarrow> string \<Rightarrow> 'w tcp_state \<Rightarrow> (tcp_session option \<times> 'w tcp_state) option" where
  "handleConn dp clientIP s =
     (let start = tp_now dp (tx_world s)
      in case router_TargetURL (tp_draw dp) BackendCelestiaAppP2P (tx_router s) of (endpoint, r) \<Rightarrow>
        (let s = s\<lparr>tx_router := r\<rparr>
         in if endpoint = [] then Some (None, (tcp_recordMetrics dp ''error'' 0 0 start s)\<lparr>tx_client_closed := True\<rparr>)
            else case tp_dial dp endpoint (tx_world s) of
              (Some err, w) \<Rightarrow>
                Some (None, (tcp_recordMetrics dp ''error'' 0 0 start (s\<lparr>tx_world := w, tx_dialed := tx_dialed s @ [endpoint]\<rparr>))
                              \<lparr>tx_client_closed := True\<rparr>)
            | (None, w) \<Rightarrow> tcp_forward dp clientIP endpoint start (s\<lparr>tx_world := w, tx_dialed := tx_dialed s @ [endpoint]\<rparr>)))"

subsection \<open>The server\<close>

record tcp_server =
  sv_listener :: "bool option"
  sv_closed :: bool
  sv_active :: nat
  sv_serving :: bool
  sv_accepted :: nat

text \<open>\<open>sv_listener\<close> is the field of that name, with whether the listener is still open. \<open>sv_serving\<close> says that \<open>Serve\<close> has
  not returned.\<close>

definition NewTCPProxy :: tcp_server where
  "NewTCPProxy = \<lparr>sv_listener = None, sv_closed = False, sv_active = 0, sv_serving = False, sv_accepted = 0\<rparr>"

datatype server_event = SvServe | SvAccept | SvAcceptError | SvConnDone | SvClose | SvCloseReturns

text \<open>\<open>SvClose\<close> runs up to \<open>wg.Wait\<close>, whose return is \<open>SvCloseReturns\<close>. \<open>Accept\<close> fails on a closed
  listener and may fail on an open one.\<close>

inductive server_step :: "server_event \<Rightarrow> tcp_server \<Rightarrow> tcp_server \<Rightarrow> bool" where
  serve: "\<not> sv_serving s \<Longrightarrow> sv_listener s = None \<Longrightarrow> server_step SvServe s (s\<lparr>sv_listener := Some True, sv_serving := True\<rparr>)"
| accept_ok: "sv_serving s \<Longrightarrow> sv_listener s = Some True \<Longrightarrow>
    server_step SvAccept s (s\<lparr>sv_active := sv_active s + 1, sv_accepted := sv_accepted s + 1\<rparr>)"
| accept_error: "sv_serving s \<Longrightarrow>
    server_step SvAcceptError s (if sv_closed s then s\<lparr>sv_serving := False\<rparr> else s)"
| conn_done: "0 < sv_active s \<Longrightarrow> server_step SvConnDone s (s\<lparr>sv_active := sv_active s - 1\<rparr>)"
| closing: "server_step SvClose s (s\<lparr>sv_closed := True, sv_listener := map_option (\<lambda>_. False) (sv_listener s)\<rparr>)"
| close_returns: "sv_closed s \<Longrightarrow> sv_active s = 0 \<Longrightarrow> server_step SvCloseReturns s s"

code_pred server_step .

inductive server_steps :: "server_event list \<Rightarrow> tcp_server \<Rightarrow> tcp_server \<Rightarrow> bool" where
  none: "server_steps [] s s"
| more: "server_step ev s s1 \<Longrightarrow> server_steps evs s1 s2 \<Longrightarrow> server_steps (ev # evs) s s2"

inductive_cases server_stepE: "server_step ev s s'"
inductive_cases server_stepsE: "server_steps (ev # evs) s s'"
inductive_simps server_step_simps [simp]:
  "server_step SvServe s s'" "server_step SvAccept s s'" "server_step SvAcceptError s s'"
  "server_step SvConnDone s s'" "server_step SvClose s s'" "server_step SvCloseReturns s s'"
inductive_simps server_steps_simps [simp]: "server_steps [] s s'" "server_steps (ev # evs) s s'"

subsection \<open>Bytes\<close>

definition round_ok :: "copy_round \<Rightarrow> bool" where
  "round_ok r \<longleftrightarrow> length (cr_data r) \<le> cr_took r \<and> \<not> cr_end r"

definition client_data :: "conn_event list \<Rightarrow> copy_round list" where
  "client_data evs = List.map_filter (\<lambda>ev. case ev of ClientData r \<Rightarrow> Some r | _ \<Rightarrow> None) evs"

definition backend_data :: "conn_event list \<Rightarrow> copy_round list" where
  "backend_data evs = List.map_filter (\<lambda>ev. case ev of BackendData r \<Rightarrow> Some r | _ \<Rightarrow> None) evs"

lemma data_simps [simp]:
  "client_data [] = []" "client_data (ClientData r # evs) = r # client_data evs" "client_data (BackendData r # evs) = client_data evs"
  "backend_data [] = []" "backend_data (BackendData r # evs) = r # backend_data evs" "backend_data (ClientData r # evs) = backend_data evs"
  by (simp_all add: client_data_def backend_data_def map_filter_def)

text \<open>The bytes a list of rounds delivers: all of the rounds before the first that ends the copy, and
  what the write took of that one.\<close>

definition delivered :: "copy_round list \<Rightarrow> string" where
  "delivered rs = concat (map cr_data (takeWhile round_ok rs))
     @ (case dropWhile round_ok rs of [] \<Rightarrow> [] | r # _ \<Rightarrow> take (cr_took r) (cr_data r))"

fun copy_rounds :: "bool \<Rightarrow> copy_round list \<Rightarrow> copy_dir \<Rightarrow> copy_dir" where
  "copy_rounds tcp [] d = d"
| "copy_rounds tcp (r # rs) d = (if cd_done d then d else copy_rounds tcp rs (copy_then_half_close tcp r d))"

lemma copy_rounds_eq:
  "\<not> cd_done d \<Longrightarrow> \<not> cd_half_closed d \<Longrightarrow> cd_n d = int (length (cd_out d)) \<Longrightarrow>
     cd_out (copy_rounds tcp rs d) = cd_out d @ delivered rs
     \<and> cd_n (copy_rounds tcp rs d) = int (length (cd_out (copy_rounds tcp rs d)))
     \<and> (cd_done (copy_rounds tcp rs d) \<longleftrightarrow> dropWhile round_ok rs \<noteq> [])
     \<and> (cd_half_closed (copy_rounds tcp rs d) \<longleftrightarrow> tcp \<and> dropWhile round_ok rs \<noteq> [])"
proof (induction rs arbitrary: d)
  case (Cons r rs)
  have stop: "copy_rounds tcp rs d' = d'" if "cd_done d'" for d' using that by (cases rs) simp_all
  show ?case
  proof (cases "round_ok r")
    case True
    then have "copy_then_half_close tcp r d = d\<lparr>cd_out := cd_out d @ cr_data r, cd_n := cd_n d + int (length (cr_data r))\<rparr>"
      using Cons.prems by (simp add: copy_then_half_close_def io_Copy_round_def round_ok_def Let_def)
    with Cons.IH [of "d\<lparr>cd_out := cd_out d @ cr_data r, cd_n := cd_n d + int (length (cr_data r))\<rparr>"] Cons.prems True
    show ?thesis by (simp add: delivered_def)
  next
    case False
    then have d: "copy_then_half_close tcp r d =
        d\<lparr>cd_out := cd_out d @ take (cr_took r) (cr_data r), cd_n := cd_n d + int (min (length (cr_data r)) (cr_took r)),
          cd_done := True, cd_half_closed := tcp\<rparr>"
      by (auto simp: copy_then_half_close_def io_Copy_round_def round_ok_def Let_def min_def)
    with False Cons.prems stop show ?thesis by (simp add: delivered_def)
  qed
qed (simp add: delivered_def)

lemma tcp_run_copies:
  "tcp_run tcp evs s = Some s' \<Longrightarrow>
     ts_c2b s' = copy_rounds (fst tcp) (client_data evs) (ts_c2b s) \<and> ts_b2c s' = copy_rounds (snd tcp) (backend_data evs) (ts_b2c s)"
proof (induction evs arbitrary: s)
  case (Cons ev evs)
  then obtain s1 where s1: "tcp_step tcp ev s = Some s1" "tcp_run tcp evs s1 = Some s'" by (auto split: option.splits)
  from Cons.IH [OF s1(2)] s1(1) show ?case by (cases ev) (auto simp: tcp_step_def split: if_splits)
qed simp


lemma tcp_run_counts:
  "tcp_run tcp evs new_tcp_session = Some ts \<Longrightarrow>
     cd_n (ts_c2b ts) = int (length (cd_out (ts_c2b ts))) \<and> cd_n (ts_b2c ts) = int (length (cd_out (ts_b2c ts)))"
  using tcp_run_copies [of tcp evs new_tcp_session ts] copy_rounds_eq [of new_copy "fst tcp" "client_data evs"]
    copy_rounds_eq [of new_copy "snd tcp" "backend_data evs"]
  by (simp add: new_tcp_session_def new_copy_def)

text \<open>C29: However the two copies interleave, each side has received exactly the bytes the other sent, in
  order, up to the end of that direction (or to what the failing write took), the counters are the
  numbers of those bytes, and the end of one direction is passed on as a half-close while the other
  direction goes on.\<close>

theorem tcp_copies_bytes:
  assumes "tcp_run tcp evs new_tcp_session = Some ts"
  shows "cd_out (ts_c2b ts) = delivered (client_data evs) \<and> cd_n (ts_c2b ts) = int (length (delivered (client_data evs)))
     \<and> cd_out (ts_b2c ts) = delivered (backend_data evs) \<and> cd_n (ts_b2c ts) = int (length (delivered (backend_data evs)))
     \<and> (cd_half_closed (ts_c2b ts) \<longleftrightarrow> fst tcp \<and> cd_done (ts_c2b ts)) \<and> (cd_half_closed (ts_b2c ts) \<longleftrightarrow> snd tcp \<and> cd_done (ts_b2c ts))
     \<and> (cd_done (ts_c2b ts) \<longleftrightarrow> dropWhile round_ok (client_data evs) \<noteq> [])
     \<and> (cd_done (ts_b2c ts) \<longleftrightarrow> dropWhile round_ok (backend_data evs) \<noteq> [])"
  using tcp_run_copies [OF assms] copy_rounds_eq [of new_copy "fst tcp" "client_data evs"]
    copy_rounds_eq [of new_copy "snd tcp" "backend_data evs"]
  by (simp add: new_tcp_session_def new_copy_def)

text \<open>The client says two things and ends; the backend answers after that.\<close>

definition tcp_talk :: "conn_event list" where
  "tcp_talk = [ClientData \<lparr>cr_data = ''ab'', cr_end = False, cr_took = 9\<rparr>, ClientData \<lparr>cr_data = ''c'', cr_end = True, cr_took = 9\<rparr>,
     BackendData \<lparr>cr_data = ''xyz'', cr_end = True, cr_took = 2\<rparr>]"

lemma tcp_talk_data:
  "client_data tcp_talk = [\<lparr>cr_data = ''ab'', cr_end = False, cr_took = 9\<rparr>, \<lparr>cr_data = ''c'', cr_end = True, cr_took = 9\<rparr>]"
  "backend_data tcp_talk = [\<lparr>cr_data = ''xyz'', cr_end = True, cr_took = 2\<rparr>]"
  by (simp_all add: tcp_talk_def)

lemma tcp_talk_runs: "\<exists>ts. tcp_run tcp tcp_talk new_tcp_session = Some ts"
  by (simp add: tcp_talk_def tcp_step_def new_tcp_session_def new_copy_def copy_then_half_close_def io_Copy_round_def Let_def)

theorem tcp_copies_bytes_witness:
  "map_option (\<lambda>ts. (cd_out (ts_c2b ts), cd_out (ts_b2c ts), cd_n (ts_b2c ts))) (tcp_run (True, True) tcp_talk new_tcp_session)
     = Some (''abc'', ''xy'', 2)"
proof -
  obtain ts where ts: "tcp_run (True, True) tcp_talk new_tcp_session = Some ts" using tcp_talk_runs by blast
  from tcp_copies_bytes [OF ts] show ?thesis by (simp add: ts tcp_talk_data delivered_def round_ok_def)
qed

subsection \<open>Accounting\<close>

lemma tcp_recordMetrics_frame [simp]:
  "tx_router (tcp_recordMetrics dp st a b t s) = tx_router s" "tx_sinks (tcp_recordMetrics dp st a b t s) = tx_sinks s"
  "tx_dialed (tcp_recordMetrics dp st a b t s) = tx_dialed s" "tx_world (tcp_recordMetrics dp st a b t s) = tx_world s"
  by (simp_all add: tcp_recordMetrics_def Let_def split: option.split)

lemma tcp_recordMetrics_counts:
  assumes "tx_metrics s = Some m" "0 \<le> a" "0 \<le> b"
  shows "\<exists>m'. tx_metrics (tcp_recordMetrics dp st a b t s) = Some m' \<and> tm_total m' = (tm_total m)(st := tm_total m st + 1)
     \<and> tm_bytes m' = (tm_bytes m)(''sent'' := tm_bytes m ''sent'' + a, ''received'' := tm_bytes m ''received'' + b)"
  using assms by (auto simp: tcp_recordMetrics_def Let_def fun_eq_iff)

lemma tcp_finish_frame [simp]:
  "tx_sinks (tcp_finish dp ip ep t ts s) = sinks_push (tcp_entry ip t (tp_now dp (tx_world s) - t)) (tx_sinks s)"
  "tx_dialed (tcp_finish dp ip ep t ts s) = tx_dialed s"
  by (simp_all add: tcp_finish_def Let_def)

lemma tcp_finish_counts:
  assumes "tx_metrics s = Some m" "0 \<le> cd_n (ts_c2b ts)" "0 \<le> cd_n (ts_b2c ts)"
  shows "\<exists>m'. tx_metrics (tcp_finish dp ip ep t ts s) = Some m' \<and> tm_total m' = (tm_total m)(''success'' := tm_total m ''success'' + 1)
     \<and> tm_bytes m' = (tm_bytes m)(''sent'' := tm_bytes m ''sent'' + cd_n (ts_c2b ts), ''received'' := tm_bytes m ''received'' + cd_n (ts_b2c ts))"
  using tcp_recordMetrics_counts [of "s\<lparr>tx_router := r\<rparr>" m "cd_n (ts_c2b ts)" "cd_n (ts_b2c ts)" dp "''success''" t for r] assms
  by (simp add: tcp_finish_def Let_def)

lemma tcp_forward_result:
  assumes "tcp_forward dp ip ep t s = Some (res, s')" "tx_metrics s = Some m"
  shows "\<exists>ts m' e. res = Some ts \<and> tx_client_closed s' \<and> tx_dialed s' = tx_dialed s \<and> tx_metrics s' = Some m'
     \<and> tm_total m' = (tm_total m)(''success'' := tm_total m ''success'' + 1)
     \<and> tm_bytes m' = (tm_bytes m)(''sent'' := tm_bytes m ''sent'' + int (length (cd_out (ts_c2b ts))),
                                  ''received'' := tm_bytes m ''received'' + int (length (cd_out (ts_b2c ts))))
     \<and> tx_sinks s' = sinks_push e (tx_sinks s) \<and> le_ClientIP e = ip \<and> le_RequestBytes e = 0 \<and> le_ResponseBytes e = 0"
proof -
  obtain evs w where w: "tp_session dp (tx_world s) = (evs, w)" by (metis surj_pair)
  with assms(1) obtain ts where x: "tcp_run (tp_tcp dp) evs new_tcp_session = Some ts"
    by (cases "tcp_run (tp_tcp dp) evs new_tcp_session") (auto simp: tcp_forward_def)
  with assms(1) w have x: "tcp_run (tp_tcp dp) evs new_tcp_session = Some ts" "res = Some ts"
      "s' = (tcp_finish dp ip ep t ts (s\<lparr>tx_world := w\<rparr>))\<lparr>tx_client_closed := True\<rparr>"
    by (auto simp: tcp_forward_def split: if_splits)
  from tcp_run_counts [OF x(1)] tcp_finish_counts [of "s\<lparr>tx_world := w\<rparr>" m ts dp ip ep t] assms(2)
  obtain m' where m: "tx_metrics s' = Some m'" "tm_total m' = (tm_total m)(''success'' := tm_total m ''success'' + 1)"
      "tm_bytes m' = (tm_bytes m)(''sent'' := tm_bytes m ''sent'' + int (length (cd_out (ts_c2b ts))),
                                  ''received'' := tm_bytes m ''received'' + int (length (cd_out (ts_b2c ts))))"
    by (auto simp: x(3))
  let ?e = "tcp_entry ip t (tp_now dp w - t)"
  have e: "le_ClientIP ?e = ip \<and> le_RequestBytes ?e = 0 \<and> le_ResponseBytes ?e = 0" by (simp add: tcp_entry_def zero_entry_def)
  show ?thesis
    by (rule exI [of _ ts], rule exI [of _ m'], rule exI [of _ ?e]) (use m e in \<open>simp add: x(2,3)\<close>)
qed

text \<open>A connection dials at most one address, an endpoint configured for P2P, and its client side is
  closed when it ends. One that reached its backend is counted as a success, adds exactly the bytes
  it carried to the two byte counters, and gives every sink one entry, whose own byte fields stay 0;
  any other is counted as an error and logs nothing.\<close>

theorem tcp_connection_accounts:
  assumes "handleConn dp ip s = Some (res, s')" "tx_metrics s = Some m"
    "router_wf (tx_router s)" "good_draw (tp_draw dp)" "router_AllEndpoints BackendCelestiaAppP2P (tx_router s) \<noteq> []"
  shows "tx_client_closed s'
     \<and> (tx_dialed s' = tx_dialed s \<or> (\<exists>ep \<in> set (router_AllEndpoints BackendCelestiaAppP2P (tx_router s)). tx_dialed s' = tx_dialed s @ [ep]))
     \<and> (\<exists>m'. tx_metrics s' = Some m' \<and>
         (case res of
            None \<Rightarrow> tm_total m' = (tm_total m)(''error'' := tm_total m ''error'' + 1) \<and> tm_bytes m' = tm_bytes m \<and> tx_sinks s' = tx_sinks s
          | Some ts \<Rightarrow> tm_total m' = (tm_total m)(''success'' := tm_total m ''success'' + 1)
              \<and> tm_bytes m' = (tm_bytes m)(''sent'' := tm_bytes m ''sent'' + int (length (cd_out (ts_c2b ts))),
                                           ''received'' := tm_bytes m ''received'' + int (length (cd_out (ts_b2c ts))))
              \<and> (\<exists>e. tx_sinks s' = sinks_push e (tx_sinks s) \<and> le_ClientIP e = ip \<and> le_RequestBytes e = 0 \<and> le_ResponseBytes e = 0)))"
proof -
  obtain ep r where t: "router_TargetURL (tp_draw dp) BackendCelestiaAppP2P (tx_router s) = (ep, r)" by (metis surj_pair)
  have "serving BackendCelestiaAppP2P (tx_router s) = BackendCelestiaAppP2P" by (simp add: serving_def backend_consts)
  then have ep: "ep \<in> set (router_AllEndpoints BackendCelestiaAppP2P (tx_router s))"
    using rt.target_member [OF assms(3,4), of BackendCelestiaAppP2P] assms(5) t by simp
  have tot: "(tm_bytes m)(''sent'' := tm_bytes m ''sent'', ''received'' := tm_bytes m ''received'') = tm_bytes m" by simp
  consider (none) s1 t where "tx_dialed s1 = tx_dialed s" "tx_sinks s1 = tx_sinks s" "tx_metrics s1 = tx_metrics s"
        "res = None" "s' = (tcp_recordMetrics dp ''error'' 0 0 t s1)\<lparr>tx_client_closed := True\<rparr>"
    | (dial) s1 t where "tx_dialed s1 = tx_dialed s @ [ep]" "tx_sinks s1 = tx_sinks s" "tx_metrics s1 = tx_metrics s"
        "res = None \<and> s' = (tcp_recordMetrics dp ''error'' 0 0 t s1)\<lparr>tx_client_closed := True\<rparr> \<or> tcp_forward dp ip ep t s1 = Some (res, s')"
  proof -
    obtain o1 w where o: "tp_dial dp ep (tx_world s) = (o1, w)" by (metis surj_pair)
    let ?s = "s\<lparr>tx_router := r, tx_world := w, tx_dialed := tx_dialed s @ [ep]\<rparr>"
    show thesis
    proof (cases "ep = []")
      case True
      then show thesis using assms(1) t by (intro none [of "s\<lparr>tx_router := r\<rparr>"]) (auto simp: handleConn_def Let_def)
    next
      case False
      then show thesis using assms(1) t o
        by (intro dial [of ?s "tp_now dp (tx_world s)"]) (auto simp: handleConn_def Let_def split: option.splits)
    qed
  qed
  then show ?thesis
  proof cases
    case none
    then show ?thesis using tcp_recordMetrics_counts [of s1 m 0 0 dp "''error''" t] assms(2) tot by auto
  next
    case dial
    from dial(4) show ?thesis
    proof
      assume "res = None \<and> s' = (tcp_recordMetrics dp ''error'' 0 0 t s1)\<lparr>tx_client_closed := True\<rparr>"
      then show ?thesis using tcp_recordMetrics_counts [of s1 m 0 0 dp "''error''" t] assms(2) tot ep dial(1-3) by auto
    next
      assume "tcp_forward dp ip ep t s1 = Some (res, s')"
      from tcp_forward_result [OF this] dial(1-3) assms(2) ep show ?thesis by fastforce
    qed
  qed
qed

definition sample_tcp :: "unit tcp_deps" where
  "sample_tcp = \<lparr>tp_draw = steady, tp_now = (\<lambda>w. 7), tp_dial = (\<lambda>a w. (None, w)), tp_tcp = (True, True), tp_session = (\<lambda>w. (tcp_talk, w))\<rparr>"

definition sample_tx :: "unit tcp_state" where
  "sample_tx = \<lparr>tx_router = NewRouter (sample_backends\<lparr>CelestiaAppP2P := [''peer:26656'']\<rparr>), tx_world = (),
     tx_metrics = Some \<lparr>tm_total = (\<lambda>_. 0), tm_duration = [], tm_bytes = (\<lambda>_. 0)\<rparr>, tx_sinks = [Some []], tx_dialed = [], tx_client_closed = False\<rparr>"

theorem tcp_connection_accounts_witness:
  "(case handleConn sample_tcp ''1.2.3.4'' sample_tx of
      None \<Rightarrow> True
    | Some (res, s') \<Rightarrow> tx_dialed s' = [] \<or> tx_dialed s' = [''peer:26656''])"
proof (cases "handleConn sample_tcp ''1.2.3.4'' sample_tx")
  case (Some r)
  obtain res s' where r: "r = (res, s')" by (metis surj_pair)
  have "tx_metrics sample_tx = Some \<lparr>tm_total = (\<lambda>_. 0), tm_duration = [], tm_bytes = (\<lambda>_. 0)\<rparr>" "good_draw (tp_draw sample_tcp)"
      "router_wf (tx_router sample_tx)" and ne: "router_AllEndpoints BackendCelestiaAppP2P (tx_router sample_tx) = [''peer:26656'']"
      and d: "tx_dialed sample_tx = []"
    by (simp_all add: sample_tx_def sample_tcp_def NewRouter_wf)
      (simp add: NewRouter_def buildBalancers_def router_AllEndpoints_def balancer_All_def NewBalancer_def backend_consts)
  from tcp_connection_accounts [OF Some [unfolded r] this(1,3,2)] have "tx_dialed s' = [] \<or> tx_dialed s' = [''peer:26656'']"
    by (simp add: ne d)
  then show ?thesis by (simp add: Some r)
qed simp

subsection \<open>Serve and Close\<close>

lemma closed_listener_step:
  "server_step ev s s' \<Longrightarrow> sv_listener s = Some False \<Longrightarrow>
     sv_listener s' = Some False \<and> sv_accepted s' = sv_accepted s \<and> sv_active s' \<le> sv_active s \<and> (sv_closed s \<longrightarrow> sv_closed s')"
  by (cases ev) auto

lemma closed_listener_steps:
  "server_steps evs s s' \<Longrightarrow> sv_listener s = Some False \<Longrightarrow>
     sv_listener s' = Some False \<and> sv_accepted s' = sv_accepted s \<and> sv_active s' \<le> sv_active s \<and> (sv_closed s \<longrightarrow> sv_closed s')"
proof (induction rule: server_steps.induct)
  case (more ev s s1 evs s2)
  from closed_listener_step [OF more(1,4)] more(3) show ?case by auto
qed simp


text \<open>A proxy closed before it serves is not closed: \<open>Close\<close> finds no listener, and a \<open>Serve\<close> after it
  accepts any number of connections.\<close>

theorem close_before_serve:
  "\<exists>s. server_steps ([SvClose, SvCloseReturns, SvServe] @ replicate n SvAccept) NewTCPProxy s \<and> sv_closed s \<and> sv_accepted s = n \<and> sv_serving s"
proof -
  have "\<exists>s'. server_steps (replicate n SvAccept) s s' \<and> sv_closed s' \<and> sv_accepted s' = sv_accepted s + n \<and> sv_serving s'"
    if "sv_serving s" "sv_listener s = Some True" "sv_closed s" for s
    using that
  proof (induction n arbitrary: s)
    case (Suc n)
    from Suc.IH [of "s\<lparr>sv_active := sv_active s + 1, sv_accepted := sv_accepted s + 1\<rparr>"] Suc.prems show ?case by simp
  qed simp
  from this [of "NewTCPProxy\<lparr>sv_closed := True, sv_listener := Some True, sv_serving := True\<rparr>"] show ?thesis
    by (simp add: NewTCPProxy_def)
qed


end
