(* ===== verification/MetricUse.thy ===== *)
theory MetricUse
  imports Process TcpProxy
begin

text \<open>
  Every use of a metric vector outside the gRPC proxy: the labels the HTTP middleware
  (\<open>internal/middleware/metrics.go\<close>), the TCP proxy (\<open>recordMetrics\<close>) and the health checker give, in the
  order of the calls. The models of these parts count without asking the library; here the library's
  law for \<open>With\<close> shows that none of these uses panics, because every label value is valid UTF-8 by
  the time it gets there.
\<close>

type_synonym vector_use = "collector \<times> labels"

definition http_uses :: "(int \<Rightarrow> int \<Rightarrow> nat \<Rightarrow> f64 list) \<Rightarrow> ctx \<Rightarrow> vector_use list" where
  "http_uses eb c =
     (let statusCode = show_int (rs_Status c);
          rpc = stringFromCtx (cv_RPCMethod c);
          backend = stringFromCtx (cv_Backend c);
          tokenName = stringFromCtx (cv_TokenName c)
      in [(RequestsTotal, [(''method'', rpc), (''backend'', backend), (''token_name'', tokenName), (''status_code'', statusCode)]),
          (RequestDuration, [(''method'', rpc), (''backend'', backend), (''token_name'', tokenName)])]
         @ (if rpc \<noteq> [] \<and> backend \<noteq> []
            then [(RequestSize eb, [(''method'', rpc), (''backend'', backend)]), (ResponseSize eb, [(''method'', rpc), (''backend'', backend)])]
            else []))"

definition tcp_uses :: "string \<Rightarrow> int \<Rightarrow> int \<Rightarrow> vector_use list" where
  "tcp_uses status sent received =
     [(TCPConnectionsTotal, [(''status'', status)]), (TCPConnectionDuration, [])]
     @ (if 0 < sent then [(TCPBytesTotal, [(''direction'', ''sent'')])] else [])
     @ (if 0 < received then [(TCPBytesTotal, [(''direction'', ''received'')])] else [])"

definition health_uses :: "string \<times> probe \<Rightarrow> vector_use list" where
  "health_uses chk = [(BackendUp, [(''backend'', fst chk)]), (BackendHealthDuration, [(''backend'', fst chk)])]"

definition accepted :: "(collector \<Rightarrow> labels \<Rightarrow> bool) \<Rightarrow> vector_use list \<Rightarrow> bool" where
  "accepted w us = list_all (\<lambda>(v, ls). w v ls) us"

subsection \<open>Label values\<close>

lemmas vector_defs = RequestsTotal_def RequestDuration_def RequestSize_def ResponseSize_def BackendUp_def BackendHealthDuration_def
  TCPConnectionsTotal_def TCPConnectionDuration_def TCPBytesTotal_def

lemma with_lawD: "with_law w \<Longrightarrow> distinct (map fst ls) \<Longrightarrow> w v ls \<longleftrightarrow> well_labelled v ls"
  by (simp add: with_law_def)

lemma valid_utf8_show_int [simp]: "valid_utf8 (show_int n)"
proof -
  have "valid_utf8 (CHR ''-'' # show_nat m)" for m
    using valid_utf8_append [of "[CHR ''-'']" "show_nat m"] by (simp add: valid_utf8_ascii)
  then show ?thesis by (simp add: show_int_def)
qed

lemma valid_backends [simp]:
  "valid_utf8 BackendCelestiaAppRPC" "valid_utf8 BackendCelestiaNodeRPC" "valid_utf8 BackendCelestiaAppArchivalRPC"
  "valid_utf8 BackendCelestiaNodeArchivalRPC"
  by (simp_all add: backend_consts valid_utf8_ascii)

lemma archivalBackend_utf8: "valid_utf8 b \<Longrightarrow> valid_utf8 (archivalBackend b)"
  by (simp add: archivalBackend_def)

lemma resolveBackend_utf8: "valid_utf8 (resolveBackend m)"
  by (simp add: resolveBackend_def Let_def)

lemma parsed_method_utf8: "parseJSONRPCMethod body = (m, b, None) \<Longrightarrow> valid_utf8 m"
  by (auto simp: parseJSONRPCMethod_def Let_def dest: unmarshal_str_utf8 unmarshal_strs_utf8
      split: if_splits option.splits list.splits)

lemma Route_utf8:
  assumes "router_Route d body r = (Inr dec, r')"
  shows "valid_utf8 (rd_Backend dec) \<and> valid_utf8 (rd_Method dec)"
  using assms parsed_method_utf8 archivalBackend_utf8 resolveBackend_utf8
  by (auto simp: router_Route_def route_backend_def Let_def split: prod.splits if_splits option.splits)

definition labels_utf8 :: "ctx \<Rightarrow> bool" where
  "labels_utf8 c \<longleftrightarrow> valid_utf8 (stringFromCtx (cv_Backend c)) \<and> valid_utf8 (stringFromCtx (cv_RPCMethod c))"

lemma labels_utf8_simps [simp]:
  "labels_utf8 (set_resp_header k v c) = labels_utf8 c" "labels_utf8 (write_header n c) = labels_utf8 c"
  "labels_utf8 (write_body b c) = labels_utf8 c" "labels_utf8 (c\<lparr>rs_Header := h\<rparr>) = labels_utf8 c"
  "labels_utf8 (c\<lparr>cv_Backend := Some b\<rparr>) \<longleftrightarrow> valid_utf8 b \<and> valid_utf8 (stringFromCtx (cv_RPCMethod c))"
  by (auto simp: labels_utf8_def stringFromCtx_def set_resp_header_def write_header_def write_body_def Let_def)

lemma labels_utf8_D: "labels_utf8 c \<Longrightarrow> valid_utf8 (stringFromCtx (cv_RPCMethod c))"
  by (simp add: labels_utf8_def)

lemma flush_utf8: "flushBuffered dp buf b m h rb sc s c = (err, c', s') \<Longrightarrow> labels_utf8 c' = labels_utf8 c"
  by (auto simp: flushBuffered_def Let_def split: if_splits)

lemma proxyWithRetry_utf8:
  "proxyWithRetry dp d t path q body h sc s c = (err, c', s') \<Longrightarrow> labels_utf8 c \<Longrightarrow> valid_utf8 (rd_Backend d) \<Longrightarrow> labels_utf8 c'"
  by (auto simp: proxyWithRetry_def Let_def dest!: flush_utf8 dest: labels_utf8_D intro: archivalBackend_utf8 split: prod.splits if_splits)

lemma proxyDirect_utf8:
  "proxyDirect dp d t path q body h sc s c = (err, c', s') \<Longrightarrow> labels_utf8 c' = labels_utf8 c"
  by (auto simp: proxyDirect_def serve_response_def Let_def split: prod.splits option.splits)

lemma serve_decision_utf8:
  "serve_decision dp d path q body s c = (err, c', s') \<Longrightarrow> labels_utf8 c \<Longrightarrow> valid_utf8 (rd_Backend d) \<Longrightarrow> labels_utf8 c'"
  by (auto simp: serve_decision_def serve_cached_def Let_def dest: proxyWithRetry_utf8 proxyDirect_utf8
      split: prod.splits option.splits if_splits)

lemma HandleRequest_utf8:
  assumes "HandleRequest dp s c = (err, c', s')" "labels_utf8 c"
  shows "labels_utf8 c'"
proof -
  have "labels_utf8 (c\<lparr>cv_Backend := Some (rd_Backend d), cv_RPCMethod := Some (rd_Method d)\<rparr>) \<and> valid_utf8 (rd_Backend d)"
    if "router_Route dr b r = (Inr d, r')" for dr b r d r'
    using Route_utf8 [OF that] by (simp add: labels_utf8_def stringFromCtx_def)
  then show ?thesis
    using assms by (auto simp: HandleRequest_def Let_def dest: serve_decision_utf8 split: prod.splits option.splits sum.splits if_splits)
qed

lemma ws_Handle_utf8:
  assumes "ws_Handle dp s c = (err, c', s')" "labels_utf8 c"
  shows "labels_utf8 c'"
proof -
  have "valid_utf8 (resolveWSBackend (rq_Path c))" using resolveWSBackend_rpc [of "rq_Path c"] by auto
  with assms labels_utf8_D [OF assms(2)] show ?thesis
    by (auto simp: ws_Handle_def ws_connect_def Let_def split: prod.splits option.splits if_splits)
qed

lemma dispatch_utf8: "dispatch wi s c = (err, c', s') \<Longrightarrow> labels_utf8 c \<Longrightarrow> labels_utf8 c'"
  by (auto simp: dispatch_def on_ws_def on_handler_def dest: HandleRequest_utf8 ws_Handle_utf8 split: prod.splits if_splits)

subsection \<open>Token names\<close>

text \<open>The token name is a label. Names come from decoded JSON or YAML, hence are valid; the table keeps
  them so.\<close>

definition names_utf8 :: "token_db \<Rightarrow> bool" where
  "names_utf8 db = list_all (\<lambda>r. valid_utf8 (tr_name r)) (db_rows db)"

fun op_decoded :: "store_op \<Rightarrow> bool" where
  "op_decoded (SoCreate e req) = valid_utf8 (cr_Name req)"
| "op_decoded (SoUpdate e i req) = (case up_Name req of Some n \<Rightarrow> valid_utf8 n | None \<Rightarrow> True)"
| "op_decoded (SoMigrate e el ts) = list_all (\<lambda>t. valid_utf8 (tkc_Name t)) ts"
| "op_decoded _ = True"

lemma insert_names: "db_insert row db = Some db' \<Longrightarrow> names_utf8 db \<Longrightarrow> valid_utf8 (tr_name row) \<Longrightarrow> names_utf8 db'"
  by (auto simp: db_insert_def names_utf8_def split: if_splits)

lemma update_names: "names_utf8 db \<Longrightarrow> (\<And>r. r \<in> set (db_rows db) \<Longrightarrow> valid_utf8 (tr_name (f r))) \<Longrightarrow> names_utf8 (db_update i f db)"
  by (auto simp: db_update_def names_utf8_def list_all_iff)

lemma row_names: "names_utf8 db \<Longrightarrow> r \<in> set (db_rows db) \<Longrightarrow> valid_utf8 (tr_name r)"
  by (simp add: names_utf8_def list_all_iff)

lemma get_names: "db_get i db = Some r \<Longrightarrow> names_utf8 db \<Longrightarrow> valid_utf8 (tr_name r)"
  unfolding db_get_def by (drule find_cases(2)) (simp add: names_utf8_def list_all_iff)

lemma migrate_loop_names:
  "migrate_loop H e k ts n db = (m, db', err) \<Longrightarrow> names_utf8 db \<Longrightarrow> list_all (\<lambda>t. valid_utf8 (tkc_Name t)) ts \<Longrightarrow> names_utf8 db'"
  by (induction H e k ts n db rule: migrate_loop.induct)
    (auto simp: migrated_row_def dest: insert_names split: if_splits option.splits)

lemma store_step_names:
  assumes "names_utf8 (ts_db s)" "op_decoded op"
  shows "names_utf8 (ts_db (store_step H op s))"
proof (cases op)
  case (SoCreate e req)
  with assms show ?thesis by (auto simp: store_Create_def Let_def intro: insert_names split: option.split if_splits)
next
  case (SoUpdate e i req)
  have "valid_utf8 (tk_Name (apply_update req (scanToken r)))" if "db_get i (ts_db s) = Some r" for r
    using get_names [OF that assms(1)] assms(2) SoUpdate by (auto simp: apply_update_def scanToken_def split: option.split)
  with SoUpdate assms(1) show ?thesis
    by (auto simp: store_Update_def store_Get_def Let_def intro!: update_names split: option.split)
next
  case (SoDelete e i)
  with assms show ?thesis by (simp add: store_Delete_def db_delete_def names_utf8_def list_all_iff Let_def)
next
  case (SoRotate e i)
  with assms(1) show ?thesis
    by (auto simp: store_Rotate_def store_Get_def Let_def intro!: update_names intro: row_names split: option.split)
next
  case (SoMigrate e el ts)
  obtain m db err where m: "migrate_loop H e 0 ts 0 (ts_db s) = (m, db, err)" by (metis prod_cases3)
  from migrate_loop_names [OF m assms(1)] assms(2) SoMigrate m show ?thesis
    by (cases err) (auto simp: MigrateConfigTokens_def)
next
  case (SoLookup e t)
  with assms show ?thesis by (auto simp: sqlite_Lookup_def Let_def)
qed

lemma admitted_name:
  assumes "admission wi re ts c = Some info" "names_utf8 (ts_db ts)"
  shows "valid_utf8 (ti_Name info)"
proof -
  obtain r where "row_with_hash (hashToken (wi_hash wi) (fst (extractToken (rq_Path c)))) (ts_db ts) = Some r" "info = info_of_row r"
    using assms(1) by (auto simp: admission_def stored_def Let_def split: if_splits option.splits)
  then have "r \<in> set (db_rows (ts_db ts))" "info = info_of_row r" using find_cases(2) unfolding row_with_hash_def by fastforce+
  with assms(2) show ?thesis by (simp add: names_utf8_def list_all_iff info_of_row_def)
qed

subsection \<open>No use panics\<close>

lemma http_uses_accepted:
  assumes "with_law w" "labels_utf8 c" "valid_utf8 (stringFromCtx (cv_TokenName c))"
  shows "accepted w (http_uses eb c)"
  using assms(2,3) by (simp add: accepted_def http_uses_def Let_def with_lawD [OF assms(1)] well_labelled_def vector_defs labels_utf8_def insert_commute)

lemma tcp_uses_accepted: "with_law w \<Longrightarrow> valid_utf8 status \<Longrightarrow> accepted w (tcp_uses status sent received)"
  by (simp add: accepted_def tcp_uses_def with_lawD well_labelled_def vector_defs valid_utf8_ascii)

lemma pool_names_utf8: "chk \<in> set (pool_checks base pb eps) \<Longrightarrow> valid_utf8 base \<Longrightarrow> valid_utf8 (fst chk)"
proof -
  assume c: "chk \<in> set (pool_checks base pb eps)" "valid_utf8 base"
  then have "fst chk \<in> set (map fst (pool_checks base pb eps))" by simp
  then obtain i where "fst chk = endpointName base i (length eps)" unfolding pool_names by auto
  moreover have "valid_utf8 (''/'' @ show_nat i)" for i
    using valid_utf8_append [of "''/''" "show_nat i"] by (simp add: valid_utf8_ascii)
  ultimately show ?thesis using c(2) valid_utf8_append [OF c(2)] by (simp add: endpointName_def)
qed

lemma checks_utf8: "chk \<in> set (checks_of b) \<Longrightarrow> valid_utf8 (fst chk)"
  by (simp add: checks_of_def) (elim disjE; erule pool_names_utf8; simp add: valid_utf8_ascii)

lemma health_uses_accepted: "with_law w \<Longrightarrow> chk \<in> set (checks_of b) \<Longrightarrow> accepted w (health_uses chk)"
  using checks_utf8 [of chk b] by (simp add: accepted_def health_uses_def with_lawD well_labelled_def vector_defs)

text \<open>C23: The metric vectors are used as they are declared. Every use by the HTTP middleware for a served
  request, by a TCP connection and by a health check gives exactly the declared labels with valid
  UTF-8 values, so the library refuses none of them: the method was decoded by
  \<open>encoding/json\<close>, the backend is one of the constants, and the token names in the table stay
  valid under requests and token operations.\<close>

theorem metrics_well_typed:
  assumes "with_law w" "sys_ok s" "names_utf8 (ts_db (sy_tokens s))" "cv_Backend c = None" "cv_RPCMethod c = None"
    "admission wi re (sy_tokens s) c = Some info" "limit_allows cfg wi re info s" "proxyServer cfg wi re s c = (err, c', s')"
  shows "accepted w (http_uses eb c') \<and> names_utf8 (ts_db (sy_tokens s'))
     \<and> (\<forall>op. op_decoded op \<longrightarrow> names_utf8 (ts_db (store_step (wi_hash wi) op (sy_tokens s))))
     \<and> accepted w (tcp_uses ''success'' sent received) \<and> accepted w (tcp_uses ''error'' 0 0)
     \<and> (\<forall>chk \<in> set (checks_of (Backends cfg)). accepted w (health_uses chk))"
proof -
  from served_effect [OF assms(2,6-8)] obtain ts ls rs s1 c1 where
    d: "dispatch wi (s\<lparr>sy_tokens := ts, sy_limiters := ls, sy_redis := rs\<rparr>) (forwarded_ctx re info c) = (err, c1, s1)"
      "ts_db (sy_tokens s') = ts_db (sy_tokens s)" "cv_Backend c' = cv_Backend c1" "cv_RPCMethod c' = cv_RPCMethod c1"
      "cv_TokenName c' = Some (ti_Name info)"
    by blast
  have "labels_utf8 (forwarded_ctx re info c)"
    by (simp add: labels_utf8_def forwarded_ctx_def admitted_ctx_def tagged_def Let_def set_resp_header_def assms(4,5) stringFromCtx_def)
  then have "labels_utf8 c1" by (rule dispatch_utf8 [OF d(1)])
  then have "labels_utf8 c'" by (simp add: labels_utf8_def d(3,4))
  moreover have "valid_utf8 (stringFromCtx (cv_TokenName c'))" using admitted_name [OF assms(6,3)] by (simp add: d(5) stringFromCtx_def)
  ultimately have "accepted w (http_uses eb c')" by (rule http_uses_accepted [OF assms(1)])
  with assms(1,3) d(2) store_step_names tcp_uses_accepted [of w "''success''"] tcp_uses_accepted [of w "''error''"] health_uses_accepted
  show ?thesis by (auto simp: valid_utf8_ascii)
qed

theorem metrics_well_typed_witness:
  "accepted well_labelled (http_uses (\<lambda>a b n. [])
     (fst (snd (proxyServer sample_config (sample_wiring True) sample_req sample_sys (call_with ''/4142/v1'')))))"
proof -
  obtain err c' s' where p: "proxyServer sample_config (sample_wiring True) sample_req sample_sys (call_with ''/4142/v1'') = (err, c', s')"
    by (metis surj_pair)
  have law: "with_law well_labelled" by (simp add: with_law_def)
  have names: "names_utf8 (ts_db (sy_tokens sample_sys))"
    by (simp add: sample_sys_def one_store_eq one_row_def names_utf8_def valid_utf8_ascii)
  have c: "cv_Backend (call_with ''/4142/v1'') = None" "cv_RPCMethod (call_with ''/4142/v1'') = None"
    by (simp_all add: call_with_def new_ctx_def)
  from metrics_well_typed [OF law sample_sys_ok names c sample_admission _ p] show ?thesis by (simp add: p sample_limit)
qed

end
