(* ===== verification/Startup.thy ===== *)
theory Startup
  imports MetricUse
begin

text \<open>
  \<open>cmd/da-proxy/main.go\<close> from the command line to the running servers, with \<open>NewLogger\<close>
  (\<open>internal/logging/zap.go\<close>), \<open>tracing.Init\<close> (\<open>internal/tracing/tracing.go\<close>) and the registrations of
  \<open>internal/metrics/server.go\<close>.

  What \<open>zap\<close>, OpenTelemetry, the metrics library, the files and the network do is in \<open>main_env\<close>. The
  program ends before it serves with a message on stderr, with \<open>logger.Fatal\<close>, or with a panic; the
  servers are goroutines, each of which can still end the process.
\<close>

subsection \<open>The logger\<close>

datatype log_preset = ProductionConfig | DevelopmentConfig

record logger_config =
  lg_Preset :: log_preset
  lg_TimeKey :: "string option"
  lg_ISO8601 :: bool
  lg_ColorLevel :: bool
  lg_Level :: int

text \<open>\<open>unmarshal\<close> is \<open>zapcore.Level.UnmarshalText\<close>, \<open>build\<close> whether \<open>zap.Config.Build\<close> succeeds.\<close>

definition preset_for :: "string \<Rightarrow> logger_config option" where
  "preset_for format =
     (if format = ''json'' then
        Some \<lparr>lg_Preset = ProductionConfig, lg_TimeKey = Some ''ts'', lg_ISO8601 = True, lg_ColorLevel = False, lg_Level = 0\<rparr>
      else if format = ''console'' then
        Some \<lparr>lg_Preset = DevelopmentConfig, lg_TimeKey = None, lg_ISO8601 = False, lg_ColorLevel = True, lg_Level = 0\<rparr>
      else None)"

definition NewLogger :: "(string \<Rightarrow> int option) \<Rightarrow> (logger_config \<Rightarrow> bool) \<Rightarrow> string \<Rightarrow> string \<Rightarrow> logger_config result" where
  "NewLogger unmarshal build level format =
     (case unmarshal level of
        None \<Rightarrow> Inl (''invalid log level '' @ level)
      | Some lvl \<Rightarrow>
          (case preset_for format of
             None \<Rightarrow> Inl (''invalid log format '' @ format)
           | Some lc \<Rightarrow>
               (let lc = lc\<lparr>lg_Level := lvl\<rparr> in if build lc then Inr lc else Inl ''building logger'')))"

subsection \<open>Tracing\<close>

record tracer_env =
  tv_exporter :: "string \<Rightarrow> bool"
  tv_resource :: bool

text \<open>The result is the sampling ratio of the provider installed, \<open>None\<close> when tracing is off.\<close>

definition tracing_Init :: "tracer_env \<Rightarrow> tracing_config \<Rightarrow> f64 option result" where
  "tracing_Init tv cfg =
     (if \<not> trc_Enabled cfg then Inr None
      else if \<not> tv_exporter tv (trc_Endpoint cfg) then Inl ''creating OTLP exporter''
      else if \<not> tv_resource tv then Inl ''creating resource''
      else let sampleRate = trc_SampleRate cfg
           in Inr (Some (if sampleRate \<le> 0 \<or> 1 < sampleRate then f64_round 0.1 else sampleRate)))"

subsection \<open>The servers\<close>

datatype service =
    HealthLoop int
  | ProxyTLS string string string
  | ProxyPlain string
  | AdminHTTP string
  | MetricsHTTP string
  | GRPCServer string
  | TCPServer string

text \<open>In the order of the \<open>go\<close> statements.\<close>

definition services_of :: "config \<Rightarrow> service list" where
  "services_of cfg =
     [HealthLoop (HealthCheckInterval (Backends cfg)),
      if TLSCert (Server cfg) \<noteq> [] \<and> TLSKey (Server cfg) \<noteq> []
      then ProxyTLS (srv_Listen (Server cfg)) (TLSCert (Server cfg)) (TLSKey (Server cfg))
      else ProxyPlain (srv_Listen (Server cfg)),
      AdminHTTP (adm_Listen (Admin cfg))]
     @ (if metrics_IsEnabled (Metrics cfg) then [MetricsHTTP (met_Listen (Metrics cfg))] else [])
     @ (if 0 < length (CelestiaAppGRPC (Backends cfg)) then [GRPCServer (GRPCListen (Server cfg))] else [])
     @ (if 0 < length (CelestiaAppP2P (Backends cfg)) then [TCPServer (P2PListen (Server cfg))] else [])"

datatype service_end = Up | FatalExit string | Crash

record net_env =
  ne_binds :: "string \<Rightarrow> bool"
  ne_keypair :: "string \<Rightarrow> string \<Rightarrow> bool"

text \<open>How a goroutine starts. \<open>time.NewTicker\<close> panics unless its interval is positive.\<close>

definition service_start :: "net_env \<Rightarrow> service \<Rightarrow> service_end" where
  "service_start ne sv =
     (case sv of
        HealthLoop interval \<Rightarrow> if interval \<le> 0 then Crash else Up
      | ProxyTLS a cert key \<Rightarrow> if ne_keypair ne cert key \<and> ne_binds ne a then Up else FatalExit ''proxy server failed''
      | ProxyPlain a \<Rightarrow> if ne_binds ne a then Up else FatalExit ''proxy server failed''
      | AdminHTTP a \<Rightarrow> if ne_binds ne a then Up else FatalExit ''admin server failed''
      | MetricsHTTP a \<Rightarrow> if ne_binds ne a then Up else FatalExit ''metrics server failed''
      | GRPCServer a \<Rightarrow> if ne_binds ne a then Up else FatalExit ''gRPC server listen failed''
      | TCPServer a \<Rightarrow> if ne_binds ne a then Up else FatalExit ''TCP/P2P server listen failed'')"

subsection \<open>main\<close>

record ('c, 'w, 'v, 'd, 'r) main_env =
  mn_flag :: string
  mn_getenv :: "string \<Rightarrow> string"
  mn_read :: "string \<Rightarrow> string result"
  mn_yaml :: "string \<Rightarrow> config result"
  mn_level :: "string \<Rightarrow> int option"
  mn_build :: "logger_config \<Rightarrow> bool"
  mn_tracer :: tracer_env
  mn_startup :: "('c, 'w, 'v, 'd) startup_env"
  mn_buckets :: "int \<Rightarrow> int \<Rightarrow> nat \<Rightarrow> f64 list"
  mn_NewRegistry :: 'r
  mn_register :: "'r \<Rightarrow> collector \<Rightarrow> 'r option"
  mn_runtime :: "'r \<Rightarrow> 'r option"

record ('c, 'w, 'v, 'l, 'd, 'r) running =
  rn_logger :: logger_config
  rn_sampler :: "f64 option"
  rn_maxBody :: int
  rn_sys :: "('c, 'w, 'v, 'l, 'd) sys"
  rn_registry :: 'r
  rn_services :: "service list"

datatype 'a main_end = ExitStderr string | LogFatal string | MainPanic | Serving 'a

text \<open>\<open>NewServer\<close> of the metrics registers the collectors of the Go runtime and the process, \<open>mn_runtime\<close>,
  whether or not the server is going to run.\<close>

definition metrics_NewServer :: "('r \<Rightarrow> 'r option) \<Rightarrow> 'r \<Rightarrow> 'r option" where
  "metrics_NewServer runtime r = runtime r"

definition main_config :: "('c, 'w, 'v, 'd, 'r) main_env \<Rightarrow> config \<Rightarrow> ('c, 'w, 'v, 'l, 'd, 'r) running main_end" where
  "main_config me cfg =
     (case NewLogger (mn_level me) (mn_build me) (Level (Logging cfg)) (Format (Logging cfg)) of
        Inl e \<Rightarrow> ExitStderr (''failed to create logger: '' @ e)
      | Inr lg \<Rightarrow>
     (case tracing_Init (mn_tracer me) (Tracing cfg) of
        Inl e \<Rightarrow> LogFatal ''failed to initialize tracing''
      | Inr sampler \<Rightarrow>
     (case startup_stores cfg (mn_startup me) of
        Inl e \<Rightarrow> if e = ''panic'' then MainPanic else LogFatal e
      | Inr (ts, ring, lw) \<Rightarrow>
     (case MustRegister (mn_register me) (NewMetrics (mn_buckets me)) (mn_NewRegistry me) of
        None \<Rightarrow> MainPanic
      | Some r1 \<Rightarrow>
     (case startup_handlers cfg (mn_startup me) ts ring lw of
        Inl e \<Rightarrow> LogFatal e
      | Inr (maxBodySize, s) \<Rightarrow>
     (case (if cch_Enabled (CacheCfg cfg) then MustRegister (mn_register me) RegisterMetrics r1 else Some r1) of
        None \<Rightarrow> MainPanic
      | Some r2 \<Rightarrow>
     (case metrics_NewServer (mn_runtime me) r2 of
        None \<Rightarrow> MainPanic
      | Some r3 \<Rightarrow>
          Serving \<lparr>rn_logger = lg, rn_sampler = sampler, rn_maxBody = maxBodySize, rn_sys = s, rn_registry = r3,
                   rn_services = services_of cfg\<rparr>)))))))"

definition da_proxy_main :: "('c, 'w, 'v, 'd, 'r) main_env \<Rightarrow> ('c, 'w, 'v, 'l, 'd, 'r) running main_end" where
  "da_proxy_main me =
     (let cfgPath = ResolveConfigPath (mn_getenv me) (mn_flag me)
      in case load (su_float (mn_startup me)) (mn_read me) (mn_yaml me) cfgPath of
           Inl e \<Rightarrow> ExitStderr (''failed to load config: '' @ e)
         | Inr cfg \<Rightarrow> main_config me cfg)"

subsection \<open>A loaded configuration\<close>

lemma load_cases:
  assumes "load pf rf yu path = Inr cfg"
  shows "config_Validate pf cfg = None \<and> (\<exists>c0. cfg = applyDefaults c0)"
  using assms by (auto simp: load_def Let_def split: sum.splits option.splits)

lemma default_sizes:
  "LogBufferSize (Admin (applyDefaults c)) = default_int 100000 (LogBufferSize (Admin c))"
  "HealthCheckInterval (Backends (applyDefaults c)) = default_int (30 * second) (HealthCheckInterval (Backends c))"
  by (simp_all add: applyDefaults_def)

lemma loaded_sizes: "load pf rf yu path = Inr cfg \<Longrightarrow> LogBufferSize (Admin cfg) \<noteq> 0 \<and> HealthCheckInterval (Backends cfg) \<noteq> 0"
  by (drule load_cases) (auto simp: default_sizes default_int_def second_def split: if_splits)

lemma loaded_limit:
  assumes "load pf rf yu path = Inr cfg"
  shows "\<exists>m. MaxBodySizeBytes pf (Server cfg) = Inr m" "Level (Logging cfg) \<in> set validLevels" "Format (Logging cfg) \<in> set validFormats"
  using load_cases [OF assms]
  by (auto simp: config_Validate_def split: option.splits sum.splits if_splits)

lemma preset_valid: "f \<in> set validFormats \<Longrightarrow> \<exists>lc. preset_for f = Some lc"
  by (auto simp: validFormats_def preset_for_def)

lemma NewLogger_valid:
  assumes "l \<in> set validLevels" "f \<in> set validFormats" "\<And>l. l \<in> set validLevels \<Longrightarrow> unmarshal l \<noteq> None" "\<And>lc. build lc"
  shows "\<exists>lg. NewLogger unmarshal build l f = Inr lg"
  using assms(3) [OF assms(1)] preset_valid [OF assms(2)] assms(4) by (auto simp: NewLogger_def)

subsection \<open>Registrations\<close>

lemmas collector_defs = NewMetrics_def RegisterMetrics_def plain_collector_def RequestsTotal_def RequestDuration_def RequestSize_def ResponseSize_def
  ErrorsTotal_def BackendErrorsTotal_def BackendUp_def BackendHealthDuration_def RateLimitRemaining_def RateLimitHitsTotal_def
  GRPCRequestsTotal_def GRPCRequestDuration_def TCPConnectionsTotal_def TCPConnectionDuration_def TCPBytesTotal_def

lemma collector_names:
  "distinct (map col_Name (NewMetrics eb @ RegisterMetrics))"
  "list_all (\<lambda>c. prefix ''daproxy_'' (col_Name c)) (NewMetrics eb @ RegisterMetrics)"
  by (simp_all add: collector_defs)

definition runtime_law :: "('r \<Rightarrow> 'r option) \<Rightarrow> ('r \<Rightarrow> string set) \<Rightarrow> bool" where
  "runtime_law runtime names \<longleftrightarrow> (\<forall>r. (\<forall>n \<in> names r. prefix ''daproxy_'' n) \<longrightarrow> runtime r \<noteq> None)"

lemma registered:
  assumes "register_law reg names" "names r0 = {}" "runtime_law runtime names"
  obtains r1 r2 r3 r2' where "MustRegister reg (NewMetrics eb) r0 = Some r1" "MustRegister reg RegisterMetrics r1 = Some r2"
    "metrics_NewServer runtime r1 = Some r2'" "metrics_NewServer runtime r2 = Some r3"
proof -
  from collector_names(1) [of eb] have d: "distinct (map col_Name (NewMetrics eb))" "distinct (map col_Name RegisterMetrics)"
      "set (map col_Name RegisterMetrics) \<inter> set (map col_Name (NewMetrics eb)) = {}" by auto
  obtain r1 where r1: "MustRegister reg (NewMetrics eb) r0 = Some r1" "names r1 = set (map col_Name (NewMetrics eb))"
    using MustRegister_ok [OF assms(1) d(1), of r0] assms(2) by auto
  obtain r2 where r2: "MustRegister reg RegisterMetrics r1 = Some r2" "names r2 = names r1 \<union> set (map col_Name RegisterMetrics)"
    using MustRegister_ok [OF assms(1) d(2), of r1] d(3) r1(2) by auto
  have p: "\<forall>n \<in> names r1. prefix ''daproxy_'' n" "\<forall>n \<in> names r2. prefix ''daproxy_'' n"
    using collector_names(2) [of eb] unfolding r2(2) r1(2) by (auto simp: list_all_iff)
  then obtain r2' r3 where "runtime r1 = Some r2'" "runtime r2 = Some r3" using assms(3) unfolding runtime_law_def by blast
  then show thesis by (intro that [OF r1(1) r2(1)]) (simp_all add: metrics_NewServer_def)
qed

subsection \<open>Whether the program serves\<close>

text \<open>What the environment and the configuration have to provide.\<close>

definition log_opens :: "config \<Rightarrow> db_open \<Rightarrow> bool" where
  "log_opens cfg o1 \<longleftrightarrow> do_Open o1 \<and> do_Tables o1
     \<and> (LogDriver (Storage cfg) = ''postgres'' \<and> PostgresDSN (Storage cfg) \<noteq> [] \<longrightarrow> do_Ping o1)"

definition stores_ready :: "config \<Rightarrow> ('c, 'w, 'v, 'd) startup_env \<Rightarrow> bool" where
  "stores_ready cfg su \<longleftrightarrow>
     do_Open (su_token_open su) \<and> do_Ping (su_token_open su) \<and> do_Tables (su_token_open su) \<and> env_load (su_token_env su)
     \<and> (sto_RedisURL (Storage cfg) \<noteq> [] \<longrightarrow> su_redis_ok su) \<and> log_opens cfg (su_log_open su)"

definition cache_ready :: "config \<Rightarrow> ('c, 'w, 'v, 'd) startup_env \<Rightarrow> bool" where
  "cache_ready cfg su \<longleftrightarrow>
     (cch_Enabled (CacheCfg cfg) \<longrightarrow> (\<exists>m. MaxEntrySizeBytes (su_float su) (CacheCfg cfg) = Inr m) \<and> su_cache_ok su)"

definition tracer_ready :: "config \<Rightarrow> tracer_env \<Rightarrow> bool" where
  "tracer_ready cfg tv \<longleftrightarrow> (trc_Enabled (Tracing cfg) \<longrightarrow> tv_exporter tv (trc_Endpoint (Tracing cfg)) \<and> tv_resource tv)"

lemma tracing_Init_ok: "(\<exists>x. tracing_Init tv (Tracing cfg) = Inr x) \<longleftrightarrow> tracer_ready cfg tv"
  by (simp add: tracing_Init_def tracer_ready_def Let_def)

lemma NewRingBuffer_None: "NewRingBuffer n = None \<longleftrightarrow> n < 0"
  by (simp add: NewRingBuffer_def)

lemma startup_tokens_ok:
  "(\<exists>ts. startup_tokens cfg su = Inr ts) \<longleftrightarrow>
     do_Open (su_token_open su) \<and> do_Ping (su_token_open su) \<and> do_Tables (su_token_open su) \<and> env_load (su_token_env su)"
  by (simp add: startup_tokens_def NewSQLiteTokenStore_def createTable_def loadCache_def)

lemma startup_log_ok: "(\<exists>w. startup_log cfg su = Inr w) \<longleftrightarrow> log_opens cfg (su_log_open su)"
  by (auto simp: startup_log_def NewPostgresStore_def NewSQLiteStore_def log_opens_def)

lemma startup_log_error: "startup_log cfg su = Inl e \<Longrightarrow> e \<noteq> ''panic''"
  by (auto simp: startup_log_def split: if_splits sum.splits)

lemma startup_tokens_error: "startup_tokens cfg su = Inl e \<Longrightarrow> e \<noteq> ''panic''"
  by (auto simp: startup_tokens_def split: sum.splits)

lemma startup_stores_ok:
  "(\<exists>x. startup_stores cfg su = Inr x) \<longleftrightarrow> stores_ready cfg su \<and> 0 \<le> LogBufferSize (Admin cfg)"
proof -
  have "(\<exists>x. startup_stores cfg su = Inr x) \<longleftrightarrow> (\<exists>ts. startup_tokens cfg su = Inr ts)
      \<and> (sto_RedisURL (Storage cfg) \<noteq> [] \<longrightarrow> su_redis_ok su) \<and> NewRingBuffer (LogBufferSize (Admin cfg)) \<noteq> None
      \<and> (\<exists>w. startup_log cfg su = Inr w)"
    by (auto simp: startup_stores_def split: sum.splits option.splits)
  then show ?thesis by (auto simp: startup_tokens_ok startup_log_ok NewRingBuffer_None stores_ready_def not_less)
qed

lemma startup_stores_panic: "startup_stores cfg su = Inl ''panic'' \<Longrightarrow> LogBufferSize (Admin cfg) < 0"
  using startup_tokens_error [of cfg su] startup_log_error [of cfg su]
  by (auto simp: startup_stores_def NewRingBuffer_None [symmetric] split: sum.splits option.splits if_splits)

lemma startup_cache_ok: "(\<exists>x. startup_cache cfg su = Inr x) \<longleftrightarrow> cache_ready cfg su"
  by (auto simp: startup_cache_def cache_ready_def split: sum.splits)

lemma startup_handlers_ok:
  assumes "\<exists>m. MaxBodySizeBytes (su_float su) (Server cfg) = Inr m"
  shows "(\<exists>x. startup_handlers cfg su ts ring lw = Inr x) \<longleftrightarrow> cache_ready cfg su"
  using assms by (auto simp: startup_handlers_def Let_def startup_cache_ok [symmetric] split: sum.splits)

text \<open>The environment that is not at fault: the four level names parse, building a logger and
  registering fresh names succeed.\<close>

definition libraries_ok :: "('c, 'w, 'v, 'd, 'r) main_env \<Rightarrow> ('r \<Rightarrow> string set) \<Rightarrow> bool" where
  "libraries_ok me names \<longleftrightarrow>
     (\<forall>l \<in> set validLevels. mn_level me l \<noteq> None) \<and> (\<forall>lc. mn_build me lc)
     \<and> register_law (mn_register me) names \<and> names (mn_NewRegistry me) = {} \<and> runtime_law (mn_runtime me) names"

text \<open>Past the configuration there is nothing left to fail but the stores, the cache and the tracer.\<close>

lemma main_config_eq:
  fixes me :: "('c, 'w, 'v, 'd, 'r) main_env"
  assumes "libraries_ok me names" "load pf rf yu path = Inr cfg" "pf = su_float (mn_startup me)"
  obtains lg r3 where "(main_config me cfg :: ('c, 'w, 'v, 'l, 'd, 'r) running main_end) =
     (case tracing_Init (mn_tracer me) (Tracing cfg) of
        Inl e \<Rightarrow> LogFatal ''failed to initialize tracing''
      | Inr sampler \<Rightarrow>
     (case startup_stores cfg (mn_startup me) of
        Inl e \<Rightarrow> if e = ''panic'' then MainPanic else LogFatal e
      | Inr (ts, ring, lw) \<Rightarrow>
     (case startup_handlers cfg (mn_startup me) ts ring lw of
        Inl e \<Rightarrow> LogFatal e
      | Inr (maxBodySize, s) \<Rightarrow>
          Serving \<lparr>rn_logger = lg, rn_sampler = sampler, rn_maxBody = maxBodySize, rn_sys = s, rn_registry = r3,
                   rn_services = services_of cfg\<rparr>)))"
proof -
  from assms(1) have l: "\<And>l. l \<in> set validLevels \<Longrightarrow> mn_level me l \<noteq> None" "\<And>lc. mn_build me lc"
      "register_law (mn_register me) names" "names (mn_NewRegistry me) = {}" "runtime_law (mn_runtime me) names"
    by (simp_all add: libraries_ok_def)
  obtain lg where lg: "NewLogger (mn_level me) (mn_build me) (Level (Logging cfg)) (Format (Logging cfg)) = Inr lg"
    using NewLogger_valid [where unmarshal = "mn_level me" and build = "mn_build me", OF loaded_limit(2,3) [OF assms(2)] l(1,2)] by blast
  obtain r1 r2 r3 r2' where r: "MustRegister (mn_register me) (NewMetrics (mn_buckets me)) (mn_NewRegistry me) = Some r1"
      "MustRegister (mn_register me) RegisterMetrics r1 = Some r2"
      "metrics_NewServer (mn_runtime me) r1 = Some r2'" "metrics_NewServer (mn_runtime me) r2 = Some r3"
    by (rule registered [OF l(3-5), of "mn_buckets me"])
  show thesis
  proof (cases "cch_Enabled (CacheCfg cfg)")
    case True
    then have f: "cch_Enabled (CacheCfg cfg) = True" by simp
    show thesis by (rule that [of lg r3]) (unfold main_config_def lg sum.case r option.case f if_True, rule refl)
  next
    case False
    then have f: "cch_Enabled (CacheCfg cfg) = False" by simp
    show thesis by (rule that [of lg r2']) (unfold main_config_def lg sum.case r option.case f if_False, rule refl)
  qed
qed

lemma started_inv:
  assumes "startup_stores cfg su = Inr (ts, ring, lw)" "startup_handlers cfg su ts ring lw = Inr (m, s)" "clean_start cfg su"
    "0 < LogBufferSize (Admin cfg)"
  shows "sys_inv cfg s"
  by (rule startup_inv [OF _ assms(3,4)]) (simp add: startup_def assms(1,2))

lemma crashing_services:
  "(\<exists>sv \<in> set (services_of cfg). service_start ne sv = Crash) \<longleftrightarrow> HealthCheckInterval (Backends cfg) \<le> 0"
  by (auto simp: services_of_def service_start_def split: if_splits)


text \<open>A start with one token, a registry that is the set of its names, and no tracing, Redis or cache.\<close>

definition sample_yaml :: config where
  "sample_yaml = start_config\<lparr>Tokens := [\<lparr>tkc_Token = ''secret'', tkc_Name = ''ci'', tkc_Enabled = True, tkc_RateLimit = 0, tkc_AllowedMethods = []\<rparr>]\<rparr>"

definition sample_main :: "(unit, unit, unit, unit, string set) main_env" where
  "sample_main =
     \<lparr>mn_flag = ''da.yaml'', mn_getenv = (\<lambda>_. []), mn_read = Inr, mn_yaml = (\<lambda>_. Inr sample_yaml), mn_level = (\<lambda>l. Some 0), mn_build = (\<lambda>_. True),
      mn_tracer = \<lparr>tv_exporter = (\<lambda>_. True), tv_resource = True\<rparr>, mn_startup = sample_su, mn_buckets = (\<lambda>a b n. []), mn_NewRegistry = {},
      mn_register = (\<lambda>r c. if col_Name c \<in> r then None else Some (insert (col_Name c) r)), mn_runtime = Some\<rparr>"

lemma sample_libraries: "libraries_ok sample_main id"
  by (simp add: libraries_ok_def sample_main_def register_law_def runtime_law_def)

lemma sample_load: "load (\<lambda>_. None) Inr (\<lambda>_. Inr sample_yaml) path = Inr (applyDefaults sample_yaml)"
proof -
  have "parseSize (\<lambda>_. None) ''7'' = Inr 7" by code_simp
  then have "config_Validate (\<lambda>_. None) (applyDefaults sample_yaml) = None"
    by (simp add: validate_after_defaults sample_yaml_def start_config_def sample_config_def validLevels_def validFormats_def)
  then show ?thesis by (simp add: load_def Let_def)
qed


end
