(* ===== verification/Shutdown.thy ===== *)
theory Shutdown
  imports Startup
begin

text \<open>
  The end of \<open>main\<close> (\<open>cmd/da-proxy/main.go\<close>): what follows the signal, in its order, with the deferred
  calls in theirs, while calls, connections and requests are still running and log what they did.

  \<open>main\<close> works through a plan of steps, some of which wait; everything else may happen between two of
  them, so a shutdown is a run of a step relation. Only the state the shutdown is about is kept: who is
  still active, and the log store's writer with its database. An entry is pushed when its call ends. A
  push into the closed channel panics: \<open>net/http\<close> recovers the panic of a request, nothing that of a
  gRPC call or a TCP connection.
\<close>

datatype shutdown_step =
    CancelHealth | GracefulStop | GrpcDrained | TcpClose | TcpDrained
  | ShutdownProxy | ProxyDown | ShutdownAdmin | ShutdownMetrics
  | CacheClose | LogSignal | LogDbClose | RedisClose | TokensClose | TracingShutdown | LoggerSync

text \<open>\<open>GracefulStop\<close>, \<open>TCPProxy.Close\<close> and \<open>Shutdown\<close> stop accepting first and then wait: two steps each.
  \<open>Close\<close> of the log store signals the writer, sleeps for 100 ms, and closes the database.\<close>

definition shutdown_calls :: "config \<Rightarrow> shutdown_step list" where
  "shutdown_calls cfg =
     [CancelHealth]
     @ (if 0 < length (CelestiaAppGRPC (Backends cfg)) then [GracefulStop, GrpcDrained] else [])
     @ (if 0 < length (CelestiaAppP2P (Backends cfg)) then [TcpClose, TcpDrained] else [])
     @ [ShutdownProxy, ProxyDown, ShutdownAdmin]
     @ (if metrics_IsEnabled (Metrics cfg) then [ShutdownMetrics] else [])"

definition deferred_calls :: "config \<Rightarrow> shutdown_step list" where
  "deferred_calls cfg =
     (if cch_Enabled (CacheCfg cfg) then [CacheClose] else [])
     @ [LogSignal, LogDbClose]
     @ (if sto_RedisURL (Storage cfg) \<noteq> [] then [RedisClose] else [])
     @ [TokensClose, TracingShutdown, LoggerSync]"

definition shutdown_plan :: "config \<Rightarrow> shutdown_step list" where
  "shutdown_plan cfg = shutdown_calls cfg @ deferred_calls cfg"

text \<open>\<open>sh_http\<close> counts the requests \<open>Shutdown\<close> waits for, \<open>sh_ws\<close> the hijacked connections it does not.
  \<open>sh_taken\<close> are the entries the log channel took since the signal.\<close>

record 'd shutdown_state =
  sh_plan :: "shutdown_step list"
  sh_health :: bool
  sh_grpc_open :: bool
  sh_grpc :: nat
  sh_tcp :: tcp_server
  sh_http_open :: bool
  sh_http :: nat
  sh_ws :: nat
  sh_deadline :: bool
  sh_log :: "'d writer"
  sh_db_open :: bool
  sh_taken :: "log_entry list"
  sh_recovered :: nat
  sh_crashed :: bool

definition sh_push :: "bool \<Rightarrow> log_entry \<Rightarrow> 'd shutdown_state \<Rightarrow> 'd shutdown_state" where
  "sh_push recovers e s =
     (case store_Push e (sh_log s) of
        Done w \<Rightarrow> s\<lparr>sh_log := w, sh_taken := sh_taken s @ pushed (EvPush e :: unit event) (sh_log s)\<rparr>
      | _ \<Rightarrow> if recovers then s\<lparr>sh_recovered := sh_recovered s + 1\<rparr> else s\<lparr>sh_crashed := True\<rparr>)"

definition step_ready :: "shutdown_step \<Rightarrow> 'd shutdown_state \<Rightarrow> bool" where
  "step_ready p s \<longleftrightarrow>
     (case p of
        GrpcDrained \<Rightarrow> sh_grpc s = 0
      | TcpDrained \<Rightarrow> sv_active (sh_tcp s) = 0
      | ProxyDown \<Rightarrow> sh_http s = 0 \<or> sh_deadline s
      | _ \<Rightarrow> True)"

definition do_step :: "shutdown_step \<Rightarrow> 'd shutdown_state \<Rightarrow> 'd shutdown_state" where
  "do_step p s =
     (case p of
        CancelHealth \<Rightarrow> s\<lparr>sh_health := False\<rparr>
      | GracefulStop \<Rightarrow> s\<lparr>sh_grpc_open := False\<rparr>
      | TcpClose \<Rightarrow> s\<lparr>sh_tcp := (sh_tcp s)\<lparr>sv_closed := True, sv_listener := map_option (\<lambda>_. False) (sv_listener (sh_tcp s))\<rparr>\<rparr>
      | ShutdownProxy \<Rightarrow> s\<lparr>sh_http_open := False\<rparr>
      | LogSignal \<Rightarrow> (case store_Close (sh_log s) of Done w \<Rightarrow> s\<lparr>sh_log := w\<rparr> | _ \<Rightarrow> s\<lparr>sh_crashed := True\<rparr>)
      | LogDbClose \<Rightarrow> s\<lparr>sh_db_open := False\<rparr>
      | _ \<Rightarrow> s)"

text \<open>After the database is closed a batch is written nowhere.\<close>

definition save_if :: "bool \<Rightarrow> ('e \<Rightarrow> log_entry list \<Rightarrow> 'd \<Rightarrow> 'd) \<Rightarrow> 'e \<Rightarrow> log_entry list \<Rightarrow> 'd \<Rightarrow> 'd" where
  "save_if b save e es d = (if b then save e es d else d)"

fun writer_event :: "('e \<Rightarrow> bool) \<Rightarrow> 'e event \<Rightarrow> bool" where
  "writer_event fine (EvRecv e) = fine e"
| "writer_event fine (EvTick e) = fine e"
| "writer_event fine (EvShutdown e) = fine e"
| "writer_event fine _ = False"

text \<open>The process ends with its plan. The TCP accept loop has begun before the signal.\<close>

inductive sd_step ::
  "('e \<Rightarrow> log_entry list \<Rightarrow> 'd \<Rightarrow> 'd) \<Rightarrow> ('e \<Rightarrow> bool) \<Rightarrow> 'd shutdown_state \<Rightarrow> 'd shutdown_state \<Rightarrow> bool" for save fine where
  main: "sh_plan s = p # ps \<Longrightarrow> step_ready p s \<Longrightarrow> sd_step save fine s ((do_step p s)\<lparr>sh_plan := ps\<rparr>)"
| grpc_starts: "sh_plan s \<noteq> [] \<Longrightarrow> sh_grpc_open s \<Longrightarrow> sd_step save fine s (s\<lparr>sh_grpc := sh_grpc s + 1\<rparr>)"
| grpc_ends: "sh_plan s \<noteq> [] \<Longrightarrow> 0 < sh_grpc s \<Longrightarrow> length es \<le> 1 \<Longrightarrow>
    sd_step save fine s (fold (sh_push False) es (s\<lparr>sh_grpc := sh_grpc s - 1\<rparr>))"
| tcp_accepts: "sh_plan s \<noteq> [] \<Longrightarrow> ev \<in> {SvAccept, SvAcceptError} \<Longrightarrow> server_step ev (sh_tcp s) t \<Longrightarrow>
    sd_step save fine s (s\<lparr>sh_tcp := t\<rparr>)"
| tcp_ends: "sh_plan s \<noteq> [] \<Longrightarrow> server_step SvConnDone (sh_tcp s) t \<Longrightarrow> length es \<le> 1 \<Longrightarrow>
    sd_step save fine s (fold (sh_push False) es (s\<lparr>sh_tcp := t\<rparr>))"
| http_starts: "sh_plan s \<noteq> [] \<Longrightarrow> sh_http_open s \<Longrightarrow> sd_step save fine s (s\<lparr>sh_http := sh_http s + 1\<rparr>)"
| http_ends: "sh_plan s \<noteq> [] \<Longrightarrow> 0 < sh_http s \<Longrightarrow> length es \<le> 1 \<Longrightarrow>
    sd_step save fine s (fold (sh_push True) es (s\<lparr>sh_http := sh_http s - 1\<rparr>))"
| http_upgrades: "sh_plan s \<noteq> [] \<Longrightarrow> 0 < sh_http s \<Longrightarrow> sd_step save fine s (s\<lparr>sh_http := sh_http s - 1, sh_ws := sh_ws s + 1\<rparr>)"
| ws_ends: "sh_plan s \<noteq> [] \<Longrightarrow> 0 < sh_ws s \<Longrightarrow> sd_step save fine s (sh_push True e (s\<lparr>sh_ws := sh_ws s - 1\<rparr>))"
| deadline: "sh_plan s \<noteq> [] \<Longrightarrow> sd_step save fine s (s\<lparr>sh_deadline := True\<rparr>)"
| writer: "sh_plan s \<noteq> [] \<Longrightarrow> writer_event fine ev \<Longrightarrow> writer_step (save_if (sh_db_open s) save) ev (sh_log s) = Done w \<Longrightarrow>
    sd_step save fine s (s\<lparr>sh_log := w\<rparr>)"

inductive_cases sd_stepE: "sd_step save fine s s'"

text \<open>The process when the signal comes.\<close>

definition at_signal :: "config \<Rightarrow> 'd shutdown_state \<Rightarrow> bool" where
  "at_signal cfg s \<longleftrightarrow> sh_plan s = shutdown_plan cfg
     \<and> (CelestiaAppGRPC (Backends cfg) = [] \<longrightarrow> sh_grpc s = 0 \<and> \<not> sh_grpc_open s)
     \<and> (CelestiaAppP2P (Backends cfg) = [] \<longrightarrow> sv_active (sh_tcp s) = 0 \<and> sv_listener (sh_tcp s) = None)
     \<and> writer_wf (sh_log s) \<and> \<not> bw_done (sh_log s) \<and> sh_db_open s \<and> sh_taken s = [] \<and> \<not> sh_crashed s"

subsection \<open>The plan\<close>

lemma suffix_past:
  assumes "suffix ps (pre @ x # post)" "x \<notin> set ps"
  shows "suffix ps post"
proof -
  obtain qs where q: "pre @ x # post = qs @ ps" using assms(1) by (auto simp: suffix_def)
  then show ?thesis
    using assms(2) by (auto simp: append_eq_append_conv2 Cons_eq_append_conv suffix_def)
qed

lemma suffix_tail:
  assumes "suffix ps (pre @ x # post)" "x \<in> set ps" "distinct (pre @ x # post)"
  shows "set post \<subseteq> set ps"
proof -
  obtain zs where z: "pre @ x # post = zs @ ps" using assms(1) by (auto simp: suffix_def)
  obtain ys rest where y: "ps = ys @ x # rest" using split_list [OF assms(2)] by blast
  have n: "x \<notin> set pre" "x \<notin> set post" using assms(3) by simp_all
  have "pre @ x # post = (zs @ ys) @ x # rest" using z by (simp add: y)
  then have "post = rest" by (simp only: append_Cons_eq_iff [OF n])
  then show ?thesis by (auto simp: y)
qed

lemma plan_split:
  "\<exists>pre post. shutdown_plan cfg = pre @ LogSignal # LogDbClose # post \<and> LogSignal \<notin> set pre
     \<and> set post \<inter> {LogSignal, LogDbClose, GracefulStop, GrpcDrained, TcpClose, TcpDrained, ProxyDown, ShutdownProxy} = {}
     \<and> TokensClose \<in> set post"
  by (rule exI [of _ "shutdown_calls cfg @ (if cch_Enabled (CacheCfg cfg) then [CacheClose] else [])"])
    (auto simp: shutdown_plan_def shutdown_calls_def deferred_calls_def)

lemma past_signal:
  assumes "suffix ps (shutdown_plan cfg)" "LogSignal \<notin> set ps"
  shows "GrpcDrained \<notin> set ps" "TcpDrained \<notin> set ps" "ProxyDown \<notin> set ps"
proof -
  obtain pre post where p: "shutdown_plan cfg = pre @ LogSignal # (LogDbClose # post)"
      "set post \<inter> {LogSignal, LogDbClose, GracefulStop, GrpcDrained, TcpClose, TcpDrained, ProxyDown, ShutdownProxy} = {}"
    using plan_split [of cfg] by auto
  have "suffix ps (LogDbClose # post)" using suffix_past [OF assms(1) [unfolded p(1)] assms(2)] .
  then have "set ps \<subseteq> insert LogDbClose (set post)" using set_mono_suffix by fastforce
  with p(2) show "GrpcDrained \<notin> set ps" "TcpDrained \<notin> set ps" "ProxyDown \<notin> set ps" by auto
qed

lemma plan_distinct: "distinct (shutdown_plan cfg)"
  by (auto simp: shutdown_plan_def shutdown_calls_def deferred_calls_def)

lemma plan_suffix_distinct: "suffix ps (shutdown_plan cfg) \<Longrightarrow> distinct ps"
proof -
  assume "suffix ps (shutdown_plan cfg)"
  then obtain zs where "shutdown_plan cfg = zs @ ps" by (auto simp: suffix_def)
  with plan_distinct [of cfg] show ?thesis by simp
qed

lemma plan_after:
  assumes "suffix (x # ps) (shutdown_plan cfg)" "shutdown_plan cfg = pre @ y # mid @ x # post"
  shows "y \<notin> set ps"
proof -
  have d: "distinct (pre @ y # mid @ x # post)" "distinct (x # ps)"
    using plan_distinct [of cfg] assms(2) plan_suffix_distinct [OF assms(1)] by simp_all
  have "suffix ps (shutdown_plan cfg)" by (rule suffix_ConsD [OF assms(1)])
  then have "suffix ps post" using suffix_past [of ps "pre @ y # mid" x post] d(2) assms(2) by simp
  then have "set ps \<subseteq> set post" by (rule set_mono_suffix)
  with d(1) show ?thesis by auto
qed

lemma plan_absent: "suffix (x # ps) (shutdown_plan cfg) \<Longrightarrow> x \<in> set (shutdown_plan cfg)"
  by (auto simp: suffix_def)

lemma drained_order:
  "suffix (GrpcDrained # ps) (shutdown_plan cfg) \<Longrightarrow> GracefulStop \<notin> set ps"
  "suffix (TcpDrained # ps) (shutdown_plan cfg) \<Longrightarrow> TcpClose \<notin> set ps"
  "suffix (ProxyDown # ps) (shutdown_plan cfg) \<Longrightarrow> ShutdownProxy \<notin> set ps"
proof -
  let ?g = "[GracefulStop, GrpcDrained]" and ?t = "if 0 < length (CelestiaAppP2P (Backends cfg)) then [TcpClose, TcpDrained] else []"
  let ?r = "[ShutdownAdmin] @ (if metrics_IsEnabled (Metrics cfg) then [ShutdownMetrics] else []) @ deferred_calls cfg"
  show "GracefulStop \<notin> set ps" if s: "suffix (GrpcDrained # ps) (shutdown_plan cfg)"
  proof -
    have "0 < length (CelestiaAppGRPC (Backends cfg))"
      using plan_absent [OF s] by (auto simp: shutdown_plan_def shutdown_calls_def deferred_calls_def split: if_splits)
    then have "shutdown_plan cfg = [CancelHealth] @ GracefulStop # [] @ GrpcDrained # (?t @ [ShutdownProxy, ProxyDown] @ ?r)"
      by (simp add: shutdown_plan_def shutdown_calls_def)
    then show ?thesis by (rule plan_after [OF s])
  qed
  show "TcpClose \<notin> set ps" if s: "suffix (TcpDrained # ps) (shutdown_plan cfg)"
  proof -
    have "0 < length (CelestiaAppP2P (Backends cfg))"
      using plan_absent [OF s] by (auto simp: shutdown_plan_def shutdown_calls_def deferred_calls_def split: if_splits)
    then have "shutdown_plan cfg = ([CancelHealth] @ (if 0 < length (CelestiaAppGRPC (Backends cfg)) then ?g else []))
        @ TcpClose # [] @ TcpDrained # ([ShutdownProxy, ProxyDown] @ ?r)"
      by (simp add: shutdown_plan_def shutdown_calls_def)
    then show ?thesis by (rule plan_after [OF s])
  qed
  show "ShutdownProxy \<notin> set ps" if s: "suffix (ProxyDown # ps) (shutdown_plan cfg)"
  proof -
    have "shutdown_plan cfg = ([CancelHealth] @ (if 0 < length (CelestiaAppGRPC (Backends cfg)) then ?g else []) @ ?t)
        @ ShutdownProxy # [] @ ProxyDown # ?r"
      by (simp add: shutdown_plan_def shutdown_calls_def)
    then show ?thesis by (rule plan_after [OF s])
  qed
qed

subsection \<open>Pushes\<close>

lemma sh_push_frame [simp]:
  "sh_plan (sh_push r e s) = sh_plan s" "sh_health (sh_push r e s) = sh_health s" "sh_grpc_open (sh_push r e s) = sh_grpc_open s"
  "sh_grpc (sh_push r e s) = sh_grpc s" "sh_tcp (sh_push r e s) = sh_tcp s" "sh_http_open (sh_push r e s) = sh_http_open s"
  "sh_http (sh_push r e s) = sh_http s" "sh_ws (sh_push r e s) = sh_ws s" "sh_deadline (sh_push r e s) = sh_deadline s"
  "sh_db_open (sh_push r e s) = sh_db_open s"
  by (simp_all add: sh_push_def split: outcome.split)

lemma sh_push_log:
  assumes "writer_wf (sh_log s)"
  shows "writer_wf (sh_log (sh_push r e s))" "bw_done (sh_log (sh_push r e s)) = bw_done (sh_log s)"
    "bw_running (sh_log (sh_push r e s)) = bw_running (sh_log s)"
  using assms by (auto simp: sh_push_def store_Push_def writer_wf_def split: outcome.split if_splits)

lemma sh_push_crash:
  assumes "writer_wf (sh_log s)" "r \<or> \<not> bw_done (sh_log s)"
  shows "sh_crashed (sh_push r e s) = sh_crashed s"
  using assms by (auto simp: sh_push_def store_Push_def writer_wf_def split: outcome.split if_splits)

lemma fold_push:
  assumes "writer_wf (sh_log s)"
  shows "writer_wf (sh_log (fold (sh_push r) es s)) \<and> bw_done (sh_log (fold (sh_push r) es s)) = bw_done (sh_log s)
     \<and> bw_running (sh_log (fold (sh_push r) es s)) = bw_running (sh_log s)
     \<and> (r \<or> \<not> bw_done (sh_log s) \<longrightarrow> sh_crashed (fold (sh_push r) es s) = sh_crashed s)"
  using assms
proof (induction es arbitrary: s)
  case (Cons e es)
  have w: "writer_wf (sh_log (sh_push r e s))" by (rule sh_push_log(1) [OF Cons.prems])
  from Cons.IH [OF w] sh_push_log(2,3) [OF Cons.prems] sh_push_crash [OF Cons.prems] show ?case by simp
qed simp

lemma fold_push_frame [simp]:
  "sh_plan (fold (sh_push r) es s) = sh_plan s" "sh_health (fold (sh_push r) es s) = sh_health s"
  "sh_grpc_open (fold (sh_push r) es s) = sh_grpc_open s" "sh_grpc (fold (sh_push r) es s) = sh_grpc s"
  "sh_tcp (fold (sh_push r) es s) = sh_tcp s" "sh_http_open (fold (sh_push r) es s) = sh_http_open s"
  "sh_http (fold (sh_push r) es s) = sh_http s" "sh_ws (fold (sh_push r) es s) = sh_ws s"
  "sh_deadline (fold (sh_push r) es s) = sh_deadline s" "sh_db_open (fold (sh_push r) es s) = sh_db_open s"
  by (induction es arbitrary: s) simp_all

subsection \<open>The invariant\<close>

definition sd_inv :: "config \<Rightarrow> 'd shutdown_state \<Rightarrow> bool" where
  "sd_inv cfg s \<longleftrightarrow> suffix (sh_plan s) (shutdown_plan cfg)
     \<and> (GracefulStop \<notin> set (sh_plan s) \<longrightarrow> \<not> sh_grpc_open s)
     \<and> (GrpcDrained \<notin> set (sh_plan s) \<longrightarrow> \<not> sh_grpc_open s \<and> sh_grpc s = 0)
     \<and> (TcpClose \<notin> set (sh_plan s) \<longrightarrow> sv_listener (sh_tcp s) \<noteq> Some True)
     \<and> (TcpDrained \<notin> set (sh_plan s) \<longrightarrow> sv_listener (sh_tcp s) \<noteq> Some True \<and> sv_active (sh_tcp s) = 0)
     \<and> (ShutdownProxy \<notin> set (sh_plan s) \<longrightarrow> \<not> sh_http_open s)
     \<and> (ProxyDown \<notin> set (sh_plan s) \<longrightarrow> \<not> sh_http_open s \<and> (sh_http s = 0 \<or> sh_deadline s))
     \<and> (bw_done (sh_log s) \<longleftrightarrow> LogSignal \<notin> set (sh_plan s)) \<and> writer_wf (sh_log s)
     \<and> (sh_db_open s \<longleftrightarrow> LogDbClose \<in> set (sh_plan s)) \<and> \<not> sh_crashed s"

lemma at_signal_inv: "at_signal cfg s \<Longrightarrow> sd_inv cfg s"
  by (auto simp: at_signal_def sd_inv_def shutdown_plan_def shutdown_calls_def deferred_calls_def)

lemma writer_event_done:
  assumes "writer_event fine ev" "writer_step save ev w = Done w'"
  shows "bw_done w' = bw_done w"
  using assms by (cases ev) (auto simp: writer_step_def Let_def split: if_splits list.splits)

lemma main_inv:
  assumes "sd_inv cfg s" "sh_plan s = p # ps" "step_ready p s"
  shows "sd_inv cfg ((do_step p s)\<lparr>sh_plan := ps\<rparr>)"
proof -
  have sx: "suffix (p # ps) (shutdown_plan cfg)" using assms(1,2) by (simp add: sd_inv_def)
  then have s1: "suffix ps (shutdown_plan cfg)" by (rule suffix_ConsD)
  have d: "p \<notin> set ps" using plan_suffix_distinct [OF sx] by simp
  note inv = assms(1) [unfolded sd_inv_def assms(2)]
  show ?thesis
  proof (cases p)
    case GrpcDrained
    with assms(2,3) inv drained_order(1) [of ps cfg] sx s1 show ?thesis by (simp add: sd_inv_def do_step_def step_ready_def)
  next
    case TcpDrained
    with assms(2,3) inv drained_order(2) [of ps cfg] sx s1 show ?thesis by (simp add: sd_inv_def do_step_def step_ready_def)
  next
    case ProxyDown
    with assms(2,3) inv drained_order(3) [of ps cfg] sx s1 show ?thesis by (simp add: sd_inv_def do_step_def step_ready_def)
  next
    case LogSignal
    with assms(2,3) inv s1 d show ?thesis by (simp add: sd_inv_def do_step_def store_Close_def writer_wf_def)
  next
    case TcpClose
    with assms(2,3) inv s1 d show ?thesis by (simp add: sd_inv_def do_step_def)
  qed (use assms(2,3) inv s1 d in \<open>simp_all add: sd_inv_def do_step_def\<close>)
qed

lemma accept_frame:
  assumes "ev \<in> {SvAccept, SvAcceptError}" "server_step ev t0 t"
  shows "sv_listener t = sv_listener t0 \<and> (sv_listener t0 \<noteq> Some True \<longrightarrow> sv_active t = sv_active t0)"
proof (cases "ev = SvAccept")
  case True
  with assms(2) show ?thesis by simp
next
  case False
  with assms(1) have "ev = SvAcceptError" by simp
  with assms(2) show ?thesis by (simp split: if_splits)
qed

lemma conn_done_frame: "server_step SvConnDone t0 t \<Longrightarrow> 0 < sv_active t0 \<and> sv_listener t = sv_listener t0"
  by simp

lemma sd_step_inv:
  assumes "sd_step save fine s s'" "sd_inv cfg s"
  shows "sd_inv cfg s'"
  using assms(1)
proof cases
  case (main p ps)
  with main_inv [OF assms(2)] show ?thesis by simp
next
  case (grpc_starts)
  with assms(2) show ?thesis by (auto simp: sd_inv_def)
next
  case (grpc_ends es)
  have o: "\<not> bw_done (sh_log s)"
    using assms(2) grpc_ends(3) past_signal(1) [of "sh_plan s" cfg] by (auto simp: sd_inv_def)
  with fold_push [of "s\<lparr>sh_grpc := sh_grpc s - 1\<rparr>" False es] assms(2) grpc_ends show ?thesis by (auto simp: sd_inv_def)
next
  case (tcp_accepts ev t)
  from accept_frame [OF tcp_accepts(3,4)] assms(2) tcp_accepts(1) show ?thesis by (simp add: sd_inv_def)
next
  case (tcp_ends t es)
  note f = conn_done_frame [OF tcp_ends(3)]
  have o: "\<not> bw_done (sh_log s)" and a: "TcpDrained \<in> set (sh_plan s)"
    using assms(2) f past_signal(2) [of "sh_plan s" cfg] by (auto simp: sd_inv_def)
  from fold_push [of "s\<lparr>sh_tcp := t\<rparr>" False es] assms(2) o a f tcp_ends(1) show ?thesis by (simp add: sd_inv_def)
next
  case (http_starts)
  with assms(2) show ?thesis by (auto simp: sd_inv_def)
next
  case (http_ends es)
  with fold_push [of "s\<lparr>sh_http := sh_http s - 1\<rparr>" True es] assms(2) show ?thesis by (auto simp: sd_inv_def)
next
  case (http_upgrades)
  with assms(2) show ?thesis by (auto simp: sd_inv_def)
next
  case (ws_ends e)
  with fold_push [of "s\<lparr>sh_ws := sh_ws s - 1\<rparr>" True "[e]"] assms(2) show ?thesis by (simp add: sd_inv_def)
next
  case (deadline)
  with assms(2) show ?thesis by (simp add: sd_inv_def)
next
  case (writer ev w)
  with writer_step_wf [OF _ writer(4)] writer_event_done [OF writer(3,4)] assms(2) show ?thesis by (simp add: sd_inv_def)
qed

lemma sd_reachable_inv: "(sd_step save fine)\<^sup>*\<^sup>* s s' \<Longrightarrow> sd_inv cfg s \<Longrightarrow> sd_inv cfg s'"
  by (induction rule: rtranclp_induct) (auto intro: sd_step_inv)


subsection \<open>What the store ends up with\<close>

lemma save_if_simps [simp]: "save_if True save = save" "save_if False save e es d = d"
  by (simp_all add: save_if_def fun_eq_iff)

lemma closed_writer_sink: "writer_step (save_if False save) ev w = Done w' \<Longrightarrow> bw_sink w' = bw_sink w"
  by (cases ev) (auto simp: writer_step_def store_Push_def store_Close_def flush_def Let_def split: if_splits list.splits)

lemma sh_push_sink: "bw_sink (sh_log (sh_push r e s)) = bw_sink (sh_log s)"
  by (auto simp: sh_push_def store_Push_def split: outcome.split)

lemma fold_push_sink: "bw_sink (sh_log (fold (sh_push r) es s)) = bw_sink (sh_log s)"
  by (induction es arbitrary: s) (simp_all add: sh_push_sink)

lemma do_step_sink: "bw_sink (sh_log (do_step p s)) = bw_sink (sh_log s)"
  by (cases p) (auto simp: do_step_def store_Close_def split: outcome.split)

lemma closed_step:
  assumes "sd_step save fine s s'" "\<not> sh_db_open s"
  shows "bw_sink (sh_log s') = bw_sink (sh_log s) \<and> \<not> sh_db_open s'"
  using assms(1)
proof cases
  case (main p ps)
  with assms(2) show ?thesis by (cases p) (auto simp: do_step_def store_Close_def split: outcome.split)
next
  case (writer ev w)
  with assms(2) show ?thesis by (simp add: closed_writer_sink)
qed (use assms(2) in \<open>simp_all add: fold_push_sink sh_push_sink\<close>)

lemma closed_run:
  "(sd_step save fine)\<^sup>*\<^sup>* s s' \<Longrightarrow> \<not> sh_db_open s \<Longrightarrow> bw_sink (sh_log s') = bw_sink (sh_log s) \<and> \<not> sh_db_open s'"
  by (induction rule: rtranclp_induct) (auto dest: closed_step)

context log_sink begin

lemma push_flight:
  "\<exists>new. sh_taken (sh_push r e s) = sh_taken s @ new \<and> in_flight (sh_log (sh_push r e s)) = in_flight (sh_log s) @ map image new"
  by (auto simp: sh_push_def store_Push_def pushed_def in_flight_def split: outcome.split)

lemma fold_push_flight:
  "\<exists>new. sh_taken (fold (sh_push r) es s) = sh_taken s @ new \<and> in_flight (sh_log (fold (sh_push r) es s)) = in_flight (sh_log s) @ map image new"
proof (induction es arbitrary: s)
  case (Cons e es)
  obtain n1 where "sh_taken (sh_push r e s) = sh_taken s @ n1" "in_flight (sh_log (sh_push r e s)) = in_flight (sh_log s) @ map image n1"
    using push_flight by blast
  moreover obtain n2 where "sh_taken (fold (sh_push r) es (sh_push r e s)) = sh_taken (sh_push r e s) @ n2"
      "in_flight (sh_log (fold (sh_push r) es (sh_push r e s))) = in_flight (sh_log (sh_push r e s)) @ map image n2"
    using Cons.IH by blast
  ultimately show ?case by (intro exI [of _ "n1 @ n2"]) simp
qed (intro exI [of _ "[]"], simp)

lemma do_step_flight: "sh_taken (do_step p s) = sh_taken s \<and> in_flight (sh_log (do_step p s)) = in_flight (sh_log s)"
  by (cases p) (auto simp: do_step_def store_Close_def in_flight_def split: outcome.split)

lemma open_step:
  assumes "sd_step save healthy s s'" "sh_db_open s"
  shows "\<exists>new. sh_taken s' = sh_taken s @ new \<and> in_flight (sh_log s') = in_flight (sh_log s) @ map image new"
  using assms(1)
proof cases
  case (main p ps)
  with do_step_flight [of p s] show ?thesis by (intro exI [of _ "[]"]) simp
next
  case (grpc_ends es)
  with fold_push_flight [of False es "s\<lparr>sh_grpc := sh_grpc s - 1\<rparr>"] show ?thesis by simp
next
  case (tcp_ends t es)
  with fold_push_flight [of False es "s\<lparr>sh_tcp := t\<rparr>"] show ?thesis by simp
next
  case (http_ends es)
  with fold_push_flight [of True es "s\<lparr>sh_http := sh_http s - 1\<rparr>"] show ?thesis by simp
next
  case (ws_ends e)
  with push_flight [of True e "s\<lparr>sh_ws := sh_ws s - 1\<rparr>"] show ?thesis by simp
next
  case (writer ev w)
  have "in_flight w = in_flight (sh_log s) @ map image (pushed ev (sh_log s))"
    by (rule step_all) (use writer assms(2) in \<open>cases ev; simp\<close>)+
  with writer show ?thesis by (cases ev) (auto simp: pushed_def intro: exI [of _ "[]"])
qed (intro exI [of _ "[]"], simp)+

lemma open_run:
  assumes "(sd_step save healthy)\<^sup>*\<^sup>* s s'" "sh_db_open s'"
  shows "\<exists>new. sh_taken s' = sh_taken s @ new \<and> in_flight (sh_log s') = in_flight (sh_log s) @ map image new"
  using assms
proof (induction rule: rtranclp_induct)
  case (step s1 s2)
  have o: "sh_db_open s1" using closed_step [OF step.hyps(2)] step.prems by blast
  obtain n1 where "sh_taken s1 = sh_taken s @ n1" "in_flight (sh_log s1) = in_flight (sh_log s) @ map image n1" using step.IH [OF o] by blast
  moreover obtain n2 where "sh_taken s2 = sh_taken s1 @ n2" "in_flight (sh_log s2) = in_flight (sh_log s1) @ map image n2"
    using open_step [OF step.hyps(2) o] by blast
  ultimately show ?case by (intro exI [of _ "n1 @ n2"]) simp
qed (intro exI [of _ "[]"], simp)

end


subsection \<open>A shutdown the writer loses\<close>

text \<open>\<open>main\<close> alone, to be run.\<close>

fun main_run :: "nat \<Rightarrow> 'd shutdown_state \<Rightarrow> 'd shutdown_state option" where
  "main_run 0 s = Some s"
| "main_run (Suc n) s =
     (case sh_plan s of
        [] \<Rightarrow> None
      | p # ps \<Rightarrow> if step_ready p s then main_run n ((do_step p s)\<lparr>sh_plan := ps\<rparr>) else None)"

lemma main_run_steps: "main_run n s = Some s' \<Longrightarrow> (sd_step save fine)\<^sup>*\<^sup>* s s'"
proof (induction n arbitrary: s)
  case (Suc n)
  then obtain p ps where p: "sh_plan s = p # ps" "step_ready p s" "main_run n ((do_step p s)\<lparr>sh_plan := ps\<rparr>) = Some s'"
    by (auto split: list.splits if_splits)
  from sd_step.main [OF p(1,2)] Suc.IH [OF p(3)] show ?case by (rule converse_rtranclp_into_rtranclp)
qed simp

text \<open>One entry in the channel, no proxies beside the HTTP server, and a writer that does not get its turn.\<close>

definition sample_signal :: "log_db shutdown_state" where
  "sample_signal =
     \<lparr>sh_plan = shutdown_plan start_config, sh_health = True, sh_grpc_open = False, sh_grpc = 0, sh_tcp = NewTCPProxy, sh_http_open = True,
      sh_http = 0, sh_ws = 0, sh_deadline = False, sh_log = (NewWriter empty_db)\<lparr>bw_chan := [numbered 1]\<rparr>, sh_db_open = True,
      sh_taken = [], sh_recovered = 0, sh_crashed = False\<rparr>"

lemma sample_plan:
  "shutdown_plan start_config =
     [CancelHealth, ShutdownProxy, ProxyDown, ShutdownAdmin, ShutdownMetrics, LogSignal, LogDbClose, TokensClose, TracingShutdown, LoggerSync]"
  by (simp add: shutdown_plan_def shutdown_calls_def deferred_calls_def start_config_def sample_config_def sample_backends_def metrics_IsEnabled_def)

lemma sample_at_signal: "at_signal start_config sample_signal"
  using NewWriter_wf [of empty_db]
  by (simp add: at_signal_def sample_signal_def NewTCPProxy_def writer_wf_def chan_capacity_def) (simp add: NewWriter_def)

lemmas shutdown_eval = sample_plan sample_signal_def do_step_def step_ready_def store_Close_def NewWriter_def numeral_eq_Suc

definition sample_signalled :: "log_db shutdown_state" where
  "sample_signalled = the (main_run 6 sample_signal)"

lemma sample_signalled_run:
  "main_run 6 sample_signal = Some sample_signalled"
  "sh_plan sample_signalled = [LogDbClose, TokensClose, TracingShutdown, LoggerSync]"
  "bw_batch (sh_log sample_signalled) = []" "bw_chan (sh_log sample_signalled) = [numbered 1]" "sh_taken sample_signalled = []"
  by (simp_all add: sample_signalled_def shutdown_eval)



end
