(* ===== verification/Interleaving.thy ===== *)
theory Interleaving
  imports Shutdown
begin

text \<open>
  Requests at the grain of the code's locks. A step is one operation the code does under a lock, in one
  statement of a database, or through one channel: any number of requests, gRPC calls, TCP
  connections, token operations and health checks are then an interleaving of such steps. A whole
  request as \<open>Process\<close> has it is one such run, and the invariants hold in every one.

  The reload of the token cache (\<open>loadCache\<close>, \<open>internal/auth/store.go\<close>) reads the table first and
  installs what it read later, under a lock of its own: two steps, between which the table can change
  and another reload can overtake it. \<open>lv_loads\<close> holds what reloads have read and not yet installed,
  \<open>lv_past\<close> the tables there have been.
\<close>

subsection \<open>Steps\<close>

inductive h_op :: "('c, 'w) deps \<Rightarrow> ('c, 'w) hstate \<Rightarrow> ('c, 'w) hstate \<Rightarrow> bool" for dp where
  target: "h_op dp h (h\<lparr>hs_router := snd (router_TargetURL d b (hs_router h))\<rparr>)"
| record_latency: "h_op dp h (h\<lparr>hs_router := router_RecordLatency b ep t (hs_router h)\<rparr>)"
| set_head: "h_op dp h (h\<lparr>hs_router := router_SetHead n (hs_router h)\<rparr>)"
| sent: "h_op dp h (h\<lparr>hs_world := w, hs_sent := hs_sent h @ [out]\<rparr>)"
| cache_get: "h_op dp h (h\<lparr>hs_cache := snd (dp_get dp m n b (hs_cache h))\<rparr>)"
| cache_set: "h_op dp h (h\<lparr>hs_cache := dp_set dp m n b a (hs_cache h)\<rparr>)"

text \<open>\<open>ws_own\<close> is what a WebSocket session does to its own connections.\<close>

inductive sys_op ::
  "('c, 'w, 'v, 'l) wiring \<Rightarrow> ('c, 'w, 'v, 'l, 'd) sys \<Rightarrow> ('c, 'w, 'v, 'l, 'd) sys \<Rightarrow> bool" for wi where
  handler: "h_op (wi_handler wi) (sy_h s) h \<Longrightarrow> sys_op wi s (s\<lparr>sy_h := h\<rparr>)"
| ws_own: "sys_op wi s (s\<lparr>sy_ws := x\<rparr>)"
| limiter_get: "sys_op wi s (s\<lparr>sy_limiters := snd (GetLimiter (wi_new_limiter wi) n r (sy_limiters s))\<rparr>)"
| limiter_allow: "sy_limiters s n = Some l \<Longrightarrow> sys_op wi s (s\<lparr>sy_limiters := (sy_limiters s)(n \<mapsto> snd (wi_allow wi l))\<rparr>)"
| redis_allow: "sys_op wi s (s\<lparr>sy_redis := snd (redis_Allow failure now n r (sy_redis s))\<rparr>)"
| ring_push: "sys_op wi s (ring_sink e s)"
| log_push: "sys_op wi s (store_sink e s)"
| counted: "sys_op wi s (s\<lparr>sy_metrics := observe_request c d (sy_metrics s)\<rparr>)"
| span_end: "sys_op wi s (s\<lparr>sy_spans := sy_spans s @ [sp]\<rparr>)"

record ('c, 'w, 'v, 'l, 'd) live =
  lv_sys :: "('c, 'w, 'v, 'l, 'd) sys"
  lv_loads :: "(string \<rightharpoonup> token_info) list"
  lv_past :: "token_db list"

definition the_store :: "('c, 'w, 'v, 'l, 'd) live \<Rightarrow> token_store" where
  "the_store p = sy_tokens (lv_sys p)"

definition with_tokens :: "(token_store \<Rightarrow> token_store) \<Rightarrow> ('c, 'w, 'v, 'l, 'd) sys \<Rightarrow> ('c, 'w, 'v, 'l, 'd) sys" where
  "with_tokens f s = s\<lparr>sy_tokens := f (sy_tokens s)\<rparr>"

text \<open>The statements the token store changes its table with; one that fails changes nothing.
  \<open>SetFields\<close> writes back every field of the token as \<open>Update\<close> read and changed it.\<close>

datatype sql_stmt = InsertRow token_row | SetFields int token int | SetHash int string string int | DeleteRow int

fun exec_stmt :: "sql_stmt \<Rightarrow> token_db \<Rightarrow> token_db" where
  "exec_stmt (InsertRow row) db = (case db_insert row db of Some db' \<Rightarrow> db' | None \<Rightarrow> db)"
| "exec_stmt (SetFields i x now) db =
     db_update i (\<lambda>r. r\<lparr>tr_name := tk_Name x, tr_enabled := tk_Enabled x, tr_rate := tk_RateLimit x, tr_scope := tk_Scope x,
       tr_methods := join_with '','' (tk_AllowedMethods x), tr_expires := tk_ExpiresAt x, tr_updated := now\<rparr>) db"
| "exec_stmt (SetHash i h pre now) db =
     (if hash_clash i h db then db else db_update i (\<lambda>r. r\<lparr>tr_hash := h, tr_prefix := pre, tr_updated := now\<rparr>) db)"
| "exec_stmt (DeleteRow i) db = db_delete i db"

inductive live_step ::
  "('c, 'w, 'v, 'l) wiring \<Rightarrow> ('e \<Rightarrow> log_entry list \<Rightarrow> 'd \<Rightarrow> 'd) \<Rightarrow> ('c, 'w, 'v, 'l, 'd) live \<Rightarrow> ('c, 'w, 'v, 'l, 'd) live \<Rightarrow> bool"
  for wi save where
  shared: "sys_op wi (lv_sys p) s \<Longrightarrow> live_step wi save p (p\<lparr>lv_sys := s\<rparr>)"
| writes: "writer_turn ev \<Longrightarrow> writer_step save ev (sy_log (lv_sys p)) = Done w \<Longrightarrow> live_step wi save p (p\<lparr>lv_sys := (lv_sys p)\<lparr>sy_log := w\<rparr>\<rparr>)"
| statement: "live_step wi save p (p\<lparr>lv_sys := with_tokens (\<lambda>ts. ts\<lparr>ts_db := exec_stmt q (ts_db ts)\<rparr>) (lv_sys p),
    lv_past := exec_stmt q (ts_db (the_store p)) # lv_past p\<rparr>)"
| load_query: "live_step wi save p (p\<lparr>lv_loads := cache_of (ts_db (the_store p)) # lv_loads p\<rparr>)"
| load_install: "lv_loads p = ls @ snap # ls' \<Longrightarrow>
    live_step wi save p (p\<lparr>lv_sys := with_tokens (\<lambda>ts. ts\<lparr>ts_cache := snap, ts_lastLoad := now\<rparr>) (lv_sys p), lv_loads := ls @ ls'\<rparr>)"

inductive_cases live_stepE: "live_step wi save p p'"

subsection \<open>The invariant\<close>

definition live_inv :: "config \<Rightarrow> ('c, 'w, 'v, 'l, 'd) live \<Rightarrow> bool" where
  "live_inv cfg p \<longleftrightarrow>
     (let s = lv_sys p
      in ring_wf (sy_ring s) \<and> pools_of cfg (hs_router (sy_h s)) \<and> writer_wf (sy_log s) \<and> bw_running (sy_log s) \<and> \<not> sy_panicked s
         \<and> lv_past p \<noteq> [] \<and> hd (lv_past p) = ts_db (sy_tokens s) \<and> list_all db_wf (lv_past p)
         \<and> ts_cache (sy_tokens s) \<in> cache_of ` set (lv_past p) \<and> set (lv_loads p) \<subseteq> cache_of ` set (lv_past p))"

lemma RecordLatency_pools: "pools_of cfg r \<Longrightarrow> pools_of cfg (router_RecordLatency b ep t r)"
  using router_step_frame [where op = "RtRecord b ep t" and r = r] by (simp add: pools_of_def)

lemma h_op_pools: "h_op dp h h' \<Longrightarrow> pools_of cfg (hs_router h) \<Longrightarrow> pools_of cfg (hs_router h')"
  by (induction rule: h_op.induct) (simp_all add: TargetURL_pools SetHead_pools RecordLatency_pools)

lemma sys_op_keeps:
  assumes "sys_op wi s s'" "ring_wf (sy_ring s)" "pools_of cfg (hs_router (sy_h s))" "writer_wf (sy_log s)" "bw_running (sy_log s)" "\<not> sy_panicked s"
  shows "ring_wf (sy_ring s') \<and> pools_of cfg (hs_router (sy_h s')) \<and> writer_wf (sy_log s') \<and> bw_running (sy_log s') \<and> \<not> sy_panicked s'
     \<and> sy_tokens s' = sy_tokens s"
  using assms(1)
proof cases
  case (handler h)
  with assms h_op_pools show ?thesis by auto
next
  case (ring_push e)
  obtain rb where "ring_Push e (sy_ring s) = Some rb" "ring_wf rb" using Push_wf [OF assms(2)] by metis
  with assms ring_push show ?thesis by (simp add: ring_sink_def)
next
  case (log_push e)
  have "\<not> bw_chan_closed (sy_log s)" using assms(4,5) by (simp add: writer_wf_def)
  then obtain w where w: "store_Push e (sy_log s) = Done w" by (cases "length (bw_chan (sy_log s)) < chan_capacity") (auto simp: store_Push_def)
  with Push_writer_wf [OF w] assms log_push show ?thesis by (simp add: store_sink_def)
qed (use assms in simp_all)

lemma exec_stmt_wf: "db_wf db \<Longrightarrow> db_wf (exec_stmt q db)"
proof (cases q)
  case (InsertRow row)
  assume "db_wf db"
  with InsertRow db_insert_wf show ?thesis by (auto split: option.split)
next
  case (SetFields i x now)
  assume "db_wf db"
  with SetFields show ?thesis by (simp add: db_update_same_hash)
next
  case (SetHash i h pre now)
  assume "db_wf db"
  with SetHash show ?thesis by (simp add: db_update_wf)
next
  case (DeleteRow i)
  assume "db_wf db"
  with DeleteRow db_delete_wf show ?thesis by simp
qed

lemma turn_running: "writer_turn ev \<Longrightarrow> writer_step save ev w = Done w' \<Longrightarrow> bw_running w \<Longrightarrow> bw_running w'"
  by (cases ev) (auto simp: writer_step_def Let_def split: if_splits list.splits)

lemma live_step_inv:
  assumes "live_step wi save p p'" "live_inv cfg p"
  shows "live_inv cfg p'"
  using assms(1)
proof cases
  case (shared s)
  with sys_op_keeps [OF shared(2), of cfg] assms(2) show ?thesis by (simp add: live_inv_def Let_def)
next
  case (writes ev w)
  with writer_step_wf [OF _ writes(3)] turn_running [OF writes(2,3)] assms(2) show ?thesis by (simp add: live_inv_def Let_def)
next
  case (statement q)
  have "db_wf (hd (lv_past p))" using assms(2) by (cases "lv_past p") (simp_all add: live_inv_def Let_def)
  then have "db_wf (ts_db (the_store p))" using assms(2) by (simp add: live_inv_def Let_def the_store_def)
  then have "db_wf (exec_stmt q (ts_db (the_store p)))" by (rule exec_stmt_wf)
  with statement assms(2) show ?thesis by (auto simp: live_inv_def Let_def with_tokens_def the_store_def)
next
  case load_query
  then show ?thesis using assms(2) hd_in_set [of "lv_past p"] by (auto simp: live_inv_def Let_def the_store_def)
next
  case (load_install ls snap ls' now)
  then show ?thesis using assms(2) by (auto simp: live_inv_def Let_def with_tokens_def)
qed

lemma live_reachable_inv: "(live_step wi save)\<^sup>*\<^sup>* p p' \<Longrightarrow> live_inv cfg p \<Longrightarrow> live_inv cfg p'"
  by (induction rule: rtranclp_induct) (auto intro: live_step_inv)

definition live_of :: "('c, 'w, 'v, 'l, 'd) sys \<Rightarrow> ('c, 'w, 'v, 'l, 'd) live" where
  "live_of s = \<lparr>lv_sys = s, lv_loads = [], lv_past = [ts_db (sy_tokens s)]\<rparr>"

lemma live_of_inv: "sys_inv cfg s \<Longrightarrow> live_inv cfg (live_of s)"
  by (simp add: live_inv_def live_of_def sys_inv_def sys_ok_def coherent_def Let_def)

subsection \<open>A request as a run\<close>

lemma one_op: "h_op dp h h' \<Longrightarrow> (h_op dp)\<^sup>*\<^sup>* h h'"
  by blast

lemma exchange_ops: "exchange dp b u out h = (resp, h') \<Longrightarrow> (h_op dp)\<^sup>*\<^sup>* h h'"
proof -
  assume x: "exchange dp b u out h = (resp, h')"
  obtain r el w where e: "dp_exchange dp out (hs_world h) = (r, el, w)" by (metis prod_cases3)
  let ?m = "h\<lparr>hs_world := w, hs_sent := hs_sent h @ [out]\<rparr>"
  have "h_op dp ?m (?m\<lparr>hs_router := router_RecordLatency b u el (hs_router ?m)\<rparr>)" by (rule h_op.record_latency)
  moreover have "h' = ?m\<lparr>hs_router := router_RecordLatency b u el (hs_router ?m)\<rparr>" using x e by (simp add: exchange_def)
  ultimately show ?thesis using h_op.sent [where dp = dp and h = h and w = w and out = out] by (metis converse_rtranclp_into_rtranclp r_into_rtranclp)
qed

lemma tryEndpoint_ops: "tryEndpoint dp c t path q body b u h = (buf, h') \<Longrightarrow> (h_op dp)\<^sup>*\<^sup>* h h'"
  by (auto simp: tryEndpoint_def dest: exchange_ops split: prod.splits option.splits)

lemma try_pool_ops: "try_pool dp c path q body b tried pool buf h = (found, buf', h') \<Longrightarrow> (h_op dp)\<^sup>*\<^sup>* h h'"
proof (induction dp c path q body b tried pool buf h rule: try_pool.induct)
  case (2 dp c path q body b tried ep pool buf h)
  show ?case
  proof (cases "Some ep = tried \<or> dp_parse dp ep = None")
    case True
    with 2 show ?thesis by (auto split: if_splits)
  next
    case False
    then obtain t buf1 h1 where t: "dp_parse dp ep = Some t" "tryEndpoint dp c t path q body b ep h = (buf1, h1)"
      by (metis not_Some_eq surj_pair)
    show ?thesis
    proof (cases "isPrunedError (us_Status buf1) (us_Body buf1)")
      case True
      with 2(4) False t have "try_pool dp c path q body b tried pool buf1 h1 = (found, buf', h')" by auto
      moreover have "Some ep \<noteq> tried" using False by simp
      ultimately have "(h_op dp)\<^sup>*\<^sup>* h1 h'" using 2(3) [OF _ t(1) t(2) [symmetric]] True by simp
      with tryEndpoint_ops [OF t(2)] show ?thesis by (rule rtranclp_trans)
    next
      case good: False
      with 2(4) False t tryEndpoint_ops [OF t(2)] show ?thesis by auto
    qed
  qed
qed auto

lemma flush_ops: "flushBuffered dp buf b m n rb sc h c = (err, c', h') \<Longrightarrow> (h_op dp)\<^sup>*\<^sup>* h h'"
  using h_op.cache_set [of dp h m n rb "us_Body buf"] by (auto simp: flushBuffered_def Let_def split: if_splits)

lemma proxyDirect_ops: "proxyDirect dp d t path q body n sc h c = (err, c', h') \<Longrightarrow> (h_op dp)\<^sup>*\<^sup>* h h'"
proof -
  assume p: "proxyDirect dp d t path q body n sc h c = (err, c', h')"
  obtain resp h1 where x: "exchange dp (rd_Backend d) (rd_TargetURL d) (director t path q body c) h = (resp, h1)" by (metis surj_pair)
  have "h' = h1 \<or> (\<exists>a b. h' = h1\<lparr>hs_cache := dp_set dp (rd_Method d) n a b (hs_cache h1)\<rparr>)"
    using p x by (fastforce simp: proxyDirect_def modify_response_def Let_def split: option.splits if_splits)
  then show ?thesis using exchange_ops [OF x] h_op.cache_set by (metis rtranclp.rtrancl_into_rtrancl)
qed

lemma proxyWithRetry_ops: "proxyWithRetry dp d t path q body n sc h c = (err, c', h') \<Longrightarrow> (h_op dp)\<^sup>*\<^sup>* h h'"
  unfolding proxyWithRetry_def Let_def
  by (auto dest!: tryEndpoint_ops try_pool_ops flush_ops intro: rtranclp_trans split: prod.splits if_splits)

lemma serve_decision_ops:
  assumes "serve_decision dp d path q body h c = (err, c', h')"
  shows "(h_op dp)\<^sup>*\<^sup>* h h'"
proof -
  define b where "b = (case body of Some b \<Rightarrow> b | None \<Rightarrow> [])"
  define n where "n = request_height (rd_Method d) q b"
  obtain hit cache' where g: "(if IsCacheable (rd_Method d) n then dp_get dp (rd_Method d) n b (hs_cache h) else (None, hs_cache h)) = (hit, cache')"
    by (metis surj_pair)
  let ?h = "h\<lparr>hs_cache := cache'\<rparr>"
  have "cache' = snd (dp_get dp (rd_Method d) n b (hs_cache h)) \<or> ?h = h" using g by (auto split: if_splits)
  then have first: "(h_op dp)\<^sup>*\<^sup>* h ?h" using h_op.cache_get [of dp h "rd_Method d" n b] by (metis r_into_rtranclp rtranclp.rtrancl_refl)
  have eq: "serve_decision dp d path q body h c =
      (case hit of
         Some cached \<Rightarrow> (None, serve_cached d cached c, ?h)
       | None \<Rightarrow>
           (case dp_parse dp (rd_TargetURL d) of
              None \<Rightarrow> (Some (HTTPError 502 ''backend configuration error''), c, ?h)
            | Some t \<Rightarrow>
                if canRetry (rd_Backend d) n (hs_router h)
                then proxyWithRetry dp d t path q body n (IsCacheable (rd_Method d) n) ?h c
                else proxyDirect dp d t path q body n (IsCacheable (rd_Method d) n) ?h c))"
    unfolding serve_decision_def Let_def b_def [symmetric] n_def [symmetric] g by (simp split: option.split)
  have "(h_op dp)\<^sup>*\<^sup>* ?h h'"
    using assms unfolding eq by (auto dest: proxyWithRetry_ops proxyDirect_ops split: option.splits if_splits)
  with first show ?thesis by (rule rtranclp_trans)
qed

lemma Route_ops:
  assumes "router_Route d body (hs_router h) = (x, r)"
  shows "(h_op dp)\<^sup>*\<^sup>* h (h\<lparr>hs_router := r\<rparr>)"
proof -
  have "r = hs_router h \<or> (\<exists>b. r = snd (router_TargetURL d b (hs_router h)))"
    using assms by (auto simp: router_Route_def Let_def split: prod.splits if_splits option.splits) (metis snd_conv)+
  then show ?thesis
  proof
    assume "r = hs_router h"
    then have "h\<lparr>hs_router := r\<rparr> = h" by simp
    then show ?thesis by simp
  next
    assume "\<exists>b. r = snd (router_TargetURL d b (hs_router h))"
    then show ?thesis by (auto intro: h_op.target)
  qed
qed

lemma HandleRequest_ops:
  assumes "HandleRequest dp h c = (err, c', h')"
  shows "(h_op dp)\<^sup>*\<^sup>* h h'"
proof -
  have two: "(h_op dp)\<^sup>*\<^sup>* h h'"
    if "router_Route dr body (hs_router h) = (x, r)" "serve_decision dp d path q b (h\<lparr>hs_router := r\<rparr>) c1 = (err, c', h')" for dr body x r d path q b c1
    using Route_ops [OF that(1)] serve_decision_ops [OF that(2)] by (rule rtranclp_trans)
  show ?thesis
    using assms two Route_ops [where h = h and dp = dp]
    by (auto simp: HandleRequest_def Let_def split: prod.splits option.splits sum.splits if_splits)
qed

subsection \<open>The middleware as runs\<close>

definition runs :: "('c, 'w, 'v, 'l) wiring \<Rightarrow> ('e \<Rightarrow> log_entry list \<Rightarrow> 'd \<Rightarrow> 'd) \<Rightarrow> ('c, 'w, 'v, 'l, 'd) sys_handler \<Rightarrow> bool" where
  "runs wi save hnd \<longleftrightarrow>
     (\<forall>p c err c' s'. hnd (lv_sys p) c = (err, c', s') \<longrightarrow> (live_step wi save)\<^sup>*\<^sup>* p (p\<lparr>lv_sys := s'\<rparr>))"

lemma runsI:
  "(\<And>p c err c' s'. hnd (lv_sys p) c = (err, c', s') \<Longrightarrow> (live_step wi save)\<^sup>*\<^sup>* p (p\<lparr>lv_sys := s'\<rparr>)) \<Longrightarrow> runs wi save hnd"
  by (simp add: runs_def)

lemma runsD: "runs wi save hnd \<Longrightarrow> hnd (lv_sys p) c = (err, c', s') \<Longrightarrow> (live_step wi save)\<^sup>*\<^sup>* p (p\<lparr>lv_sys := s'\<rparr>)"
  by (simp add: runs_def)

lemma ops_run: "(sys_op wi)\<^sup>*\<^sup>* s s' \<Longrightarrow> lv_sys p = s \<Longrightarrow> (live_step wi save)\<^sup>*\<^sup>* p (p\<lparr>lv_sys := s'\<rparr>)"
proof (induction rule: rtranclp_induct)
  case (step s1 s2)
  have "live_step wi save (p\<lparr>lv_sys := s1\<rparr>) ((p\<lparr>lv_sys := s1\<rparr>)\<lparr>lv_sys := s2\<rparr>)" by (rule live_step.shared) (simp add: step.hyps)
  with step.IH [OF step.prems] show ?case by simp
next
  case base
  then have "p\<lparr>lv_sys := s\<rparr> = p" by (cases p) simp
  then show ?case by simp
qed

lemma then_op:
  assumes "(live_step wi save)\<^sup>*\<^sup>* p (p\<lparr>lv_sys := s\<rparr>)" "(sys_op wi)\<^sup>*\<^sup>* s s'"
  shows "(live_step wi save)\<^sup>*\<^sup>* p (p\<lparr>lv_sys := s'\<rparr>)"
  using ops_run [OF assms(2), of "p\<lparr>lv_sys := s\<rparr>" save] assms(1) by simp

lemma handler_ops: "(h_op (wi_handler wi))\<^sup>*\<^sup>* (sy_h s) h \<Longrightarrow> (sys_op wi)\<^sup>*\<^sup>* s (s\<lparr>sy_h := h\<rparr>)"
proof (induction rule: rtranclp_induct)
  case (step h1 h2)
  have "sys_op wi (s\<lparr>sy_h := h1\<rparr>) ((s\<lparr>sy_h := h1\<rparr>)\<lparr>sy_h := h2\<rparr>)" by (rule sys_op.handler) (simp add: step.hyps)
  with step.IH show ?case by simp
qed simp

lemma ws_Handle_router: "ws_Handle dp x c = (err, c', x') \<Longrightarrow> wx_router x' = snd (router_TargetURL (wp_draw dp) (resolveWSBackend (rq_Path c)) (wx_router x))"
  by (auto simp: ws_Handle_def ws_connect_def Let_def split: prod.splits option.splits if_splits)

lemma dispatch_runs: "runs wi save (dispatch wi)"
proof -
  have "(sys_op wi)\<^sup>*\<^sup>* s s'" if "dispatch wi s c = (err, c', s')" for s c err c' s'
  proof (cases "IsWebSocketUpgrade c")
    case True
    with that obtain x where x: "ws_Handle (wi_ws wi) ((sy_ws s)\<lparr>wx_router := hs_router (sy_h s)\<rparr>) c = (err, c', x)"
        "s' = s\<lparr>sy_ws := x, sy_h := (sy_h s)\<lparr>hs_router := wx_router x\<rparr>\<rparr>"
      by (auto simp: dispatch_def on_ws_def split: prod.splits)
    have "h_op (wi_handler wi) (sy_h s) ((sy_h s)\<lparr>hs_router := wx_router x\<rparr>)"
      using ws_Handle_router [OF x(1)] h_op.target [of "wi_handler wi" "sy_h s"] by simp
    then have "sys_op wi (s\<lparr>sy_ws := x\<rparr>) ((s\<lparr>sy_ws := x\<rparr>)\<lparr>sy_h := (sy_h s)\<lparr>hs_router := wx_router x\<rparr>\<rparr>)"
      by (intro sys_op.handler) simp
    then have "sys_op wi (s\<lparr>sy_ws := x\<rparr>) s'" by (simp add: x(2))
    with sys_op.ws_own [of wi s x] show ?thesis by (metis converse_rtranclp_into_rtranclp r_into_rtranclp)
  next
    case False
    with that obtain h where "HandleRequest (wi_handler wi) (sy_h s) c = (err, c', h)" "s' = s\<lparr>sy_h := h\<rparr>"
      by (auto simp: dispatch_def on_handler_def split: prod.splits)
    then show ?thesis using handler_ops [OF HandleRequest_ops] by simp
  qed
  then show ?thesis unfolding runs_def using ops_run by blast
qed

lemma observed_runs: "runs wi save (observed wi re)"
proof (rule runsI, goal_cases)
  case (1 p c err c' s')
  note o = this
  obtain err1 c1 s1 where d: "dispatch wi (lv_sys p) c = (err1, c1, s1)" by (metis surj_pair)
  let ?s2 = "s1\<lparr>sy_metrics := observe_request c1 (re_met_finish re - re_met_start re) (sy_metrics s1)\<rparr>"
  obtain e where "s' = store_sink e (ring_sink e ?s2)"
    using o by (auto simp: observed_def AccessLogger_def MetricsMiddleware_def d Let_def)
  then have "(sys_op wi)\<^sup>*\<^sup>* s1 s'"
    using sys_op.counted [of wi s1] sys_op.ring_push [of wi ?s2 e] sys_op.log_push [of wi "ring_sink e ?s2" e]
    by (metis converse_rtranclp_into_rtranclp r_into_rtranclp)
  with runsD [OF dispatch_runs d] show ?case by (rule then_op)
qed

lemma then_run:
  assumes "(live_step wi save)\<^sup>*\<^sup>* p (p\<lparr>lv_sys := s\<rparr>)" "runs wi save hnd" "hnd s c = (err, c', s')"
  shows "(live_step wi save)\<^sup>*\<^sup>* p (p\<lparr>lv_sys := s'\<rparr>)"
  using rtranclp_trans [OF assms(1) runsD [OF assms(2), of "p\<lparr>lv_sys := s\<rparr>"]] assms(3) by simp

text \<open>A limiter's answer is two operations: \<open>GetLimiter\<close> under the map's lock, \<open>Allow\<close> under the limiter's.\<close>

lemma limit_runs:
  assumes "\<And>n r s ok s'. decide n r s = (ok, s') \<Longrightarrow> (sys_op wi)\<^sup>*\<^sup>* s s'" "runs wi save hnd"
  shows "runs wi save (RateLimit decide hnd)"
proof (rule runsI, goal_cases)
  case (1 p c err c' s')
  note r = this
  show ?case
  proof (cases "hnd (lv_sys p) c = (err, c', s')")
    case True
    with runsD [OF assms(2)] show ?thesis by simp
  next
    case False
    with r obtain n k ok s1 where d: "decide n k (lv_sys p) = (ok, s1)"
        "if ok then hnd s1 c = (err, c', s') else s' = s1"
      by (auto simp: RateLimit_def split: option.splits if_splits prod.splits bool.splits)
    from ops_run [OF assms(1) [OF d(1)] refl] have "(live_step wi save)\<^sup>*\<^sup>* p (p\<lparr>lv_sys := s1\<rparr>)" .
    with d(2) then_run [OF _ assms(2)] show ?thesis by (auto split: if_splits)
  qed
qed

lemma sys_allow_ops: "sys_allow wi n r s = (ok, s') \<Longrightarrow> (sys_op wi)\<^sup>*\<^sup>* s s'"
proof -
  assume a: "sys_allow wi n r s = (ok, s')"
  obtain l ls where g: "GetLimiter (wi_new_limiter wi) n r (sy_limiters s) = (l, ls)" by (metis surj_pair)
  have one: "sys_op wi s (s\<lparr>sy_limiters := ls\<rparr>)" using sys_op.limiter_get [of wi s n r] g by simp
  show ?thesis
  proof (cases l)
    case None
    with a g have "s' = s\<lparr>sy_limiters := ls\<rparr>" by (simp add: sys_allow_def memory_allow_def)
    with one show ?thesis by blast
  next
    case (Some k)
    then have "ls n = Some k" using g by (auto simp: GetLimiter_def Let_def split: if_splits option.splits)
    then have "sys_op wi (s\<lparr>sy_limiters := ls\<rparr>) ((s\<lparr>sy_limiters := ls\<rparr>)\<lparr>sy_limiters := ls(n \<mapsto> snd (wi_allow wi k))\<rparr>)"
      using sys_op.limiter_allow [of "s\<lparr>sy_limiters := ls\<rparr>" n k wi] by simp
    moreover have "s' = s\<lparr>sy_limiters := ls(n \<mapsto> snd (wi_allow wi k))\<rparr>"
      using a g Some by (auto simp: sys_allow_def memory_allow_def split: prod.splits)
    ultimately have "sys_op wi (s\<lparr>sy_limiters := ls\<rparr>) s'" by simp
    with one show ?thesis by (meson converse_rtranclp_into_rtranclp r_into_rtranclp)
  qed
qed

lemma sys_redis_ops: "sys_redis_Allow re n r s = (ok, s') \<Longrightarrow> (sys_op wi)\<^sup>*\<^sup>* s s'"
  using sys_op.redis_allow [of wi s "re_redis re" "re_redis_now re" n r]
  by (auto simp: sys_redis_Allow_def split: prod.splits)

lemma rate_limit_runs: "runs wi save hnd \<Longrightarrow> runs wi save (rate_limit_middleware cfg wi re hnd)"
  unfolding rate_limit_middleware_def RedisRateLimit_eq
  by (simp add: limit_runs sys_allow_ops sys_redis_ops)

text \<open>A reload is a query and an installation, with nothing between them if nobody else moves.\<close>

lemma reload_run:
  "(live_step wi save)\<^sup>*\<^sup>* p (p\<lparr>lv_sys := with_tokens (\<lambda>ts. snd (loadCache e ts)) (lv_sys p)\<rparr>)"
proof (cases "env_load e")
  case True
  let ?c = "cache_of (ts_db (the_store p))"
  let ?p1 = "p\<lparr>lv_loads := ?c # lv_loads p\<rparr>"
  let ?p2 = "?p1\<lparr>lv_sys := with_tokens (\<lambda>ts. ts\<lparr>ts_cache := ?c, ts_lastLoad := env_now e\<rparr>) (lv_sys ?p1), lv_loads := [] @ lv_loads p\<rparr>"
  have "live_step wi save p ?p1" by (rule live_step.load_query)
  moreover have "live_step wi save ?p1 ?p2" by (rule live_step.load_install) simp
  ultimately have "(live_step wi save)\<^sup>*\<^sup>* p ?p2" by (meson converse_rtranclp_into_rtranclp r_into_rtranclp)
  moreover have "?p2 = p\<lparr>lv_sys := with_tokens (\<lambda>ts. snd (loadCache e ts)) (lv_sys p)\<rparr>"
    using True by (cases p) (simp add: with_tokens_def loadCache_def the_store_def)
  ultimately show ?thesis by simp
next
  case False
  then have "p\<lparr>lv_sys := with_tokens (\<lambda>ts. snd (loadCache e ts)) (lv_sys p)\<rparr> = p"
    by (cases p) (simp add: with_tokens_def loadCache_def)
  then show ?thesis by simp
qed

lemma lookup_run: "sys_lookup H e t (lv_sys p) = (r, s') \<Longrightarrow> (live_step wi save)\<^sup>*\<^sup>* p (p\<lparr>lv_sys := s'\<rparr>)"
proof -
  assume l: "sys_lookup H e t (lv_sys p) = (r, s')"
  then have "s' = with_tokens (\<lambda>ts. snd (loadCache e ts)) (lv_sys p) \<or> s' = lv_sys p"
    by (auto simp: sys_lookup_def sqlite_Lookup_def with_tokens_def Let_def split: if_splits)
  moreover have "p\<lparr>lv_sys := lv_sys p\<rparr> = p" by simp
  ultimately show ?thesis using reload_run by (metis rtranclp.rtrancl_refl)
qed

lemma Auth_runs:
  assumes h: "runs wi save hnd"
  shows "runs wi save (Auth (sys_lookup H e) now hnd)"
proof (rule runsI, goal_cases)
  case (1 p c err c' s')
  note a = this
  show ?case
  proof (cases "s' = lv_sys p")
    case False
    with a obtain t r s1 where l: "sys_lookup H e t (lv_sys p) = (r, s1)" "s' = s1 \<or> (\<exists>c1. hnd s1 c1 = (err, c', s'))"
      by (auto simp: Auth_def split: prod.splits option.splits if_splits)
    from lookup_run [OF l(1)] l(2) then_run [OF _ h] show ?thesis by metis
  qed simp
qed

lemma gated_runs: "runs wi save (gated cfg wi re)"
  unfolding gated_def by (intro Auth_runs rate_limit_runs observed_runs)

lemma tracing_runs:
  assumes "runs wi save hnd"
  shows "runs wi save (tracing_Middleware te (\<lambda>sp s. s\<lparr>sy_spans := sy_spans s @ [sp]\<rparr>) hnd)"
proof (rule runsI, goal_cases)
  case (1 p c err c' s')
  note t = this
  obtain err1 c1 s1 where h: "hnd (lv_sys p) c = (err1, c1, s1)" by (metis surj_pair)
  then obtain sp where "s' = s1\<lparr>sy_spans := sy_spans s1 @ [sp]\<rparr>" using t by (auto simp: tracing_Middleware_def Let_def)
  with sys_op.span_end [of wi s1 sp] have "(sys_op wi)\<^sup>*\<^sup>* s1 s'" by blast
  with runsD [OF assms h] show ?case by (rule then_op)
qed

lemma RequestID_runs: "runs wi save hnd \<Longrightarrow> runs wi save (RequestID u hnd)"
  unfolding runs_def RequestID_def Let_def by blast

lemma proxyServer_runs: "runs wi save (proxyServer cfg wi re)"
  unfolding proxyServer_def by (simp add: RequestID_runs gated_runs tracing_runs)

subsection \<open>Token operations as runs\<close>

lemma statements_run:
  "\<exists>past. (live_step wi save)\<^sup>*\<^sup>* p (p\<lparr>lv_sys := with_tokens (\<lambda>ts. ts\<lparr>ts_db := fold exec_stmt qs (ts_db ts)\<rparr>) (lv_sys p), lv_past := past\<rparr>)"
proof (induction qs arbitrary: p)
  case Nil
  have "p\<lparr>lv_sys := with_tokens (\<lambda>ts. ts\<lparr>ts_db := fold exec_stmt [] (ts_db ts)\<rparr>) (lv_sys p), lv_past := lv_past p\<rparr> = p"
    by (cases p) (simp add: with_tokens_def)
  then show ?case by (intro exI [of _ "lv_past p"]) (simp only: rtranclp.rtrancl_refl)
next
  case (Cons q qs)
  let ?p = "p\<lparr>lv_sys := with_tokens (\<lambda>ts. ts\<lparr>ts_db := exec_stmt q (ts_db ts)\<rparr>) (lv_sys p), lv_past := exec_stmt q (ts_db (the_store p)) # lv_past p\<rparr>"
  obtain past where "(live_step wi save)\<^sup>*\<^sup>* ?p
      (?p\<lparr>lv_sys := with_tokens (\<lambda>ts. ts\<lparr>ts_db := fold exec_stmt qs (ts_db ts)\<rparr>) (lv_sys ?p), lv_past := past\<rparr>)"
    using Cons.IH [of ?p] by blast
  moreover have "live_step wi save p ?p" by (rule live_step.statement)
  ultimately have "(live_step wi save)\<^sup>*\<^sup>* p
      (p\<lparr>lv_sys := with_tokens (\<lambda>ts. ts\<lparr>ts_db := fold exec_stmt (q # qs) (ts_db ts)\<rparr>) (lv_sys p), lv_past := past\<rparr>)"
    by (simp add: with_tokens_def converse_rtranclp_into_rtranclp)
  then show ?case by blast
qed

lemma migrate_statements: "migrate_loop H e k ts n db = (n', db', err) \<Longrightarrow> \<exists>qs. db' = fold exec_stmt qs db"
proof (induction H e k ts n db rule: migrate_loop.induct)
  case (1 H e k n db)
  then show ?case by (auto intro: exI [of _ "[]"])
next
  case (2 H e k t ts n db)
  have stop: "\<exists>qs. db = fold exec_stmt qs db" by (rule exI [of _ "[]"]) simp
  show ?case
  proof (cases "env_query (e k) \<and> \<not> 0 < length (filter (\<lambda>r. tr_name r = tkc_Name t) (db_rows db)) \<and> env_exec (e k)")
    case True
    show ?thesis
    proof (cases "db_insert (migrated_row H (env_now (e k)) t) db")
      case None
      with True 2(3) stop show ?thesis by auto
    next
      case (Some db1)
      with True 2(3) have m: "migrate_loop H e (Suc k) ts (Suc n) db1 = (n', db', err)" by simp
      have "\<exists>qs. db' = fold exec_stmt qs db1" using 2(2) [OF _ _ _ m] True Some by simp
      then obtain qs where "db' = fold exec_stmt qs db1" by blast
      with Some have "db' = fold exec_stmt (InsertRow (migrated_row H (env_now (e k)) t) # qs) db" by simp
      then show ?thesis by blast
    qed
  next
    case False
    with 2(1,3) stop show ?thesis by (auto split: if_splits)
  qed
qed

definition no_load :: env where
  "no_load = \<lparr>env_now = 0, env_random = None, env_query = False, env_exec = False, env_load = False\<rparr>"

lemma op_statements: "\<exists>qs e. store_step H op ts = snd (loadCache e (ts\<lparr>ts_db := fold exec_stmt qs (ts_db ts)\<rparr>))"
proof -
  have id: "ts = snd (loadCache no_load (ts\<lparr>ts_db := fold exec_stmt [] (ts_db ts)\<rparr>))" by (simp add: loadCache_def no_load_def)
  have one: "snd (loadCache e (ts\<lparr>ts_db := exec_stmt q (ts_db ts)\<rparr>)) = snd (loadCache e (ts\<lparr>ts_db := fold exec_stmt [q] (ts_db ts)\<rparr>))" for e q
    by simp
  show ?thesis
  proof (cases op)
    case (SoCreate e req)
    have "store_step H op ts = ts \<or>
        (\<exists>row db. db_insert row (ts_db ts) = Some db \<and> store_step H op ts = snd (loadCache e (ts\<lparr>ts_db := db\<rparr>)))"
      unfolding SoCreate store_step.simps store_Create_def Let_def by (auto split: option.split)
    then have "store_step H op ts = ts \<or> (\<exists>row. store_step H op ts = snd (loadCache e (ts\<lparr>ts_db := exec_stmt (InsertRow row) (ts_db ts)\<rparr>)))"
      by (metis exec_stmt.simps(1) option.simps(5))
    with id one show ?thesis by metis
  next
    case (SoUpdate e i req)
    have "store_step H op ts = ts \<or> (\<exists>x. store_step H op ts = snd (loadCache e (ts\<lparr>ts_db := exec_stmt (SetFields i x (env_now e)) (ts_db ts)\<rparr>)))"
      unfolding SoUpdate store_step.simps store_Update_def Let_def by (auto split: sum.split option.split)
    with id one show ?thesis by metis
  next
    case (SoDelete e i)
    have "store_step H op ts = ts \<or> store_step H op ts = snd (loadCache e (ts\<lparr>ts_db := exec_stmt (DeleteRow i) (ts_db ts)\<rparr>))"
      unfolding SoDelete store_step.simps store_Delete_def Let_def by (auto split: if_split)
    with id one show ?thesis by metis
  next
    case (SoRotate e i)
    have "store_step H op ts = ts \<or> (\<exists>h pre. store_step H op ts = snd (loadCache e (ts\<lparr>ts_db := exec_stmt (SetHash i h pre (env_now e)) (ts_db ts)\<rparr>)))"
      unfolding SoRotate store_step.simps store_Rotate_def Let_def by (auto split: sum.split option.split)
    with id one show ?thesis by metis
  next
    case (SoMigrate e el tks)
    obtain n db err where m: "migrate_loop H e 0 tks 0 (ts_db ts) = (n, db, err)" by (metis prod_cases3)
    from migrate_statements [OF m] obtain qs where "db = fold exec_stmt qs (ts_db ts)" by blast
    then have "store_step H op ts = snd (loadCache (if err = None \<and> 0 < n then el else no_load) (ts\<lparr>ts_db := fold exec_stmt qs (ts_db ts)\<rparr>))"
      using m by (auto simp: SoMigrate MigrateConfigTokens_def loadCache_def no_load_def split: option.split)
    then show ?thesis by blast
  next
    case (SoLookup e t)
    have "store_step H op ts = ts \<or> store_step H op ts = snd (loadCache e (ts\<lparr>ts_db := fold exec_stmt [] (ts_db ts)\<rparr>))"
      by (simp add: SoLookup sqlite_Lookup_def Let_def)
    with id show ?thesis by metis
  qed
qed

lemma token_op_run:
  "\<exists>past. (live_step wi save)\<^sup>*\<^sup>* p (p\<lparr>lv_sys := with_tokens (store_step H op) (lv_sys p), lv_past := past\<rparr>)"
proof -
  obtain qs e where o: "store_step H op (the_store p) =
      snd (loadCache e ((the_store p)\<lparr>ts_db := fold exec_stmt qs (ts_db (the_store p))\<rparr>))" using op_statements by blast
  obtain past where r: "(live_step wi save)\<^sup>*\<^sup>* p (p\<lparr>lv_sys := with_tokens (\<lambda>ts. ts\<lparr>ts_db := fold exec_stmt qs (ts_db ts)\<rparr>) (lv_sys p), lv_past := past\<rparr>)"
    using statements_run by blast
  let ?p = "p\<lparr>lv_sys := with_tokens (\<lambda>ts. ts\<lparr>ts_db := fold exec_stmt qs (ts_db ts)\<rparr>) (lv_sys p), lv_past := past\<rparr>"
  have eq: "?p\<lparr>lv_sys := with_tokens (\<lambda>ts. snd (loadCache e ts)) (lv_sys ?p)\<rparr> = p\<lparr>lv_sys := with_tokens (store_step H op) (lv_sys p), lv_past := past\<rparr>"
    using o by (cases p) (simp add: with_tokens_def the_store_def)
  have "(live_step wi save)\<^sup>*\<^sup>* ?p (?p\<lparr>lv_sys := with_tokens (\<lambda>ts. snd (loadCache e ts)) (lv_sys ?p)\<rparr>)" by (rule reload_run)
  from rtranclp_trans [OF r this] show ?thesis unfolding eq by (rule exI)
qed

lemma sys_step_run:
  assumes "sys_step cfg wi save (lv_sys p) s'"
  shows "\<exists>past. (live_step wi save)\<^sup>*\<^sup>* p (p\<lparr>lv_sys := s', lv_past := past\<rparr>)"
proof -
  have same: "p\<lparr>lv_sys := s', lv_past := lv_past p\<rparr> = p\<lparr>lv_sys := s'\<rparr>" by (cases p) simp
  have "?thesis" if "(live_step wi save)\<^sup>*\<^sup>* p (p\<lparr>lv_sys := s'\<rparr>)" using that same by metis
  note keep = this
  from assms show ?thesis
  proof cases
    case (request re c)
    obtain err c' s where x: "proxyServer cfg wi re (lv_sys p) c = (err, c', s)" by (metis surj_pair)
    with request have "s' = s" by (simp add: serve_def)
    with runsD [OF proxyServer_runs x] keep show ?thesis by blast
  next
    case (log_write ev w)
    with live_step.writes [of ev save p w wi] keep show ?thesis by blast
  next
    case (token_op op)
    with token_op_run [of wi save p "wi_hash wi" op] show ?thesis by (simp add: with_tokens_def)
  next
    case (head_update h)
    have "sys_op wi (lv_sys p) s'" unfolding head_update by (rule sys_op.handler) (rule h_op.set_head)
    with live_step.shared keep show ?thesis by blast
  qed
qed

lemma db_get_update: "(\<And>r. tr_id (g r) = tr_id r) \<Longrightarrow> db_get i (db_update i g db) = map_option g (db_get i db)"
proof -
  assume g: "\<And>r. tr_id (g r) = tr_id r"
  have "find (\<lambda>r. tr_id r = i) (map (\<lambda>r. if tr_id r = i then g r else r) rows) = map_option g (find (\<lambda>r. tr_id r = i) rows)" for rows
    by (induction rows) (simp_all add: g)
  then show ?thesis by (simp add: db_get_def db_update_def)
qed

subsection \<open>Properties\<close>


text \<open>C13: The process as the earlier theorems run it, whole requests and whole token operations one after
  another, is one of these interleavings: each request is a run of locked operations, each token
  operation a run of statements and a reload, and nothing else moves in between.\<close>

theorem requests_refine_locks:
  assumes "(sys_step cfg wi save)\<^sup>*\<^sup>* s s'"
  shows "\<exists>past. (live_step wi save)\<^sup>*\<^sup>* (live_of s) \<lparr>lv_sys = s', lv_loads = [], lv_past = past\<rparr>"
  using assms
proof (induction rule: rtranclp_induct)
  case base
  then show ?case by (auto simp: live_of_def)
next
  case (step s1 s2)
  then obtain past where r: "(live_step wi save)\<^sup>*\<^sup>* (live_of s) \<lparr>lv_sys = s1, lv_loads = [], lv_past = past\<rparr>" by blast
  obtain past' where "(live_step wi save)\<^sup>*\<^sup>* \<lparr>lv_sys = s1, lv_loads = [], lv_past = past\<rparr> \<lparr>lv_sys = s2, lv_loads = [], lv_past = past'\<rparr>"
    using sys_step_run [of cfg wi save "\<lparr>lv_sys = s1, lv_loads = [], lv_past = past\<rparr>" s2] step.hyps(2) by auto
  with r show ?case by (meson rtranclp_trans)
qed

text \<open>C14: A reload that overtakes a deletion undoes it. While a lookup has read the table and not yet
  installed what it read, a token is deleted; the deletion succeeds and reloads the cache itself;
  the older reload then installs its table. The token is gone from the table, its deletion was
  answered with success, and it is accepted until the cache has lived its time again.\<close>

theorem overtaken_reload:
  assumes "db_wf (ts_db (the_store p))" "r \<in> set (db_rows (ts_db (the_store p)))" "store_Delete e (tr_id r) (the_store p) = (None, ts)"
    "hashToken H t = tr_hash r" "env_now e' - now \<le> ts_cacheTTL (the_store p)"
  shows "\<exists>p1 p2 p3. live_step wi save p p1 \<and> the_store p1 = the_store p \<and> (live_step wi save)\<^sup>*\<^sup>* p1 p2 \<and> the_store p2 = ts
     \<and> live_step wi save p2 p3 \<and> ts_db (the_store p3) = ts_db ts \<and> ts_lastLoad (the_store p3) = now
     \<and> stored H (the_store p3) t = None \<and> fst (sqlite_Lookup H e' t (the_store p3)) = Some (info_of_row r)"
proof -
  let ?c = "cache_of (ts_db (the_store p))"
  let ?p1 = "p\<lparr>lv_loads := ?c # lv_loads p\<rparr>"
  obtain past where run: "(live_step wi save)\<^sup>*\<^sup>* ?p1 (?p1\<lparr>lv_sys := with_tokens (store_step H (SoDelete e (tr_id r))) (lv_sys ?p1), lv_past := past\<rparr>)"
    using token_op_run by blast
  let ?p2 = "?p1\<lparr>lv_sys := with_tokens (store_step H (SoDelete e (tr_id r))) (lv_sys ?p1), lv_past := past\<rparr>"
  have ts: "the_store ?p2 = ts" using assms(3) by (simp add: the_store_def with_tokens_def)
  let ?p3 = "?p2\<lparr>lv_sys := with_tokens (\<lambda>ts. ts\<lparr>ts_cache := ?c, ts_lastLoad := now\<rparr>) (lv_sys ?p2), lv_loads := [] @ lv_loads p\<rparr>"
  have s3: "the_store ?p3 = ts\<lparr>ts_cache := ?c, ts_lastLoad := now\<rparr>" using ts by (simp add: the_store_def with_tokens_def)
  have gone: "ts_db ts = db_delete (tr_id r) (ts_db (the_store p))" "ts_cacheTTL ts = ts_cacheTTL (the_store p)"
    using assms(3) by (auto simp: store_Delete_def loadCache_def Let_def split: if_splits)
  have wf: "db_wf (ts_db ts)" unfolding gone by (rule db_delete_wf [OF assms(1)])
  have none: "row_with_hash (tr_hash r) (ts_db ts) = None"
  proof (rule ccontr)
    assume "\<not> ?thesis"
    then obtain x where "x \<in> set (db_rows (ts_db ts))" "tr_hash x = tr_hash r" using row_with_hash_iff [OF wf] by blast
    then show False using db_wf_unique(2) [OF assms(1) _ assms(2), of x] by (auto simp: gone db_delete_def)
  qed
  have "row_with_hash (tr_hash r) (ts_db (the_store p)) = Some r" using row_with_hash_iff [OF assms(1)] assms(2) by blast
  then have known: "?c (tr_hash r) = Some (info_of_row r)" using cache_of_row [OF assms(1)] by simp
  have "live_step wi save p ?p1" by (rule live_step.load_query)
  moreover have "live_step wi save ?p2 ?p3" by (rule live_step.load_install) simp
  moreover have "the_store ?p1 = the_store p" by (simp add: the_store_def)
  moreover have "stored H (the_store ?p3) t = None" unfolding s3 using none assms(4) by (simp add: stored_def)
  moreover have "fst (sqlite_Lookup H e' t (the_store ?p3)) = Some (info_of_row r)"
    unfolding s3 using assms(4,5) known gone(2) by (simp add: sqlite_Lookup_def Let_def)
  moreover have "ts_db (the_store ?p3) = ts_db ts" "ts_lastLoad (the_store ?p3) = now" unfolding s3 by simp_all
  ultimately show ?thesis using run ts by blast
qed

text \<open>C15: An update writes back every field as it read it, the read and the write are two statements, and
  so an update that does not touch \<open>enabled\<close> undoes a concurrent one that turned the token off: the
  administrator who disabled the token was told it is disabled, and the table has it enabled.\<close>

theorem overtaken_update:
  assumes "db_wf (ts_db (the_store p))" "store_Get e2 i (the_store p) = Inr (Some old)" "tk_Enabled old" "up_Enabled req2 = None"
    "store_Update e1 i req1 (the_store p) = (Inr (Some told), ts)" "up_Enabled req1 = Some False"
  shows "\<exists>p1 p2. (live_step wi save)\<^sup>*\<^sup>* p p1 \<and> the_store p1 = ts \<and> \<not> tk_Enabled told \<and> live_step wi save p1 p2
     \<and> ts_db (the_store p2) = exec_stmt (SetFields i (apply_update req2 old) (env_now e2)) (ts_db ts)
     \<and> (\<exists>r. db_get i (ts_db ts) = Some r \<and> \<not> tr_enabled r) \<and> (\<exists>r. db_get i (ts_db (the_store p2)) = Some r \<and> tr_enabled r)"
proof -
  obtain past where run: "(live_step wi save)\<^sup>*\<^sup>* p (p\<lparr>lv_sys := with_tokens (store_step id (SoUpdate e1 i req1)) (lv_sys p), lv_past := past\<rparr>)"
    using token_op_run by blast
  let ?p1 = "p\<lparr>lv_sys := with_tokens (store_step id (SoUpdate e1 i req1)) (lv_sys p), lv_past := past\<rparr>"
  let ?q = "SetFields i (apply_update req2 old) (env_now e2)"
  let ?p2 = "?p1\<lparr>lv_sys := with_tokens (\<lambda>ts. ts\<lparr>ts_db := exec_stmt ?q (ts_db ts)\<rparr>) (lv_sys ?p1), lv_past := exec_stmt ?q (ts_db (the_store ?p1)) # lv_past ?p1\<rparr>"
  have ts: "the_store ?p1 = ts" using assms(5) by (simp add: the_store_def with_tokens_def)
  have db: "ts_db (the_store ?p2) = exec_stmt ?q (ts_db ts)" using ts by (simp add: the_store_def with_tokens_def)
  obtain r where r: "db_get i (ts_db (the_store p)) = Some r" "old = scanToken r" using Get_Some [OF assms(2)] by blast
  obtain x f where u: "store_Get e1 i (the_store p) = Inr (Some x)" "told = (apply_update req1 x)\<lparr>tk_UpdatedAt := env_now e1\<rparr>"
      "ts_db ts = db_update i f (ts_db (the_store p))" "\<And>r. tr_id (f r) = tr_id r" "\<And>r. tr_enabled (f r) = tk_Enabled (apply_update req1 x)"
    using assms(5) by (fastforce simp: store_Update_def loadCache_def Let_def split: sum.splits option.splits if_splits)
  have one: "db_get i (ts_db ts) = Some (f r)" using db_get_update [of f] u(3,4) r(1) by simp
  have "\<not> tr_enabled (f r)" "\<not> tk_Enabled told" using u(2,5) assms(6) by (simp_all add: apply_update_def)
  moreover have "\<exists>r. db_get i (exec_stmt ?q (ts_db ts)) = Some r \<and> tr_enabled r"
    using one assms(3,4) by (simp add: db_get_update apply_update_def)
  moreover have "live_step wi save ?p1 ?p2" by (rule live_step.statement)
  ultimately show ?thesis using run ts db one by (intro exI [of _ ?p1] exI [of _ ?p2]) (simp del: exec_stmt.simps)
qed

subsection \<open>On the small process\<close>

abbreviation sample_serve :: "(unit, unit, unit, nat, unit) sys \<Rightarrow> (unit, unit, unit, nat, unit) sys" where
  "sample_serve s \<equiv> serve start_config (sample_wiring True) sample_req (call_with ''/4142/v1'') s"

abbreviation sample_save :: "unit \<Rightarrow> log_entry list \<Rightarrow> unit \<Rightarrow> unit" where
  "sample_save \<equiv> \<lambda>e es d. d"

theorem requests_refine_locks_witness:
  "\<exists>past. (live_step (sample_wiring True) sample_save)\<^sup>*\<^sup>* (live_of sample_sys)
     \<lparr>lv_sys = sample_serve (sample_serve sample_sys), lv_loads = [], lv_past = past\<rparr>"
proof -
  have "(sys_step start_config (sample_wiring True) sample_save)\<^sup>*\<^sup>* sample_sys (sample_serve (sample_serve sample_sys))"
    by (rule rtranclp.rtrancl_into_rtrancl [OF r_into_rtranclp]) (rule sys_step.request)+
  then show ?thesis by (rule requests_refine_locks)
qed


lemma sample_store: "the_store (live_of sample_sys) = one_store" "db_rows (ts_db one_store) = [one_row]" "tr_id one_row = 1"
  by (simp_all add: the_store_def live_of_def sample_sys_def one_store_eq one_row_def)

theorem overtaken_reload_witness:
  "\<exists>p. (live_step (sample_wiring True) sample_save)\<^sup>*\<^sup>* (live_of sample_sys) p \<and> db_rows (ts_db (the_store p)) = []
     \<and> fst (sqlite_Lookup id (fresh_env 9 []) ''4142'' (the_store p)) = Some (info_of_row one_row)"
proof -
  let ?p = "live_of sample_sys"
  obtain ts where d: "store_Delete (fresh_env 7 []) (tr_id one_row) (the_store ?p) = (None, ts)" "db_rows (ts_db ts) = []"
    by (simp add: store_Delete_def sample_store one_store_eq fresh_env_def one_row_def loadCache_def db_delete_def Let_def)
  have w: "db_wf (ts_db (the_store ?p))" "one_row \<in> set (db_rows (ts_db (the_store ?p)))"
      "hashToken id ''4142'' = tr_hash one_row" "env_now (fresh_env 9 []) - 8 \<le> ts_cacheTTL (the_store ?p)"
    using one_store_wf(2) by (simp_all add: sample_store hashToken_def hex_AB one_row_def) (simp add: one_store_eq fresh_env_def)
  from overtaken_reload [OF w(1,2) d(1) w(3,4), of "sample_wiring True" sample_save]
  obtain p1 p2 p3 where "live_step (sample_wiring True) sample_save ?p p1" "(live_step (sample_wiring True) sample_save)\<^sup>*\<^sup>* p1 p2"
      "live_step (sample_wiring True) sample_save p2 p3" "ts_db (the_store p3) = ts_db ts"
      "fst (sqlite_Lookup id (fresh_env 9 []) ''4142'' (the_store p3)) = Some (info_of_row one_row)" by blast
  with d(2) show ?thesis by (intro exI [of _ p3]) (simp add: converse_rtranclp_into_rtranclp rtranclp.rtrancl_into_rtrancl)
qed

definition turn_off :: update_request where
  "turn_off = \<lparr>up_Name = None, up_Enabled = Some False, up_RateLimit = None, up_Scope = None, up_AllowedMethods = None, up_ExpiresAt = None\<rparr>"

theorem overtaken_update_witness:
  "\<exists>p. (live_step (sample_wiring True) sample_save)\<^sup>*\<^sup>* (live_of sample_sys) p
     \<and> (\<exists>r. db_get 1 (ts_db (the_store p)) = Some r \<and> tr_enabled r)"
proof -
  let ?p = "live_of sample_sys" and ?req = "turn_off\<lparr>up_Name := Some ''x'', up_Enabled := None\<rparr>"
  have g: "store_Get (fresh_env 7 []) 1 (the_store ?p) = Inr (Some (scanToken one_row))"
    by (simp add: store_Get_def sample_store db_get_def fresh_env_def)
  obtain tk ts where u: "store_Update (fresh_env 7 []) 1 turn_off (the_store ?p) = (Inr (Some tk), ts)"
    using g by (simp add: store_Update_def fresh_env_def Let_def)
  have w: "db_wf (ts_db (the_store ?p))" "tk_Enabled (scanToken one_row)" "up_Enabled ?req = None" "up_Enabled turn_off = Some False"
    using one_store_wf(2) by (simp_all add: sample_store scanToken_def one_row_def turn_off_def)
  from overtaken_update [OF w(1) g w(2,3) u w(4), of "sample_wiring True" sample_save]
  obtain p1 p2 where "(live_step (sample_wiring True) sample_save)\<^sup>*\<^sup>* ?p p1" "live_step (sample_wiring True) sample_save p1 p2"
      "\<exists>r. db_get 1 (ts_db (the_store p2)) = Some r \<and> tr_enabled r" by blast
  then show ?thesis by (meson rtranclp.rtrancl_into_rtrancl)
qed

end
