(* ===== verification/Streaming.thy ===== *)
theory Streaming
  imports Process
begin

text \<open>
  \<open>internal/proxy/handler.go\<close> at the grain of \<open>http.ResponseWriter\<close>: a backend's answer is a status, headers
  and the pieces its body arrives in, and it may break off; a client may stop taking bytes.
  \<open>httputil.ReverseProxy\<close> writes to echo's response on the direct path and to \<open>bufferedResponseWriter\<close> on
  the retry path. When the copy fails it panics with \<open>http.ErrAbortHandler\<close>, which unwinds the
  middleware and ends the connection: \<open>Aborted\<close>. \<open>Handler\<close> is the case in which every answer is whole.
\<close>

record stream_resp =
  sr_Status :: int
  sr_Header :: headers
  sr_Chunks :: "string list"
  sr_Broken :: bool

datatype finish = Returned "herror option" | Aborted

type_synonym 's stream_handler = "'s \<Rightarrow> ctx \<Rightarrow> finish \<times> ctx \<times> 's"

definition returns :: "'s handler \<Rightarrow> 's stream_handler" where
  "returns f s c = (case f s c of (err, c', s') \<Rightarrow> (Returned err, c', s'))"

text \<open>\<open>st_taken\<close> is how many bytes of a response the client takes, \<open>None\<close> for all. The exchange of \<open>st_deps\<close> is not used.\<close>

record ('c, 'w) stream_deps =
  st_deps :: "('c, 'w) deps"
  st_exchange :: "out_request \<Rightarrow> 'w \<Rightarrow> stream_resp option \<times> int \<times> 'w"
  st_taken :: "'w \<Rightarrow> nat option"

subsection \<open>Response writers\<close>

record buffered =
  bf_header :: headers
  bf_body :: string
  bf_statusCode :: int

definition newBufferedResponseWriter :: buffered where
  "newBufferedResponseWriter = \<lparr>bf_header = Map.empty, bf_body = [], bf_statusCode = 200\<rparr>"

definition bf_Header :: "(headers \<Rightarrow> headers) \<Rightarrow> buffered \<Rightarrow> buffered" where
  "bf_Header f w = w\<lparr>bf_header := f (bf_header w)\<rparr>"

definition bf_Write :: "string \<Rightarrow> buffered \<Rightarrow> buffered" where
  "bf_Write b w = w\<lparr>bf_body := bf_body w @ b\<rparr>"

definition bf_WriteHeader :: "int \<Rightarrow> buffered \<Rightarrow> buffered" where
  "bf_WriteHeader code w = w\<lparr>bf_statusCode := code\<rparr>"

definition as_upstream :: "buffered \<Rightarrow> upstream" where
  "as_upstream w = \<lparr>us_Status = bf_statusCode w, us_Header = bf_header w, us_Body = bf_body w\<rparr>"

definition echo_Header :: "(headers \<Rightarrow> headers) \<Rightarrow> ctx \<Rightarrow> ctx" where
  "echo_Header f c = c\<lparr>rs_Header := f (rs_Header c)\<rparr>"

definition echo_upstream :: "ctx \<Rightarrow> upstream" where
  "echo_upstream c = \<lparr>us_Status = rs_Status c, us_Header = rs_Header c, us_Body = rs_Body c\<rparr>"

text \<open>The copy of a body: it ends when the pieces do or when a write is cut short.\<close>

fun copy_body :: "(string \<Rightarrow> 'r \<Rightarrow> 'r) \<Rightarrow> nat option \<Rightarrow> string list \<Rightarrow> 'r \<Rightarrow> bool \<times> 'r" where
  "copy_body W t [] r = (True, r)"
| "copy_body W None (b # bs) r = copy_body W None bs (W b r)"
| "copy_body W (Some n) (b # bs) r =
     (if length b \<le> n then copy_body W (Some (n - length b)) bs (W b r) else (False, W (take n b) r))"

text \<open>The answer to the client: a transport error goes to \<open>ErrorHandler\<close>; the first component is false for a
  failed copy.\<close>

definition rp_serve ::
  "((headers \<Rightarrow> headers) \<Rightarrow> 'r \<Rightarrow> 'r) \<Rightarrow> (int \<Rightarrow> 'r \<Rightarrow> 'r) \<Rightarrow> (string \<Rightarrow> 'r \<Rightarrow> 'r) \<Rightarrow> nat option \<Rightarrow> stream_resp option \<Rightarrow> 'r \<Rightarrow> bool \<times> 'r" where
  "rp_serve Hd WH W taken answer r =
     (case answer of
        None \<Rightarrow> (True, W unavailable_body (WH 502 r))
      | Some resp \<Rightarrow>
          (case copy_body W taken (sr_Chunks resp) (WH (sr_Status resp) (Hd (\<lambda>h. copy_headers h (sr_Header resp)) r)) of
             (ok, r') \<Rightarrow> (ok \<and> \<not> sr_Broken resp, r')))"

text \<open>What the reverse proxy relies on in a response writer, which shows status, headers and body.\<close>

locale response_writer =
  fixes Hd :: "(headers \<Rightarrow> headers) \<Rightarrow> 'r \<Rightarrow> 'r"
    and WH :: "int \<Rightarrow> 'r \<Rightarrow> 'r"
    and W :: "string \<Rightarrow> 'r \<Rightarrow> 'r"
    and shows_as :: "'r \<Rightarrow> upstream"
    and fresh :: "'r \<Rightarrow> bool"
    and begun :: "'r \<Rightarrow> bool"
  assumes headers_law: "fresh r \<Longrightarrow> fresh (Hd f r) \<and> shows_as (Hd f r) = (shows_as r)\<lparr>us_Header := f (us_Header (shows_as r))\<rparr>"
    and status_law: "fresh r \<Longrightarrow> begun (WH n r) \<and> shows_as (WH n r) = (shows_as r)\<lparr>us_Status := n\<rparr>"
    and write_law: "begun r \<Longrightarrow> begun (W b r) \<and> shows_as (W b r) = (shows_as r)\<lparr>us_Body := us_Body (shows_as r) @ b\<rparr>"
begin

lemma copy_shows:
  "begun r \<Longrightarrow> copy_body W t bs r = (ok, r') \<Longrightarrow>
     shows_as r' = (shows_as r)\<lparr>us_Body := us_Body (shows_as r) @ (case t of None \<Rightarrow> concat bs | Some n \<Rightarrow> take n (concat bs))\<rparr>
     \<and> ok = (case t of None \<Rightarrow> True | Some n \<Rightarrow> length (concat bs) \<le> n)"
proof (induction bs arbitrary: t r)
  case Nil
  then show ?case by (auto split: option.split)
next
  case (Cons b bs)
  note w = write_law [OF Cons.prems(1), of b] write_law [OF Cons.prems(1)]
  show ?case
  proof (cases t)
    case None
    with Cons.IH [of "W b r" None] Cons.prems(2) w(1) show ?thesis by simp
  next
    case (Some n)
    with Cons.IH [of "W b r" "Some (n - length b)"] Cons.prems(2) w show ?thesis by (auto split: if_splits)
  qed
qed

lemma serve_shows:
  assumes "fresh r" "rp_serve Hd WH W t (Some resp) r = (ok, r')"
  shows "shows_as r' =
      \<lparr>us_Status = sr_Status resp, us_Header = copy_headers (us_Header (shows_as r)) (sr_Header resp),
       us_Body = us_Body (shows_as r) @ (case t of None \<Rightarrow> concat (sr_Chunks resp) | Some n \<Rightarrow> take n (concat (sr_Chunks resp)))\<rparr>"
    "ok \<longleftrightarrow> \<not> sr_Broken resp \<and> (case t of None \<Rightarrow> True | Some n \<Rightarrow> length (concat (sr_Chunks resp)) \<le> n)"
  using assms(2) headers_law [OF assms(1)] status_law copy_shows
  by (fastforce simp: rp_serve_def split: prod.splits)+

end

interpretation buf: response_writer bf_Header bf_WriteHeader bf_Write as_upstream "\<lambda>_. True" "\<lambda>_. True"
  by unfold_locales (simp_all add: bf_Header_def bf_WriteHeader_def bf_Write_def as_upstream_def)

interpretation ech: response_writer echo_Header write_header write_body echo_upstream "\<lambda>c. \<not> rs_Committed c" rs_Committed
  by unfold_locales (simp_all add: echo_Header_def write_header_def write_body_def echo_upstream_def Let_def)

subsection \<open>The direct path\<close>

text \<open>\<open>ModifyResponse\<close> reads a cacheable body whole. If that fails the body stays closed, and the copy that
  follows fails before its first byte.\<close>

definition modify_stream ::
  "('c, 'w) deps \<Rightarrow> ctx \<Rightarrow> route_decision \<Rightarrow> int \<Rightarrow> string \<Rightarrow> bool \<Rightarrow> stream_resp \<Rightarrow> 'c \<Rightarrow> stream_resp \<times> 'c" where
  "modify_stream dp c decision height body shouldCache resp cache =
     (let reqID = stringFromCtx (cv_RequestID c);
          h = (if reqID \<noteq> [] then hdr_set (sr_Header resp) HeaderXRequestID reqID else sr_Header resp);
          h = hdr_set h HeaderXDABackend (rd_Backend decision)
      in if shouldCache \<and> sr_Status resp = 200 then
           (if sr_Broken resp then (resp\<lparr>sr_Header := h, sr_Chunks := []\<rparr>, cache)
            else let respBody = concat (sr_Chunks resp)
                 in if \<not> isPrunedError (sr_Status resp) respBody then
                      (resp\<lparr>sr_Header := hdr_set h HeaderXCacheStatus ''MISS'', sr_Chunks := [respBody]\<rparr>,
                       dp_set dp (rd_Method decision) height body respBody cache)
                    else (resp\<lparr>sr_Header := h, sr_Chunks := [respBody]\<rparr>, cache))
         else (resp\<lparr>sr_Header := h\<rparr>, cache))"

text \<open>The request goes out; an aborted copy leaves no latency behind.\<close>

definition send_out :: "out_request \<Rightarrow> 'w \<Rightarrow> ('c, 'w) hstate \<Rightarrow> ('c, 'w) hstate" where
  "send_out out w s = s\<lparr>hs_world := w, hs_sent := hs_sent s @ [out]\<rparr>"

definition direct_stream ::
  "('c, 'w) stream_deps \<Rightarrow> route_decision \<Rightarrow> target \<Rightarrow> string \<Rightarrow> string \<Rightarrow> string option \<Rightarrow> int \<Rightarrow> bool \<Rightarrow> ('c, 'w) hstate stream_handler" where
  "direct_stream sd decision t path rawQuery body height shouldCache s c =
     (let out = director t path rawQuery body c;
          b = (case body of Some b \<Rightarrow> b | None \<Rightarrow> [])
      in case st_exchange sd out (hs_world s) of (answer, elapsed, w) \<Rightarrow>
        let s = send_out out w s
        in case (case answer of
                   None \<Rightarrow> (None, hs_cache s)
                 | Some resp \<Rightarrow> (case modify_stream (st_deps sd) c decision height b shouldCache resp (hs_cache s) of (r, k) \<Rightarrow> (Some r, k))) of
             (answer, cache') \<Rightarrow>
               let s = s\<lparr>hs_cache := cache'\<rparr>
               in case rp_serve echo_Header write_header write_body (st_taken sd w) answer c of (ok, c') \<Rightarrow>
                    if ok
                    then (Returned None, c',
                          s\<lparr>hs_router := router_RecordLatency (rd_Backend decision) (rd_TargetURL decision) elapsed (hs_router s)\<rparr>)
                    else (Aborted, c', s))"

subsection \<open>The retry path\<close>

text \<open>\<open>None\<close> when the copy into the buffer fails.\<close>

definition try_stream ::
  "('c, 'w) stream_deps \<Rightarrow> ctx \<Rightarrow> target \<Rightarrow> string \<Rightarrow> string \<Rightarrow> string option \<Rightarrow> backend \<Rightarrow> string \<Rightarrow> ('c, 'w) hstate \<Rightarrow>
   upstream option \<times> ('c, 'w) hstate" where
  "try_stream sd c t path rawQuery body backend endpointURL s =
     (let out = director t path rawQuery body c
      in case st_exchange sd out (hs_world s) of (answer, elapsed, w) \<Rightarrow>
        let s = send_out out w s
        in case rp_serve bf_Header bf_WriteHeader bf_Write None answer newBufferedResponseWriter of (ok, buf) \<Rightarrow>
             if ok then (Some (as_upstream buf), s\<lparr>hs_router := router_RecordLatency backend endpointURL elapsed (hs_router s)\<rparr>)
             else (None, s))"

fun try_pool_stream ::
  "('c, 'w) stream_deps \<Rightarrow> ctx \<Rightarrow> string \<Rightarrow> string \<Rightarrow> string option \<Rightarrow> backend \<Rightarrow> string option \<Rightarrow> endpoints \<Rightarrow>
   upstream \<Rightarrow> ('c, 'w) hstate \<Rightarrow> (bool \<times> upstream) option \<times> ('c, 'w) hstate" where
  "try_pool_stream sd c path rawQuery body backend tried [] buf s = (Some (False, buf), s)"
| "try_pool_stream sd c path rawQuery body backend tried (ep # eps) buf s =
     (if Some ep = tried then try_pool_stream sd c path rawQuery body backend tried eps buf s
      else case dp_parse (st_deps sd) ep of
        None \<Rightarrow> try_pool_stream sd c path rawQuery body backend tried eps buf s
      | Some t \<Rightarrow>
          (case try_stream sd c t path rawQuery body backend ep s of
             (None, s') \<Rightarrow> (None, s')
           | (Some buf', s') \<Rightarrow>
               if \<not> isPrunedError (us_Status buf') (us_Body buf') then (Some (True, buf'), s')
               else try_pool_stream sd c path rawQuery body backend tried eps buf' s'))"

definition retry_stream ::
  "('c, 'w) stream_deps \<Rightarrow> route_decision \<Rightarrow> target \<Rightarrow> string \<Rightarrow> string \<Rightarrow> string option \<Rightarrow> int \<Rightarrow> bool \<Rightarrow> ('c, 'w) hstate stream_handler" where
  "retry_stream sd decision t path rawQuery body height shouldCache s c =
     (let b = (case body of Some b \<Rightarrow> b | None \<Rightarrow> []);
          backend = rd_Backend decision;
          flush = (\<lambda>buf bk. returns (flushBuffered (st_deps sd) buf bk (rd_Method decision) height b shouldCache))
      in case try_stream sd c t path rawQuery body backend (rd_TargetURL decision) s of
           (None, s1) \<Rightarrow> (Aborted, c, s1)
         | (Some buf, s1) \<Rightarrow>
        if \<not> isPrunedError (us_Status buf) (us_Body buf) then flush buf backend s1 c
        else case try_pool_stream sd c path rawQuery body backend (Some (tg_String t))
                    (router_AllEndpoints backend (hs_router s1)) buf s1 of
           (None, s2) \<Rightarrow> (Aborted, c, s2)
         | (Some (found, buf), s2) \<Rightarrow>
          if found then flush buf backend s2 c
          else if HasArchivalBackend backend (hs_router s2) then
            (case try_pool_stream sd c path rawQuery body (archivalBackend backend) None
                    (router_AllEndpoints (archivalBackend backend) (hs_router s2)) buf s2 of
               (None, s3) \<Rightarrow> (Aborted, c, s3)
             | (Some (found, buf), s3) \<Rightarrow>
                 if found then flush buf (archivalBackend backend) s3 (c\<lparr>cv_Backend := Some (archivalBackend backend)\<rparr>)
                 else flush buf backend s3 c)
          else flush buf backend s2 c)"

subsection \<open>The handler\<close>

definition decision_stream ::
  "('c, 'w) stream_deps \<Rightarrow> route_decision \<Rightarrow> string \<Rightarrow> string \<Rightarrow> string option \<Rightarrow> ('c, 'w) hstate stream_handler" where
  "decision_stream sd decision path rawQuery body s c =
     (let dp = st_deps sd;
          b = (case body of Some b \<Rightarrow> b | None \<Rightarrow> []);
          m = rd_Method decision;
          height = request_height m rawQuery b;
          shouldCache = IsCacheable m height
      in case (if shouldCache then dp_get dp m height b (hs_cache s) else (None, hs_cache s)) of
           (Some cached, cache') \<Rightarrow> (Returned None, serve_cached decision cached c, s\<lparr>hs_cache := cache'\<rparr>)
         | (None, cache') \<Rightarrow>
             (let s = s\<lparr>hs_cache := cache'\<rparr>
              in case dp_parse dp (rd_TargetURL decision) of
                   None \<Rightarrow> (Returned (Some (HTTPError 502 ''backend configuration error'')), c, s)
                 | Some t \<Rightarrow>
                     if canRetry (rd_Backend decision) height (hs_router s)
                     then retry_stream sd decision t path rawQuery body height shouldCache s c
                     else direct_stream sd decision t path rawQuery body height shouldCache s c))"

definition handle_stream :: "('c, 'w) stream_deps \<Rightarrow> ('c, 'w) hstate stream_handler" where
  "handle_stream sd s c =
     (let dp = st_deps sd;
          path = rq_Path c;
          rawQuery = rq_RawQuery c;
          body = (case rq_Body c of
                    None \<Rightarrow> Inr None
                  | Some b \<Rightarrow>
                      (case read_limited (wrap64 (dp_maxBodySize dp + 1)) (rq_BodyFails c) b of
                         None \<Rightarrow> Inl (HTTPError 400 ''failed to read request body'')
                       | Some b \<Rightarrow>
                           if dp_maxBodySize dp < int (length b)
                           then Inl (HTTPError 413 ''request body too large'') else Inr (Some b)))
      in case body of
           Inl e \<Rightarrow> (Returned (Some e), c, s)
         | Inr body \<Rightarrow>
             (case router_Route (dp_draw dp) (case body of Some b \<Rightarrow> b | None \<Rightarrow> []) (hs_router s) of
                (Inl e, r) \<Rightarrow> (Returned (Some (HTTPError 400 e)), c, s\<lparr>hs_router := r\<rparr>)
              | (Inr decision, r) \<Rightarrow>
                  (let s = s\<lparr>hs_router := r\<rparr>;
                       c = c\<lparr>cv_Backend := Some (rd_Backend decision), cv_RPCMethod := Some (rd_Method decision)\<rparr>
                   in if method_forbidden (rd_Method decision) (cv_TokenInfo c)
                      then (Returned (Some (HTTPError 403 ''method not allowed for this token'')), c, s)
                      else decision_stream sd decision path rawQuery body s c)))"

text \<open>A middleware that acts on what its next handler returned sees nothing of an aborted one.\<close>

definition unwound :: "('s handler \<Rightarrow> 's handler) \<Rightarrow> 's stream_handler \<Rightarrow> 's stream_handler" where
  "unwound mw hnd s c =
     (case hnd s c of
        (Aborted, c', s') \<Rightarrow> (Aborted, c', s')
      | (Returned err, c', s') \<Rightarrow> returns (mw (\<lambda>_ _. (err, c', s'))) s c)"

definition dispatch_stream :: "('c, 'w, 'v, 'l) wiring \<Rightarrow> ('c, 'w) stream_deps \<Rightarrow> ('c, 'w, 'v, 'l, 'd) sys stream_handler" where
  "dispatch_stream wi sd s c =
     (if IsWebSocketUpgrade c then returns (on_ws (ws_Handle (wi_ws wi))) s c
      else (case handle_stream sd (sy_h s) c of (f, c', h) \<Rightarrow> (f, c', s\<lparr>sy_h := h\<rparr>)))"

definition observed_stream ::
  "('c, 'w, 'v, 'l) wiring \<Rightarrow> ('c, 'w) stream_deps \<Rightarrow> req_env \<Rightarrow> ('c, 'w, 'v, 'l, 'd) sys stream_handler" where
  "observed_stream wi sd re =
     unwound (AccessLogger [Some ring_sink, Some store_sink] (re_log_start re) (re_log_finish re))
       (unwound (MetricsMiddleware (\<lambda>f s. s\<lparr>sy_metrics := f (sy_metrics s)\<rparr>) (re_met_start re) (re_met_finish re)) (dispatch_stream wi sd))"

subsection \<open>Whole answers\<close>

definition whole_answer :: "stream_resp \<Rightarrow> upstream" where
  "whole_answer resp = \<lparr>us_Status = sr_Status resp, us_Header = sr_Header resp, us_Body = concat (sr_Chunks resp)\<rparr>"

definition whole_deps :: "('c, 'w) stream_deps \<Rightarrow> ('c, 'w) deps" where
  "whole_deps sd =
     (st_deps sd)\<lparr>dp_exchange := (\<lambda>out w. case st_exchange sd out w of (answer, elapsed, w') \<Rightarrow> (map_option whole_answer answer, elapsed, w'))\<rparr>"

text \<open>No answer breaks off and every client takes what it is sent.\<close>

definition all_whole :: "('c, 'w) stream_deps \<Rightarrow> bool" where
  "all_whole sd \<longleftrightarrow> (\<forall>out w r el w'. st_exchange sd out w = (Some r, el, w') \<longrightarrow> \<not> sr_Broken r) \<and> (\<forall>w. st_taken sd w = None)"

lemma whole_deps_simps [simp]:
  "dp_maxBodySize (whole_deps sd) = dp_maxBodySize (st_deps sd)" "dp_draw (whole_deps sd) = dp_draw (st_deps sd)"
  "dp_parse (whole_deps sd) = dp_parse (st_deps sd)" "dp_get (whole_deps sd) = dp_get (st_deps sd)" "dp_set (whole_deps sd) = dp_set (st_deps sd)"
  "dp_exchange (whole_deps sd) out w = (case st_exchange sd out w of (answer, elapsed, w') \<Rightarrow> (map_option whole_answer answer, elapsed, w'))"
  by (simp_all add: whole_deps_def)

lemma copy_headers_empty [simp]: "copy_headers Map.empty h = h"
  by (intro ext) (simp add: copy_headers_def split: option.split)

lemma buffer_whole:
  "rp_serve bf_Header bf_WriteHeader bf_Write None answer newBufferedResponseWriter =
     (case answer of
        None \<Rightarrow> (True, \<lparr>bf_header = Map.empty, bf_body = unavailable_body, bf_statusCode = 502\<rparr>)
      | Some r \<Rightarrow> (\<not> sr_Broken r, \<lparr>bf_header = sr_Header r, bf_body = concat (sr_Chunks r), bf_statusCode = sr_Status r\<rparr>))"
proof (cases answer)
  case None
  then show ?thesis by (simp add: rp_serve_def newBufferedResponseWriter_def bf_WriteHeader_def bf_Write_def)
next
  case (Some r)
  obtain ok b where s: "rp_serve bf_Header bf_WriteHeader bf_Write None (Some r) newBufferedResponseWriter = (ok, b)" by (metis surj_pair)
  from buf.serve_shows [OF _ s] have "as_upstream b = whole_answer r" "ok = (\<not> sr_Broken r)"
    by (simp_all add: whole_answer_def) (simp_all add: as_upstream_def newBufferedResponseWriter_def)
  with s Some show ?thesis by (cases b) (simp add: as_upstream_def whole_answer_def)
qed

lemma write_committed: "rs_Committed c \<Longrightarrow> write_body b c = c\<lparr>rs_Body := rs_Body c @ b\<rparr>"
  by (simp add: write_body_def)

lemma copy_echo: "rs_Committed c \<Longrightarrow> copy_body write_body None bs c = (True, c\<lparr>rs_Body := rs_Body c @ concat bs\<rparr>)"
  by (induction bs arbitrary: c) (simp_all add: write_committed)

lemma header_commits [simp]: "rs_Committed (write_header n c)"
  by (simp add: write_header_def)

lemma echo_whole:
  "rp_serve echo_Header write_header write_body None answer c =
     (case answer of
        None \<Rightarrow> (True, write_body unavailable_body (write_header 502 c))
      | Some r \<Rightarrow> (\<not> sr_Broken r, serve_response (whole_answer r) c))"
  by (simp add: rp_serve_def copy_echo write_committed serve_response_def whole_answer_def echo_Header_def split: option.split)

lemma exchange_whole:
  "exchange (whole_deps sd) b u out s =
     (case st_exchange sd out (hs_world s) of (answer, elapsed, w) \<Rightarrow>
        (map_option whole_answer answer, (send_out out w s)\<lparr>hs_router := router_RecordLatency b u elapsed (hs_router s)\<rparr>))"
  by (simp add: exchange_def send_out_def split: prod.split)

lemma not_broken: "all_whole sd \<Longrightarrow> st_exchange sd out w = (Some r, el, w') \<Longrightarrow> \<not> sr_Broken r"
  unfolding all_whole_def by blast

lemma try_whole:
  assumes "all_whole sd"
  shows "try_stream sd c t path q body b u s = (case tryEndpoint (whole_deps sd) c t path q body b u s of (buf, s') \<Rightarrow> (Some buf, s'))"
proof -
  obtain answer el w where e: "st_exchange sd (director t path q body c) (hs_world s) = (answer, el, w)" by (metis prod_cases3)
  show ?thesis
  proof (cases answer)
    case None
    with e show ?thesis by (simp add: try_stream_def tryEndpoint_def exchange_whole buffer_whole as_upstream_def Let_def send_out_def)
  next
    case (Some r)
    with e not_broken [OF assms, of "director t path q body c"] show ?thesis
      by (simp add: try_stream_def tryEndpoint_def exchange_whole buffer_whole as_upstream_def Let_def send_out_def whole_answer_def)
  qed
qed

lemma pool_whole:
  assumes "all_whole sd"
  shows "try_pool_stream sd c path q body b tried eps buf s =
     (case try_pool (whole_deps sd) c path q body b tried eps buf s of (found, buf', s') \<Rightarrow> (Some (found, buf'), s'))"
  by (induction eps arbitrary: buf s) (simp_all add: try_whole [OF assms] split: option.split prod.split)

lemma flush_whole: "flushBuffered (st_deps sd) = flushBuffered (whole_deps sd)"
  unfolding flushBuffered_def whole_deps_simps by (rule refl)

lemma retry_whole:
  assumes "all_whole sd"
  shows "retry_stream sd d t path q body n sc s c = returns (proxyWithRetry (whole_deps sd) d t path q body n sc) s c"
  unfolding retry_stream_def proxyWithRetry_def returns_def Let_def try_whole [OF assms] pool_whole [OF assms] flush_whole
  by (simp split: prod.split)

lemma modify_whole:
  assumes "\<not> sr_Broken r"
  shows "modify_response (whole_deps sd) c d n b sc (whole_answer r) k =
     (case modify_stream (st_deps sd) c d n b sc r k of (r', k') \<Rightarrow> (whole_answer r', k'))"
    "\<not> sr_Broken (fst (modify_stream (st_deps sd) c d n b sc r k))"
  using assms by (simp_all add: modify_response_def modify_stream_def whole_answer_def Let_def)

lemma direct_whole:
  assumes "all_whole sd"
  shows "direct_stream sd d t path q body n sc s c = returns (proxyDirect (whole_deps sd) d t path q body n sc) s c"
proof -
  obtain answer el w where e: "st_exchange sd (director t path q body c) (hs_world s) = (answer, el, w)" by (metis prod_cases3)
  have t: "st_taken sd w = None" using assms by (simp add: all_whole_def)
  show ?thesis
  proof (cases answer)
    case None
    with e t show ?thesis by (simp add: direct_stream_def proxyDirect_def returns_def exchange_whole echo_whole Let_def send_out_def)
  next
    case (Some r)
    have nb: "\<not> sr_Broken r" using not_broken [OF assms] e Some by blast
    obtain r' k where m: "modify_stream (st_deps sd) c d n (case body of Some b \<Rightarrow> b | None \<Rightarrow> []) sc r (hs_cache s) = (r', k)" by (metis surj_pair)
    note mw = modify_whole [OF nb, of sd c d n "case body of Some b \<Rightarrow> b | None \<Rightarrow> []" sc "hs_cache s", unfolded m]
    show ?thesis using e t Some m mw
      by (simp add: direct_stream_def proxyDirect_def returns_def exchange_whole echo_whole Let_def send_out_def)
  qed
qed

lemma decision_whole:
  assumes "all_whole sd"
  shows "decision_stream sd d path q body s c = returns (serve_decision (whole_deps sd) d path q body) s c"
proof -
  define b where "b = (case body of Some b \<Rightarrow> b | None \<Rightarrow> [])"
  define n where "n = request_height (rd_Method d) q b"
  obtain hit k where g: "(if IsCacheable (rd_Method d) n then dp_get (st_deps sd) (rd_Method d) n b (hs_cache s) else (None, hs_cache s)) = (hit, k)"
    by (metis surj_pair)
  show ?thesis
  proof (cases hit)
    case None
    then show ?thesis
      unfolding decision_stream_def serve_decision_def returns_def Let_def whole_deps_simps b_def [symmetric] n_def [symmetric] g
      using retry_whole [OF assms, of d _ path q body n] direct_whole [OF assms, of d _ path q body n]
      by (cases "dp_parse (st_deps sd) (rd_TargetURL d)") (simp_all add: returns_def)
  next
    case (Some x)
    then show ?thesis
      unfolding decision_stream_def serve_decision_def returns_def Let_def whole_deps_simps b_def [symmetric] n_def [symmetric] g by simp
  qed
qed

lemma handle_whole: "all_whole sd \<Longrightarrow> handle_stream sd s c = returns (HandleRequest (whole_deps sd)) s c"
  unfolding handle_stream_def HandleRequest_def returns_def Let_def decision_whole
  by (simp add: decision_whole returns_def split: prod.split option.split sum.split)

lemma dispatch_whole: "all_whole sd \<Longrightarrow> dispatch_stream wi sd = returns (dispatch (wi\<lparr>wi_handler := whole_deps sd\<rparr>))"
  by (intro ext) (simp add: dispatch_stream_def dispatch_def returns_def on_handler_def handle_whole split: prod.split)

lemma unwound_returns:
  "unwound (AccessLogger sinks a b) (returns f) = returns (AccessLogger sinks a b f)"
  "unwound (MetricsMiddleware upd a b) (returns f) = returns (MetricsMiddleware upd a b f)"
  by (intro ext, simp add: unwound_def returns_def AccessLogger_def MetricsMiddleware_def Let_def split: prod.split)+

subsection \<open>What a run leaves\<close>

text \<open>A buffered response is a whole answer or stands for a transport error.\<close>

definition from_backend :: "('c, 'w) stream_deps \<Rightarrow> upstream \<Rightarrow> bool" where
  "from_backend sd buf \<longleftrightarrow> us_Status buf = 502 \<or>
     (\<exists>resp out w el w'. st_exchange sd out w = (Some resp, el, w') \<and> \<not> sr_Broken resp \<and> buf = whole_answer resp)"

definition cached_whole :: "('c, 'w) stream_deps \<Rightarrow> 'c \<Rightarrow> 'c \<Rightarrow> bool" where
  "cached_whole sd k k' \<longleftrightarrow> k' = k \<or>
     (\<exists>m n b resp out w el w'. st_exchange sd out w = (Some resp, el, w') \<and> \<not> sr_Broken resp \<and> sr_Status resp = 200
        \<and> k' = dp_set (st_deps sd) m n b (concat (sr_Chunks resp)) k)"

lemma try_leaves:
  assumes "try_stream sd c t path q body b u s = (r, s')"
  shows "strict_prefix (hs_sent s) (hs_sent s') \<and> hs_cache s' = hs_cache s" "r = Some buf \<Longrightarrow> from_backend sd buf"
proof -
  obtain answer el w where e: "st_exchange sd (director t path q body c) (hs_world s) = (answer, el, w)" by (metis prod_cases3)
  show "strict_prefix (hs_sent s) (hs_sent s') \<and> hs_cache s' = hs_cache s"
    using assms by (auto simp: try_stream_def e Let_def send_out_def strict_prefix_def split: prod.splits if_splits)
  show "from_backend sd buf" if "r = Some buf"
  proof (cases answer)
    case None
    with assms that e show ?thesis by (auto simp: from_backend_def try_stream_def Let_def buffer_whole as_upstream_def)
  next
    case (Some a)
    with assms that e have "\<not> sr_Broken a" "buf = whole_answer a"
      by (auto simp: try_stream_def Let_def buffer_whole as_upstream_def whole_answer_def split: if_splits)
    with e Some show ?thesis unfolding from_backend_def by blast
  qed
qed

lemma pool_leaves:
  "try_pool_stream sd c path q body b tried eps buf s = (r, s') \<Longrightarrow> from_backend sd buf \<Longrightarrow>
     prefix (hs_sent s) (hs_sent s') \<and> hs_cache s' = hs_cache s \<and> (r = None \<longrightarrow> strict_prefix (hs_sent s) (hs_sent s'))
     \<and> (\<forall>found buf'. r = Some (found, buf') \<longrightarrow> from_backend sd buf')"
proof (induction sd c path q body b tried eps buf s rule: try_pool_stream.induct)
  case (2 sd c path q body b tried ep eps buf s)
  show ?case
  proof (cases "Some ep = tried \<or> dp_parse (st_deps sd) ep = None")
    case True
    with 2 show ?thesis by (auto split: if_splits)
  next
    case False
    then obtain t r1 s1 where t: "dp_parse (st_deps sd) ep = Some t" "try_stream sd c t path q body b ep s = (r1, s1)"
      by (metis not_Some_eq surj_pair)
    note l = try_leaves [OF t(2)]
    show ?thesis
    proof (cases r1)
      case None
      with 2(4) False t l(1) show ?thesis by (auto simp: prefix_order.less_imp_le)
    next
      case (Some buf1)
      show ?thesis
      proof (cases "isPrunedError (us_Status buf1) (us_Body buf1)")
        case True
        with 2(4) False t Some have "try_pool_stream sd c path q body b tried eps buf1 s1 = (r, s')" by auto
        moreover have "Some ep \<noteq> tried" using False by simp
        ultimately have "prefix (hs_sent s1) (hs_sent s') \<and> hs_cache s' = hs_cache s1
            \<and> (r = None \<longrightarrow> strict_prefix (hs_sent s1) (hs_sent s')) \<and> (\<forall>found buf'. r = Some (found, buf') \<longrightarrow> from_backend sd buf')"
          using 2(3) [OF _ t(1) t(2) [symmetric, unfolded Some] _ _ _ l(2) [OF Some]] True by simp
        with l(1) show ?thesis by (auto dest: prefix_order.less_le_trans intro: prefix_order.less_imp_le)
      next
        case good: False
        with 2(4) False t Some l show ?thesis by (auto simp: prefix_order.less_imp_le)
      qed
    qed
  qed
qed auto

lemma flush_caches:
  assumes "returns (flushBuffered (st_deps sd) buf b m n rb sc) s c = (f, c', s')" "from_backend sd buf"
  shows "f = Returned None \<and> hs_sent s' = hs_sent s \<and> cached_whole sd (hs_cache s) (hs_cache s')"
  using assms unfolding cached_whole_def from_backend_def
  by (auto simp: returns_def flushBuffered_def Let_def whole_answer_def) blast+

lemma retry_leaves:
  assumes "retry_stream sd d t path q body n sc s c = (f, c', s')"
  shows "strict_prefix (hs_sent s) (hs_sent s') \<and> cached_whole sd (hs_cache s) (hs_cache s')"
proof -
  let ?b = "case body of Some b \<Rightarrow> b | None \<Rightarrow> []"
  obtain r1 s1 where t1: "try_stream sd c t path q body (rd_Backend d) (rd_TargetURL d) s = (r1, s1)" by (metis surj_pair)
  note l1 = try_leaves(1) [OF t1]
  have same: "cached_whole sd k k" for k by (simp add: cached_whole_def)
  have flush: "strict_prefix (hs_sent s) (hs_sent s') \<and> cached_whole sd (hs_cache s) (hs_cache s')"
    if "returns (flushBuffered (st_deps sd) buf bk (rd_Method d) n ?b sc) x c1 = (f, c', s')" "from_backend sd buf"
      "prefix (hs_sent s1) (hs_sent x)" "hs_cache x = hs_cache s1" for buf bk x c1
    using flush_caches [OF that(1,2)] that(3,4) l1 by (auto dest: prefix_order.less_le_trans)
  show ?thesis
  proof (cases r1)
    case None
    with assms t1 l1 same show ?thesis by (simp add: retry_stream_def Let_def)
  next
    case (Some buf1)
    note f1 = try_leaves(2) [OF t1 Some]
    show ?thesis
    proof (cases "isPrunedError (us_Status buf1) (us_Body buf1)")
      case False
      with assms t1 Some have "returns (flushBuffered (st_deps sd) buf1 (rd_Backend d) (rd_Method d) n ?b sc) s1 c = (f, c', s')"
        by (simp add: retry_stream_def Let_def)
      from flush [OF this f1] show ?thesis by simp
    next
      case True
      obtain r2 s2 where t2: "try_pool_stream sd c path q body (rd_Backend d) (Some (tg_String t))
          (router_AllEndpoints (rd_Backend d) (hs_router s1)) buf1 s1 = (r2, s2)" by (metis surj_pair)
      note l2 = pool_leaves [OF t2 f1]
      show ?thesis
      proof (cases r2)
        case None
        with assms t1 Some True t2 l1 l2 same show ?thesis
          by (auto simp: retry_stream_def Let_def dest: prefix_order.less_trans)
      next
        case r2: (Some fb)
        obtain found buf2 where fb: "fb = (found, buf2)" by (metis surj_pair)
        have f2: "from_backend sd buf2" "prefix (hs_sent s1) (hs_sent s2)" "hs_cache s2 = hs_cache s1" using l2 r2 fb by blast+
        show ?thesis
        proof (cases "found \<or> \<not> HasArchivalBackend (rd_Backend d) (hs_router s2)")
          case found: True
          with assms t1 Some True t2 r2 fb have "returns (flushBuffered (st_deps sd) buf2 (rd_Backend d) (rd_Method d) n ?b sc) s2 c = (f, c', s')"
            by (auto simp: retry_stream_def Let_def split: if_splits)
          from flush [OF this f2] show ?thesis .
        next
          case False
          obtain r3 s3 where t3: "try_pool_stream sd c path q body (archivalBackend (rd_Backend d)) None
              (router_AllEndpoints (archivalBackend (rd_Backend d)) (hs_router s2)) buf2 s2 = (r3, s3)" by (metis surj_pair)
          note l3 = pool_leaves [OF t3 f2(1)]
          have whole: "retry_stream sd d t path q body n sc s c =
             (case r3 of
                None \<Rightarrow> (Aborted, c, s3)
              | Some (found, buf) \<Rightarrow>
                  if found then returns (flushBuffered (st_deps sd) buf (archivalBackend (rd_Backend d)) (rd_Method d) n ?b sc) s3
                      (c\<lparr>cv_Backend := Some (archivalBackend (rd_Backend d))\<rparr>)
                  else returns (flushBuffered (st_deps sd) buf (rd_Backend d) (rd_Method d) n ?b sc) s3 c)"
            using t1 Some True t2 r2 fb False t3 by (simp add: retry_stream_def Let_def split: option.split)
          show ?thesis
          proof (cases r3)
            case None
            with assms whole l3 f2 l1 same show ?thesis
              by (auto dest: prefix_order.less_trans prefix_order.less_le_trans)
          next
            case r3: (Some fb3)
            obtain found3 buf3 where fb3: "fb3 = (found3, buf3)" by (metis surj_pair)
            have f3: "from_backend sd buf3" "prefix (hs_sent s1) (hs_sent s3)" "hs_cache s3 = hs_cache s1"
              using l3 r3 fb3 f2 prefix_order.order_trans by auto
            have "\<exists>bk c1. returns (flushBuffered (st_deps sd) buf3 bk (rd_Method d) n ?b sc) s3 c1 = (f, c', s')"
              using assms whole r3 fb3 by (auto split: if_splits)
            with flush [OF _ f3] show ?thesis by blast
          qed
        qed
      qed
    qed
  qed
qed

lemma send_out_cache: "hs_cache (send_out out w s) = hs_cache s"
  by (simp add: send_out_def)

lemma direct_leaves:
  assumes "direct_stream sd d t path q body n sc s c = (f, c', s')"
  shows "strict_prefix (hs_sent s) (hs_sent s') \<and> cached_whole sd (hs_cache s) (hs_cache s')"
proof -
  obtain answer el w where e: "st_exchange sd (director t path q body c) (hs_world s) = (answer, el, w)" by (metis prod_cases3)
  let ?b = "case body of Some b \<Rightarrow> b | None \<Rightarrow> []"
  obtain answer' k where m: "(case answer of
        None \<Rightarrow> (None, hs_cache s)
      | Some resp \<Rightarrow> (case modify_stream (st_deps sd) c d n ?b sc resp (hs_cache s) of (r, k) \<Rightarrow> (Some r, k))) = (answer', k)"
    by (metis surj_pair)
  have "cached_whole sd (hs_cache s) k"
    using m e unfolding cached_whole_def by (fastforce simp: modify_stream_def Let_def split: option.splits if_splits)
  moreover have "hs_sent s' = hs_sent s @ [director t path q body c]" "hs_cache s' = k"
    using assms unfolding direct_stream_def Let_def e prod.case send_out_cache m
    by (auto simp: send_out_def split: prod.splits if_splits)
  ultimately show ?thesis by (simp add: strict_prefix_def)
qed

definition cache_read :: "('c, 'w) deps \<Rightarrow> 'c \<Rightarrow> 'c \<Rightarrow> bool" where
  "cache_read dp k k' \<longleftrightarrow> k' = k \<or> (\<exists>m n b. k' = snd (dp_get dp m n b k))"

lemma decision_leaves:
  assumes "decision_stream sd d path q body s c = (f, c', s')"
  shows "(f = Aborted \<longrightarrow> strict_prefix (hs_sent s) (hs_sent s'))
     \<and> (\<exists>k. cache_read (st_deps sd) (hs_cache s) k \<and> cached_whole sd k (hs_cache s'))"
proof -
  define b where "b = (case body of Some b \<Rightarrow> b | None \<Rightarrow> [])"
  define n where "n = request_height (rd_Method d) q b"
  obtain hit k where g: "(if IsCacheable (rd_Method d) n then dp_get (st_deps sd) (rd_Method d) n b (hs_cache s) else (None, hs_cache s)) = (hit, k)"
    by (metis surj_pair)
  have r: "cache_read (st_deps sd) (hs_cache s) k" using g unfolding cache_read_def by (metis snd_conv)
  have same: "cached_whole sd k k" by (simp add: cached_whole_def)
  let ?s = "s\<lparr>hs_cache := k\<rparr>"
  have eq: "decision_stream sd d path q body s c =
      (case hit of
         Some cached \<Rightarrow> (Returned None, serve_cached d cached c, ?s)
       | None \<Rightarrow>
           (case dp_parse (st_deps sd) (rd_TargetURL d) of
              None \<Rightarrow> (Returned (Some (HTTPError 502 ''backend configuration error'')), c, ?s)
            | Some t \<Rightarrow>
                if canRetry (rd_Backend d) n (hs_router ?s)
                then retry_stream sd d t path q body n (IsCacheable (rd_Method d) n) ?s c
                else direct_stream sd d t path q body n (IsCacheable (rd_Method d) n) ?s c))"
    unfolding decision_stream_def Let_def b_def [symmetric] n_def [symmetric] g by (simp split: option.split)
  have "(f = Aborted \<longrightarrow> strict_prefix (hs_sent s) (hs_sent s')) \<and> cached_whole sd k (hs_cache s')"
    using assms same unfolding eq by (auto dest: retry_leaves direct_leaves split: option.splits if_splits)
  with r show ?thesis by blast
qed

lemma handle_leaves:
  assumes "handle_stream sd s c = (f, c', s')"
  shows "(f = Aborted \<longrightarrow> strict_prefix (hs_sent s) (hs_sent s'))
     \<and> (\<exists>k. cache_read (st_deps sd) (hs_cache s) k \<and> cached_whole sd k (hs_cache s'))"
proof -
  have same: "\<exists>k. cache_read (st_deps sd) (hs_cache s) k \<and> cached_whole sd k (hs_cache s)"
    by (auto simp: cache_read_def cached_whole_def)
  show ?thesis
    using assms same decision_leaves [of sd _ _ _ _ "s\<lparr>hs_router := _\<rparr>"]
    by (fastforce simp: handle_stream_def Let_def split: prod.splits option.splits sum.splits if_splits)
qed

subsection \<open>Properties\<close>

text \<open>C16: As long as backends send whole answers and clients take them, writing piece by piece to echo's
  response or to the buffer, with the middleware that logs and counts around it, is exactly the
  request handling of \<open>Handler\<close> and \<open>ProxyServer\<close>, where an answer is one value.\<close>

theorem whole_answers_are_handler:
  assumes "all_whole sd"
  shows "observed_stream wi sd re s c = returns (observed (wi\<lparr>wi_handler := whole_deps sd\<rparr>) re) s c"
  unfolding observed_stream_def observed_def dispatch_whole [OF assms] unwound_returns by (rule refl)

lemma unwound_aborted:
  assumes "unwound mw hnd s c = (Aborted, c', s')"
  shows "hnd s c = (Aborted, c', s')"
  using assms by (auto simp: unwound_def returns_def split: prod.splits finish.splits)




subsection \<open>On the small process\<close>

text \<open>A backend whose answers have two pieces and break off after them, or do not.\<close>

definition two_pieces :: "bool \<Rightarrow> (unit, unit) stream_deps" where
  "two_pieces broken =
     \<lparr>st_deps = sample_deps,
      st_exchange = (\<lambda>out w. (Some \<lparr>sr_Status = 200, sr_Header = Map.empty, sr_Chunks = [''{'', ''}''], sr_Broken = broken\<rparr>, 5000000, w)),
      st_taken = (\<lambda>w. None)\<rparr>"

definition bodyless :: ctx where
  "bodyless = (call_with ''/v1'')\<lparr>rq_Body := None\<rparr>"

lemma broken_run: "\<exists>c' s'. observed_stream (sample_wiring True) (two_pieces True) sample_req sample_sys bodyless = (Aborted, c', s')"
proof -
  have h: "request_height [] [] [] = 0" by (simp add: request_height_def ExtractHeight_def heightBearingMethods_def ExtractHeightFromQuery_def)
  have q: "rq_Body bodyless = None" "rq_RawQuery bodyless = []" "\<not> IsWebSocketUpgrade bodyless"
  proof -
    show "\<not> IsWebSocketUpgrade bodyless" using call_with_simps(4) by (simp add: bodyless_def IsWebSocketUpgrade_def)
  qed (simp_all add: bodyless_def call_with_def new_ctx_def)
  obtain u r where u: "router_TargetURL steady BackendCelestiaAppRPC (hs_router (sy_h sample_sys)) = (u, r)" by (metis surj_pair)
  have "fst (handle_stream (two_pieces True) (sy_h sample_sys) bodyless) = Aborted"
    by (simp add: handle_stream_def decision_stream_def direct_stream_def modify_stream_def q u h two_pieces_def sample_deps_def router_Route_def
        method_forbidden_def IsCacheable_def canRetry_def echo_whole Let_def)
  then obtain c' h' where "handle_stream (two_pieces True) (sy_h sample_sys) bodyless = (Aborted, c', h')" by (metis fst_conv surj_pair)
  with q show ?thesis by (simp add: observed_stream_def unwound_def dispatch_stream_def)
qed


theorem whole_answers_are_handler_witness:
  "observed_stream (sample_wiring True) (two_pieces False) sample_req sample_sys bodyless =
     returns (observed (sample_wiring True\<lparr>wi_handler := whole_deps (two_pieces False)\<rparr>) sample_req) sample_sys bodyless"
  by (rule whole_answers_are_handler) (simp add: all_whole_def two_pieces_def)

definition keeping :: "bool \<Rightarrow> (string list, unit) stream_deps" where
  "keeping broken =
     \<lparr>st_deps = \<lparr>dp_maxBodySize = 1000, dp_draw = steady, dp_parse = dp_parse sample_deps, dp_exchange = dp_exchange sample_deps,
        dp_get = (\<lambda>m n b k. (None, k)), dp_set = (\<lambda>m n b a k. a # k)\<rparr>,
      st_exchange = st_exchange (two_pieces broken), st_taken = (\<lambda>w. None)\<rparr>"



end
