(* ===== verification/CachedServing.thy ===== *)
theory CachedServing
  imports Handler
begin

text \<open>
  The cache behind \<open>HandleRequest\<close>: what a request may store and what it may be answered with, over
  any run of requests through the instrumented Redis cache. The laws come from the locale
  \<open>response_cache\<close>.
\<close>

text \<open>What a request asks for: the method of its body and the height of its body or query.\<close>

definition asks :: "string \<Rightarrow> string \<Rightarrow> string \<times> int" where
  "asks b q = (let m = (if b = [] then [] else fst (parseJSONRPCMethod b)) in (m, request_height m q b))"

definition fresh :: "ctx \<Rightarrow> bool" where
  "fresh c \<longleftrightarrow> \<not> rs_Committed c \<and> rs_Body c = []"

definition answered :: "herror option \<Rightarrow> ctx \<Rightarrow> string \<Rightarrow> bool" where
  "answered err c r \<longleftrightarrow> err = None \<and> rs_Status c = 200 \<and> rs_Body c = r"

lemma exchange_cache [simp]: "exchange dp b u out s = (resp, s') \<Longrightarrow> hs_cache s' = hs_cache s"
  by (auto simp: exchange_def split: prod.splits)

lemma tryEndpoint_cache: "tryEndpoint dp c t path q body backend u s = (buf, s') \<Longrightarrow> hs_cache s' = hs_cache s"
  by (auto simp: tryEndpoint_def split: prod.splits option.splits)

lemma try_pool_cache:
  "try_pool dp c path q body backend tried pool buf s = (found, buf', s') \<Longrightarrow> hs_cache s' = hs_cache s"
proof (induction pool arbitrary: buf s)
  case (Cons ep pool)
  then show ?case by (auto split: if_splits option.splits prod.splits dest!: tryEndpoint_cache)
qed simp

text \<open>The cache after a miss: the body the client got, when it got a good answer; else unchanged.\<close>

definition miss_effect ::
  "('c, 'w) deps \<Rightarrow> string \<Rightarrow> int \<Rightarrow> string \<Rightarrow> bool \<Rightarrow> 'c \<Rightarrow> herror option \<times> ctx \<times> ('c, 'w) hstate \<Rightarrow> bool" where
  "miss_effect dp m h b sc cache r \<longleftrightarrow>
     (case r of (err, c', s') \<Rightarrow>
        hs_cache s' =
          (if sc \<and> answered err c' (rs_Body c') \<and> \<not> isPrunedError 200 (rs_Body c')
           then dp_set dp m h b (rs_Body c') cache else cache))"

lemma flush_effect:
  assumes "fresh c"
  shows "miss_effect dp m h b sc (hs_cache s) (flushBuffered dp buf backend m h b sc s c)"
  using assms
  by (auto simp: miss_effect_def flushBuffered_def Let_def answered_def fresh_def write_body_def write_header_def
      set_resp_header_def)

lemma proxyDirect_effect:
  assumes "fresh c"
  shows "miss_effect dp (rd_Method d) h b sc (hs_cache s) (proxyDirect dp d t path q (Some b) h sc s c)"
proof -
  obtain resp s1 where x: "exchange dp (rd_Backend d) (rd_TargetURL d) (director t path q (Some b) c) s = (resp, s1)"
    by (metis surj_pair)
  then have k: "hs_cache s1 = hs_cache s" by simp
  show ?thesis
  proof (cases resp)
    case None
    with x k assms show ?thesis
      by (simp add: proxyDirect_def miss_effect_def Let_def answered_def fresh_def write_body_def write_header_def)
  next
    case (Some a)
    with x k assms show ?thesis
      by (simp add: proxyDirect_def miss_effect_def Let_def modify_response_def serve_response_def fresh_def
          write_body_def write_header_def answered_def)
  qed
qed

lemma proxyWithRetry_effect:
  assumes "fresh c"
  shows "miss_effect dp (rd_Method d) h b sc (hs_cache s) (proxyWithRetry dp d t path q (Some b) h sc s c)"
proof -
  let ?B = "rd_Backend d" let ?A = "archivalBackend ?B"
  obtain buf1 s1 where t1: "tryEndpoint dp c t path q (Some b) ?B (rd_TargetURL d) s = (buf1, s1)" by (metis surj_pair)
  obtain f2 buf2 s2 where p2: "try_pool dp c path q (Some b) ?B (Some (tg_String t))
      (router_AllEndpoints ?B (hs_router s1)) buf1 s1 = (f2, buf2, s2)" by (metis surj_pair)
  obtain f3 buf3 s3 where p3: "try_pool dp c path q (Some b) ?A None
      (router_AllEndpoints ?A (hs_router s2)) buf2 s2 = (f3, buf3, s3)" by (metis surj_pair)
  have k: "hs_cache s1 = hs_cache s" "hs_cache s2 = hs_cache s" "hs_cache s3 = hs_cache s"
    using tryEndpoint_cache [OF t1] try_pool_cache [OF p2] try_pool_cache [OF p3] by simp_all
  have f: "miss_effect dp (rd_Method d) h b sc (hs_cache s) (flushBuffered dp buf bk (rd_Method d) h b sc s' c1)"
    if "s' \<in> {s1, s2, s3}" "fresh c1" for s' buf bk c1
    using flush_effect [OF that(2), of dp "rd_Method d" h b sc s' buf bk] that(1) k by auto
  have "fresh (c\<lparr>cv_Backend := Some ?A\<rparr>)" using assms by (simp add: fresh_def)
  with f assms t1 p2 p3 show ?thesis by (simp add: proxyWithRetry_def Let_def)
qed

text \<open>One request after routing: no cache at all, a hit, or a miss.\<close>

lemma serve_decision_effect:
  assumes "fresh c" "serve_decision dp d path q (Some b) s c = (err, c', s')"
    "rd_Method d = m" "request_height m q b = h"
  shows "if IsCacheable m h then
       (case dp_get dp m h b (hs_cache s) of
          (Some r, cache) \<Rightarrow> answered err c' r \<and> hs_cache s' = cache \<and> hs_sent s' = hs_sent s
        | (None, cache) \<Rightarrow> miss_effect dp m h b True cache (err, c', s'))
     else hs_cache s' = hs_cache s"
proof -
  obtain hit cache where g: "(if IsCacheable m h then dp_get dp m h b (hs_cache s) else (None, hs_cache s)) = (hit, cache)"
    by (metis surj_pair)
  let ?s = "s\<lparr>hs_cache := cache\<rparr>"
  have eq: "serve_decision dp d path q (Some b) s c =
      (case hit of
         Some cached \<Rightarrow> (None, serve_cached d cached c, ?s)
       | None \<Rightarrow>
           (case dp_parse dp (rd_TargetURL d) of
              None \<Rightarrow> (Some (HTTPError 502 ''backend configuration error''), c, ?s)
            | Some t \<Rightarrow>
                if canRetry (rd_Backend d) h (hs_router s)
                then proxyWithRetry dp d t path q (Some b) h (IsCacheable m h) ?s c
                else proxyDirect dp d t path q (Some b) h (IsCacheable m h) ?s c))"
    unfolding serve_decision_def Let_def option.case assms(3,4) g by (simp split: option.split)
  have miss: "miss_effect dp m h b (IsCacheable m h) cache (err, c', s')" if "hit = None"
  proof (cases "dp_parse dp (rd_TargetURL d)")
    case None
    then have "hs_cache s' = cache" "err \<noteq> None" using assms(2) that by (auto simp: eq)
    then show ?thesis by (auto simp: miss_effect_def answered_def)
  next
    case (Some t)
    have "miss_effect dp m h b (IsCacheable m h) cache (serve_decision dp d path q (Some b) s c)"
      using proxyWithRetry_effect [OF assms(1), of dp d h b "IsCacheable m h" ?s t path q]
        proxyDirect_effect [OF assms(1), of dp d h b "IsCacheable m h" ?s t path q] that Some
      by (simp add: eq assms(3))
    then show ?thesis by (simp add: assms(2))
  qed
  show ?thesis
  proof (cases "IsCacheable m h")
    case True
    then have g': "dp_get dp m h b (hs_cache s) = (hit, cache)" using g by simp
    show ?thesis
    proof (cases hit)
      case None
      with True g' miss show ?thesis by simp
    next
      case (Some r)
      then have "(err, c', s') = (None, serve_cached d r c, ?s)" using assms(2) eq by simp
      with Some True g' assms(1) show ?thesis
        by (simp add: serve_cached_def answered_def fresh_def write_body_def write_header_def set_resp_header_def Let_def)
    qed
  next
    case False
    then have "hit = None" "cache = hs_cache s" using g by simp_all
    with False miss show ?thesis by (simp add: miss_effect_def)
  qed
qed

lemma HandleRequest_effect:
  assumes "fresh c" "rq_Body c = Some b" "0 \<le> dp_maxBodySize dp" "dp_maxBodySize dp < max_int64"
    "HandleRequest dp s c = (err, c', s')" "asks b (rq_RawQuery c) = (m, h)"
  shows "hs_cache s' = hs_cache s
    \<or> (IsCacheable m h \<and>
       (case dp_get dp m h b (hs_cache s) of
          (Some r, cache) \<Rightarrow> answered err c' r \<and> hs_cache s' = cache \<and> hs_sent s' = hs_sent s
        | (None, cache) \<Rightarrow> miss_effect dp m h b True cache (err, c', s')))"
proof (cases "within_limit dp c b")
  case False
  with Handle_rejects_or_within [OF assms(2-4)] obtain e where "HandleRequest dp s c = (Some e, c, s)" by blast
  with assms(5) show ?thesis by simp
next
  case True
  obtain rd r where route: "router_Route (dp_draw dp) b (hs_router s) = (rd, r)" by (metis surj_pair)
  show ?thesis
  proof (cases "\<exists>d. rd = Inr d \<and> \<not> method_forbidden (rd_Method d) (cv_TokenInfo c)")
    case False
    then have "hs_cache s' = hs_cache s"
      using assms(5) HandleRequest_within [OF True, of s] route by (cases rd) auto
    then show ?thesis by simp
  next
    case ok: True
    then obtain d where d: "rd = Inr d" "\<not> method_forbidden (rd_Method d) (cv_TokenInfo c)" by blast
    let ?s = "s\<lparr>hs_router := r\<rparr>"
    have sd: "serve_decision dp d (rq_Path c) (rq_RawQuery c) (Some b) ?s (routed_ctx d c) = (err, c', s')"
      using assms(5) HandleRequest_within [OF True, of s] route d by simp
    have "rd_Method d = (if b = [] then [] else fst (parseJSONRPCMethod b))"
      using route d(1) by (auto simp: router_Route_def split_beta Let_def split: option.splits if_splits)
    then have mh: "rd_Method d = m" "request_height m (rq_RawQuery c) b = h"
      using assms(6) by (auto simp: asks_def Let_def split: if_splits)
    have "fresh (routed_ctx d c)" using assms(1) by (simp add: fresh_def routed_ctx_def)
    note e = serve_decision_effect [OF this sd mh]
    have "hs_cache ?s = hs_cache s" "hs_sent ?s = hs_sent s" by simp_all
    from e [unfolded this] show ?thesis by (cases "IsCacheable m h") simp_all
  qed
qed

subsection \<open>Runs\<close>

definition served_by_request :: "(string \<Rightarrow> string \<Rightarrow> bool) \<Rightarrow> string \<Rightarrow> int \<Rightarrow> string \<Rightarrow> string \<Rightarrow> ctx \<times> herror option \<times> ctx \<Rightarrow> bool" where
  "served_by_request same m h p r entry \<longleftrightarrow>
     (case entry of (c, err, c') \<Rightarrow>
        \<exists>b. rq_Body c = Some b \<and> asks b (rq_RawQuery c) = (m, h) \<and> same p b \<and> IsCacheable m h
            \<and> answered err c' r \<and> \<not> isPrunedError 200 r)"

definition servable :: "int \<Rightarrow> ctx \<Rightarrow> bool" where
  "servable mx c \<longleftrightarrow> fresh c \<and> rq_Body c \<noteq> None \<and> 0 \<le> mx \<and> mx < max_int64"

context response_cache
begin

lemma handled_held:
  assumes "HandleRequest dp s c = (err, c', s')" "dp_get dp = get e" "dp_set dp = put e" "servable (dp_maxBodySize dp) c"
    "held (hs_cache s') m h p = Some r"
  shows "held (hs_cache s) m h p = Some r \<or> served_by_request (\<lambda>p b. same b p) m h p r (c, err, c')"
proof -
  obtain b where b: "rq_Body c = Some b" using assms(4) by (auto simp: servable_def)
  obtain m1 h1 where mh: "asks b (rq_RawQuery c) = (m1, h1)" by (metis surj_pair)
  have f: "fresh c" "0 \<le> dp_maxBodySize dp" "dp_maxBodySize dp < max_int64" using assms(4) by (simp_all add: servable_def)
  obtain hit cache where g: "get e m1 h1 b (hs_cache s) = (hit, cache)" by (metis surj_pair)
  have keep: "held cache m' h' p' = held (hs_cache s) m' h' p'" for m' h' p'
    using get_keeps [of e m1 h1 b "hs_cache s" m' h' p'] g by simp
  from HandleRequest_effect [OF f(1) b f(2,3) assms(1) mh]
  consider "hs_cache s' = hs_cache s" | "hs_cache s' = cache"
    | "IsCacheable m1 h1" "answered err c' (rs_Body c')" "\<not> isPrunedError 200 (rs_Body c')"
      "hs_cache s' = put e m1 h1 b (rs_Body c') cache"
    unfolding assms(2) g by (cases hit) (auto simp: miss_effect_def assms(3) split: if_splits)
  then show ?thesis
  proof cases
    case 3
    from put_held [OF assms(5) [unfolded 3(4)]] keep 3 b mh show ?thesis
      by (auto simp: served_by_request_def)
  qed (use assms(5) keep in simp_all)
qed

end

definition with_cache ::
  "(string \<Rightarrow> string) \<Rightarrow> cache_env \<Rightarrow> (redis_cache \<times> cache_metrics, 'w) deps \<Rightarrow> (redis_cache \<times> cache_metrics, 'w) deps" where
  "with_cache H e dp = dp\<lparr>dp_get := instrumented_Get (redis_Get H) e, dp_set := instrumented_Set (redis_Set H) e\<rparr>"

lemma with_cache_simps [simp]:
  "dp_get (with_cache H e dp) = instrumented_Get (redis_Get H) e" "dp_set (with_cache H e dp) = instrumented_Set (redis_Set H) e"
  "dp_maxBodySize (with_cache H e dp) = dp_maxBodySize dp"
  by (simp_all add: with_cache_def)

text \<open>A run: each request with the state of Redis and the deps of its time; the list of the answers.\<close>

fun handle_all ::
  "(string \<Rightarrow> string) \<Rightarrow> (cache_env \<times> (redis_cache \<times> cache_metrics, 'w) deps \<times> ctx) list \<Rightarrow>
   (redis_cache \<times> cache_metrics, 'w) hstate \<Rightarrow> (ctx \<times> herror option \<times> ctx) list \<times> (redis_cache \<times> cache_metrics, 'w) hstate" where
  "handle_all H [] s = ([], s)"
| "handle_all H ((e, dp, c) # rqs) s =
     (case HandleRequest (with_cache H e dp) s c of (err, c', s1) \<Rightarrow>
        (case handle_all H rqs s1 of (outs, s2) \<Rightarrow> ((c, err, c') # outs, s2)))"

lemma handle_all_held:
  assumes "handle_all H rqs s = (outs, s')" "list_all (\<lambda>(e, dp, c). servable (dp_maxBodySize dp) c) rqs"
    "redis_held H (fst (hs_cache s')) m h p = Some r"
  shows "redis_held H (fst (hs_cache s)) m h p = Some r
    \<or> list_ex (served_by_request (\<lambda>p b. same_print H b p) m h p r) outs"
  using assms
proof (induction rqs arbitrary: s outs)
  case (Cons rq rqs)
  obtain e dp c where rq: "rq = (e, dp, c)" by (metis surj_pair)
  obtain err c' s1 where h1: "HandleRequest (with_cache H e dp) s c = (err, c', s1)" by (metis surj_pair)
  obtain outs1 s2 where h2: "handle_all H rqs s1 = (outs1, s2)" by (metis surj_pair)
  from Cons.prems(1) rq h1 h2 have outs: "outs = (c, err, c') # outs1" "s2 = s'" by simp_all
  have sv: "servable (dp_maxBodySize (with_cache H e dp)) c" using Cons.prems(2) rq by simp
  from Cons.IH [OF h2 [unfolded outs(2)]] Cons.prems(2,3)
  have "redis_held H (fst (hs_cache s1)) m h p = Some r
      \<or> list_ex (served_by_request (\<lambda>p b. same_print H b p) m h p r) outs1" by simp
  with counted.handled_held [OF h1 _ _ sv, of H e m h p r] outs show ?case by auto
qed simp

text \<open>A cacheable request that passes the gate is routed and served under its method and height.\<close>

lemma cacheable_effect:
  assumes "HandleRequest dp s c = (err, c', s')" "within_limit dp c b" "fresh c" "asks b (rq_RawQuery c) = (m, h)"
    "\<not> method_forbidden m (cv_TokenInfo c)" "IsCacheable m h"
  shows "case dp_get dp m h b (hs_cache s) of
      (Some r, cache) \<Rightarrow> answered err c' r \<and> hs_cache s' = cache \<and> hs_sent s' = hs_sent s
    | (None, cache) \<Rightarrow> miss_effect dp m h b True cache (err, c', s')"
proof -
  have m: "m = (if b = [] then [] else fst (parseJSONRPCMethod b))" "request_height m (rq_RawQuery c) b = h"
    using assms(4) by (auto simp: asks_def Let_def split: if_splits)
  moreover have "m \<noteq> []" using assms(6) by (auto simp: IsCacheable_def cacheableMethods_def split: if_splits)
  ultimately have b: "b \<noteq> []" "fst (parseJSONRPCMethod b) \<noteq> []" by (auto split: if_splits)
  then have "snd (snd (parseJSONRPCMethod b)) = None"
    by (auto simp: parseJSONRPCMethod_def Let_def split: if_splits option.splits list.splits)
  then obtain d rt where d: "router_Route (dp_draw dp) b (hs_router s) = (Inr d, rt)" "rd_Method d = m"
    using b(1) m(1) by (simp add: router_Route_def split_beta Let_def)
  let ?s = "s\<lparr>hs_router := rt\<rparr>"
  have sd: "serve_decision dp d (rq_Path c) (rq_RawQuery c) (Some b) ?s (routed_ctx d c) = (err, c', s')"
    using assms(1,5) HandleRequest_within [OF assms(2), of s] d by simp
  have "fresh (routed_ctx d c)" using assms(3) by (simp add: fresh_def routed_ctx_def)
  note e = serve_decision_effect [OF this sd d(2) m(2)]
  have "hs_cache ?s = hs_cache s" "hs_sent ?s = hs_sent s" by simp_all
  from e [unfolded this] assms(6) show ?thesis by simp
qed

lemma hit_is_served:
  assumes "HandleRequest dp s c = (err, c', s')" "within_limit dp c b" "fresh c" "asks b (rq_RawQuery c) = (m, h)"
    "\<not> method_forbidden m (cv_TokenInfo c)" "IsCacheable m h" "dp_get dp m h b (hs_cache s) = (Some r, cache)"
  shows "answered err c' r \<and> hs_sent s' = hs_sent s"
  using cacheable_effect [OF assms(1-6)] assms(7) by simp

lemma miss_is_stored:
  assumes "HandleRequest dp s c = (err, c', s')" "within_limit dp c b" "fresh c" "asks b (rq_RawQuery c) = (m, h)"
    "\<not> method_forbidden m (cv_TokenInfo c)" "IsCacheable m h" "dp_get dp m h b (hs_cache s) = (None, cache)"
  shows "hs_cache s' =
     (if answered err c' (rs_Body c') \<and> \<not> isPrunedError 200 (rs_Body c')
      then dp_set dp m h b (rs_Body c') cache else cache)"
  using cacheable_effect [OF assms(1-6)] assms(7) by (simp add: miss_effect_def)

text \<open>After a cache miss for a cacheable method and height, the cache holds exactly what the
  client got when the client got a 200 whose body is not a pruned-block error, and is untouched
  otherwise; so an error answer that comes with status 200 and none of the six phrases, for instance
  one for a block that does not exist yet, is kept and replayed like a block.\<close>

theorem miss_stores_exactly:
  assumes "within_limit dp c b" "fresh c" "asks b (rq_RawQuery c) = (m, h)" "IsCacheable m h"
    "\<not> method_forbidden m (cv_TokenInfo c)" "dp_get dp m h b (hs_cache s) = (None, cache)"
    "HandleRequest dp s c = (err, c', s')"
  shows "hs_cache s' =
     (if answered err c' (rs_Body c') \<and> \<not> isPrunedError 200 (rs_Body c')
      then dp_set dp m h b (rs_Body c') cache else cache)"
  by (rule miss_is_stored [OF assms(7,1,2,3,5,4,6)])

text \<open>C8: Over any run from an empty cache, whatever the backends, Redis failures and expiries, a
  request answered from the cache gets the bytes an earlier client got: for a request of the same
  cacheable method and positive height with an equal body fingerprint, answered 200 and without a
  pruned-block error; and a hit contacts no backend.\<close>

theorem cached_answer_was_served:
  assumes "handle_all H rqs s = (outs, s1)" "list_all (\<lambda>(e, dp, c). servable (dp_maxBodySize dp) c) rqs"
    "hs_cache s = (NewRedisCache ttl mx, new_cache_metrics)"
    "HandleRequest (with_cache H e dp) s1 c = (err, c', s')" "within_limit dp c b" "fresh c"
    "asks b (rq_RawQuery c) = (m, h)" "IsCacheable m h" "\<not> method_forbidden m (cv_TokenInfo c)"
    "fst (instrumented_Get (redis_Get H) e m h b (hs_cache s1)) = Some r"
  shows "answered err c' r \<and> hs_sent s' = hs_sent s1
    \<and> (\<exists>(c0, err0, c0') \<in> set outs. \<exists>b0. rq_Body c0 = Some b0 \<and> asks b0 (rq_RawQuery c0) = (m, h)
         \<and> take 16 (H b0) = take 16 (H b) \<and> answered err0 c0' r \<and> \<not> isPrunedError 200 r)"
proof -
  obtain cache where g: "instrumented_Get (redis_Get H) e m h b (hs_cache s1) = (Some r, cache)"
    using assms(10) by (metis prod.collapse)
  have "within_limit (with_cache H e dp) c b" using assms(5) by (simp add: within_limit_def)
  then have hit: "answered err c' r \<and> hs_sent s' = hs_sent s1"
    using hit_is_served [OF assms(4) _ assms(6,7,9,8)] g by simp
  have "redis_held H (fst (hs_cache s1)) m h b = Some r" by (rule counted.get_held [OF assms(10)])
  from handle_all_held [OF assms(1,2) this] assms(3)
  have "list_ex (served_by_request (\<lambda>p b. same_print H b p) m h b r) outs"
    by (simp add: redis_held_def NewRedisCache_def Let_def)
  then have "\<exists>(c0, err0, c0') \<in> set outs. \<exists>b0. rq_Body c0 = Some b0 \<and> asks b0 (rq_RawQuery c0) = (m, h)
         \<and> take 16 (H b0) = take 16 (H b) \<and> answered err0 c0' r \<and> \<not> isPrunedError 200 r"
    by (fastforce simp: list_ex_iff served_by_request_def same_print_def)
  with hit show ?thesis by blast
qed

definition block_request :: jval where "block_request = VObj [(''method'', VStr ''block'')]"

definition block_ctx :: ctx where
  "block_ctx = new_ctx ''/'' ''height=7'' Map.empty (render block_request) ''1.2.3.4''"

definition caching_deps :: "(redis_cache \<times> cache_metrics, unit) deps" where
  "caching_deps = \<lparr>dp_maxBodySize = 1000, dp_draw = steady,
     dp_parse = (\<lambda>u. Some \<lparr>tg_Scheme = ''http'', tg_Host = u, tg_String = u\<rparr>),
     dp_exchange = (\<lambda>out w. (Some \<lparr>us_Status = 200, us_Header = Map.empty, us_Body = ''{}''\<rparr>, 5000000, w)),
     dp_get = (\<lambda>m h b c. (None, c)), dp_set = (\<lambda>m h b r c. c)\<rparr>"

definition caching_start :: "(redis_cache \<times> cache_metrics, unit) hstate" where
  "caching_start = \<lparr>hs_router = NewRouter sample_backends, hs_cache = (NewRedisCache 0 0, new_cache_metrics),
     hs_world = (), hs_sent = []\<rparr>"

lemma block_request_props:
  "plain_val 0 block_request" "request_doc block_request" "doc_method block_request = ''block''"
  "length (render block_request) < 1000"
  by (simp_all add: block_request_def max_nesting_def plain_simps quoted_def)

lemma block_ctx_props:
  "fresh block_ctx" "rq_Body block_ctx = Some (render block_request)" "cv_TokenInfo block_ctx = None"
  "rq_RawQuery block_ctx = ''height=7''" "servable (dp_maxBodySize caching_deps) block_ctx"
  "within_limit caching_deps block_ctx (render block_request)"
  using block_request_props(4)
  by (simp_all add: block_ctx_def new_ctx_def fresh_def servable_def within_limit_def caching_deps_def max_int64_def)

lemma block_height: "request_height ''block'' ''height=7'' (render block_request) = 7"
proof -
  have "unmarshal_raw_struct ''params'' (render block_request) = Some []"
    using json_parse_render [OF block_request_props(1)]
    by (simp add: unmarshal_raw_struct_def block_request_def checked_def decode_raw_struct_def set_raw_field_def)
  then have "ExtractHeight ''block'' (render block_request) = 0"
    by (simp add: ExtractHeight_def split: option.split)
  moreover have "ExtractHeightFromQuery ''height=7'' = 7" by code_simp
  ultimately show ?thesis by (simp add: request_height_def)
qed

lemma block_asks: "asks (render block_request) ''height=7'' = (''block'', 7)"
proof -
  have "render block_request \<noteq> []" using render_ends by blast
  then show ?thesis
    using parse_method_single [OF block_request_props(1,2)] block_request_props(3) block_height
    by (simp add: asks_def Let_def)
qed

lemma block_cacheable: "IsCacheable ''block'' 7"
  by (simp add: IsCacheable_def nonCacheableMethods_def cacheableMethods_def)

text \<open>The sample request's first answer: one backend, no retry.\<close>

lemma block_answered:
  assumes "HandleRequest (with_cache id \<lparr>ce_now = 5, ce_ok = True\<rparr> caching_deps) caching_start block_ctx = (err, c', s')"
  shows "answered err c' ''{}''"
proof -
  let ?b = "render block_request" and ?e = "\<lparr>ce_now = 5, ce_ok = True\<rparr>"
  let ?dp = "with_cache id ?e caching_deps"
  have w: "within_limit ?dp block_ctx ?b" using block_ctx_props(6) by (simp add: within_limit_def)
  have ne: "?b \<noteq> []" using render_ends by blast
  have na: "\<not> archival_request (NewRouter sample_backends) m b" for m b
    by (simp add: archival_request_def NewRouter_def IsArchival_def NewHeightTracker_def Let_def)
  have rb: "resolveBackend ''block'' = BackendCelestiaAppRPC"
    by (simp add: resolveBackend_def extractNamespace_def daNamespaces_def Let_def)
  obtain d r where d: "router_Route (dp_draw ?dp) ?b (hs_router caching_start) = (Inr d, r)" "rd_Method d = ''block''"
      "rd_Backend d = BackendCelestiaAppRPC"
    using parse_method_single [OF block_request_props(1,2)] block_request_props(3) ne na rb
    by (simp add: router_Route_def Let_def split_beta route_backend_eq caching_start_def)
  have pools: "router_AllEndpoints bk r = router_AllEndpoints bk (NewRouter sample_backends)" for bk
    using router_Route_frame(1) [of bk "dp_draw ?dp" ?b "hs_router caching_start"] d(1) by (simp add: caching_start_def)
  have retry: "\<not> canRetry BackendCelestiaAppRPC 7 r"
    by (simp add: canRetry_def HasArchival_iff pools archivalBackend_def sample_backends_def)
  let ?s = "caching_start\<lparr>hs_router := r\<rparr>" and ?c = "routed_ctx d block_ctx"
  have h: "serve_decision ?dp d (rq_Path block_ctx) ''height=7'' (Some ?b) ?s ?c = (err, c', s')"
    using assms HandleRequest_within [OF w, of caching_start] d block_ctx_props(3,4) by (simp add: method_forbidden_def)
  obtain cache where miss: "dp_get ?dp ''block'' 7 ?b (hs_cache ?s) = (None, cache)"
    by (simp add: instrumented_Get_def redis_Get_def caching_start_def NewRedisCache_def Let_def)
  obtain t where t: "dp_parse ?dp (rd_TargetURL d) = Some t" by (simp add: with_cache_def caching_deps_def)
  have "serve_decision ?dp d (rq_Path block_ctx) ''height=7'' (Some ?b) ?s ?c
      = proxyDirect ?dp d t (rq_Path block_ctx) ''height=7'' (Some ?b) 7 True (?s\<lparr>hs_cache := cache\<rparr>) ?c"
    using retry d(2,3) miss t block_height block_cacheable unfolding serve_decision_def Let_def
    by (simp del: with_cache_simps)
  with h have "proxyDirect ?dp d t (rq_Path block_ctx) ''height=7'' (Some ?b) 7 True (?s\<lparr>hs_cache := cache\<rparr>) ?c = (err, c', s')"
    by simp
  moreover have "dp_exchange ?dp out w = (Some \<lparr>us_Status = 200, us_Header = Map.empty, us_Body = ''{}''\<rparr>, 5000000, w)" for out w
    by (simp add: with_cache_def caching_deps_def)
  moreover have "\<not> rs_Committed ?c" "rs_Body ?c = []" using block_ctx_props(1) by (simp_all add: fresh_def routed_ctx_def)
  ultimately show ?thesis
    by (auto simp: proxyDirect_def Let_def exchange_def modify_response_def serve_response_def answered_def
        write_body_def write_header_def split: if_splits)
qed

lemma block_not_pruned: "\<not> isPrunedError 200 ''{}''"
  by code_simp

lemma block_within: "within_limit (with_cache id e caching_deps) block_ctx (render block_request)"
  using block_ctx_props(6) by (simp add: within_limit_def)

lemma block_allowed: "\<not> method_forbidden ''block'' (cv_TokenInfo block_ctx)"
  by (simp add: method_forbidden_def block_ctx_props)

lemma block_miss:
  "dp_get (with_cache id \<lparr>ce_now = 5, ce_ok = True\<rparr> caching_deps) ''block'' 7 b (hs_cache caching_start)
     = (None, NewRedisCache 0 0, count_get False new_cache_metrics)"
  by (simp add: instrumented_Get_def redis_Get_def caching_start_def NewRedisCache_def Let_def)

theorem miss_stores_exactly_witness:
  "hs_cache (snd (snd (HandleRequest (with_cache id \<lparr>ce_now = 5, ce_ok = True\<rparr> caching_deps) caching_start block_ctx)))
     = instrumented_Set (redis_Set id) \<lparr>ce_now = 5, ce_ok = True\<rparr> ''block'' 7 (render block_request) ''{}''
         (NewRedisCache 0 0, count_get False new_cache_metrics)"
proof -
  obtain err c' s' where h: "HandleRequest (with_cache id \<lparr>ce_now = 5, ce_ok = True\<rparr> caching_deps) caching_start block_ctx = (err, c', s')"
    by (metis surj_pair)
  from miss_stores_exactly [OF block_within block_ctx_props(1) _ block_cacheable block_allowed block_miss h]
    block_answered [OF h] block_not_pruned block_asks
  show ?thesis by (simp add: h answered_def block_ctx_props)
qed

theorem cached_answer_was_served_witness:
  "let (outs, s1) = handle_all id [(\<lparr>ce_now = 5, ce_ok = True\<rparr>, caching_deps, block_ctx)] caching_start;
       (err, c', s') = HandleRequest (with_cache id \<lparr>ce_now = 6, ce_ok = True\<rparr> caching_deps) s1 block_ctx
   in answered err c' ''{}'' \<and> hs_sent s' = hs_sent s1"
proof -
  let ?rqs = "[(\<lparr>ce_now = 5, ce_ok = True\<rparr>, caching_deps, block_ctx)]"
  obtain err1 c1 s1 where h: "HandleRequest (with_cache id \<lparr>ce_now = 5, ce_ok = True\<rparr> caching_deps) caching_start block_ctx = (err1, c1, s1)"
    by (metis surj_pair)
  then have run: "handle_all id ?rqs caching_start = ([(block_ctx, err1, c1)], s1)" by simp
  obtain err c' s' where h2: "HandleRequest (with_cache id \<lparr>ce_now = 6, ce_ok = True\<rparr> caching_deps) s1 block_ctx = (err, c', s')"
    by (metis surj_pair)
  have "asks (render block_request) (rq_RawQuery block_ctx) = (''block'', 7)" by (simp add: block_ctx_props block_asks)
  note st = miss_is_stored [OF h block_within block_ctx_props(1) this block_allowed block_cacheable block_miss]
  have "answered err1 c1 ''{}''" by (rule block_answered [OF h])
  then have "hs_cache s1 = instrumented_Set (redis_Set id) \<lparr>ce_now = 5, ce_ok = True\<rparr> ''block'' 7 (render block_request) ''{}''
         (NewRedisCache 0 0, count_get False new_cache_metrics)"
    using st block_not_pruned by (simp add: answered_def)
  then have hit: "fst (instrumented_Get (redis_Get id) \<lparr>ce_now = 6, ce_ok = True\<rparr> ''block'' 7 (render block_request) (hs_cache s1)) = Some ''{}''"
    by (simp add: instrumented_Get_def instrumented_Set_def redis_Get_def redis_Set_def NewRedisCache_def Let_def)
  have init: "hs_cache caching_start = (NewRedisCache 0 0, new_cache_metrics)" by (simp add: caching_start_def)
  from cached_answer_was_served [OF run _ init h2 block_ctx_props(6) block_ctx_props(1) _ block_cacheable block_allowed hit]
    block_ctx_props(4,5) block_asks
  show ?thesis by (simp add: run h2 del: handle_all.simps)
qed

end
