(* ===== verification/MethodGate.thy ===== *)
theory MethodGate
  imports Handler
begin

text \<open>
  The method check of \<open>HandleRequest\<close> (\<open>internal/proxy/handler.go\<close>): what it stops, and which requests
  pass beside it.
\<close>

subsection \<open>The method gate\<close>

lemma request_height_zero [simp]:
  "ExtractHeight m b = 0 \<Longrightarrow> request_height m [] b = 0"
  by (simp add: request_height_def ExtractHeightFromQuery_def)

lemma not_cacheable_zero [simp]: "\<not> IsCacheable m 0"
  by (simp add: IsCacheable_def)

lemma canRetry_zero [simp]: "\<not> canRetry b 0 r"
  by (simp add: canRetry_def)

text \<open>A request without a height is sent once, to the target of its decision.\<close>

lemma serve_heightless:
  assumes "request_height (rd_Method d) q (case body of Some b \<Rightarrow> b | None \<Rightarrow> []) = 0" "dp_parse dp (rd_TargetURL d) = Some t"
  shows "hs_sent (snd (snd (serve_decision dp d path q body s c))) = hs_sent s @ [director t path q body c]"
    "hs_cache (snd (snd (serve_decision dp d path q body s c))) = hs_cache s"
  using assms
  by (simp_all add: serve_decision_def Let_def proxyDirect_def exchange_def modify_response_def
      split: prod.split option.split)


definition read_only_token :: token_info where
  "read_only_token = \<lparr>ti_Name = ''reader'', ti_Enabled = True, ti_RateLimit = 0, ti_Scope = ''read-only'',
     ti_AllowedMethods = [], ti_ExpiresAt = None\<rparr>"

definition sample_submit :: jval where "sample_submit = VObj [(''method'', VStr ''blob.Submit'')]"
definition sample_status :: jval where "sample_status = VObj [(''method'', VStr ''status'')]"

lemma sample_submit_props:
  "plain_val 0 sample_submit" "request_doc sample_submit" "doc_method sample_submit = ''blob.Submit''"
  "doc_method sample_status = ''status''"
  "plain_val 0 (VArr [sample_status, sample_submit])" "list_all request_doc [sample_status, sample_submit]"
  "IsMethodAllowed read_only_token ''status''" "\<not> IsMethodAllowed read_only_token ''blob.Submit''"
  by (simp_all add: sample_submit_def sample_status_def max_nesting_def plain_simps read_only_token_def
      IsMethodAllowed_def isScopeAllowed_def writeMethods_def)

lemma sample_sizes:
  "length (render sample_submit) < 1000" "length (render (VArr [sample_status, sample_submit])) < 1000"
  by (simp_all add: sample_submit_def sample_status_def quoted_def)

definition reader_post :: "string \<Rightarrow> ctx" where
  "reader_post b = (new_ctx ''/'' [] Map.empty b ''1.2.3.4'')\<lparr>cv_TokenInfo := Some read_only_token\<rparr>"

lemma reader_post_within: "length b < 1000 \<Longrightarrow> within_limit sample_deps (reader_post b) b"
  by (simp add: within_limit_def sample_deps_def reader_post_def new_ctx_def max_int64_def)

lemma reader_post_simps [simp]:
  "cv_TokenInfo (reader_post b) = Some read_only_token" "rq_RawQuery (reader_post b) = []" "rq_Path (reader_post b) = ''/''"
  by (simp_all add: reader_post_def new_ctx_def)

lemma sample_deps_simps [simp]: "dp_parse sample_deps u = Some \<lparr>tg_Scheme = ''http'', tg_Host = u, tg_String = u\<rparr>"
  "dp_draw sample_deps = steady"
  by (simp_all add: sample_deps_def)




text \<open>A request without a body has no method to check: whatever the token's scope and allowlist,
  its path and query reach an endpoint of the app's RPC, which takes its method from the path.\<close>

theorem bodyless_passes_gate:
  assumes "within_limit dp c []" "ExtractHeightFromQuery (rq_RawQuery c) = 0"
    "dp_parse dp (fst (router_TargetURL (dp_draw dp) BackendCelestiaAppRPC (hs_router s))) = Some t"
    "HandleRequest dp s c = (err, c', s')"
  shows "\<exists>out. hs_sent s' = hs_sent s @ [out] \<and> or_RawQuery out = rq_RawQuery c
    \<and> or_Host out = tg_Host t \<and> or_Path out = (if rq_Path c = [] then ''/'' else rq_Path c)"
proof -
  obtain d r where d: "router_Route (dp_draw dp) [] (hs_router s) = (Inr d, r)" "rd_Method d = []"
      "rd_TargetURL d = fst (router_TargetURL (dp_draw dp) BackendCelestiaAppRPC (hs_router s))"
    by (simp add: router_Route_def split_beta)
  have h: "HandleRequest dp s c =
      serve_decision dp d (rq_Path c) (rq_RawQuery c) (Some []) (s\<lparr>hs_router := r\<rparr>) (routed_ctx d c)"
    using HandleRequest_within [OF assms(1), of s] d(1,2) by (simp add: method_forbidden_def)
  have "ExtractHeight [] [] = 0" by (simp add: ExtractHeight_def heightBearingMethods_def)
  then have "request_height (rd_Method d) (rq_RawQuery c) [] = 0"
    using assms(2) d(2) by (simp add: request_height_def)
  from serve_heightless(1) [of d "rq_RawQuery c" "Some []" dp t "rq_Path c" "s\<lparr>hs_router := r\<rparr>" "routed_ctx d c"] this
    assms(3,4) d(3) h
  have "hs_sent s' = hs_sent s @ [director t (rq_Path c) (rq_RawQuery c) (Some []) (routed_ctx d c)]" by simp
  then show ?thesis by (intro exI conjI) (assumption, simp_all add: director_def)
qed

theorem bodyless_passes_gate_witness:
  "map or_Path (hs_sent (snd (snd (HandleRequest sample_deps sample_hstate
     ((reader_post [])\<lparr>rq_Path := ''/broadcast_tx_sync''\<rparr>))))) = [''/broadcast_tx_sync'']"
proof -
  let ?c = "(reader_post [])\<lparr>rq_Path := ''/broadcast_tx_sync''\<rparr>"
  obtain err c' s' where h: "HandleRequest sample_deps sample_hstate ?c = (err, c', s')" by (metis surj_pair)
  have w: "within_limit sample_deps ?c []"
    using reader_post_within [of "[]"] by (simp add: within_limit_def)
  from bodyless_passes_gate [OF w _ _ h] h
  have "\<exists>out. hs_sent s' = hs_sent sample_hstate @ [out] \<and> or_Path out = ''/broadcast_tx_sync''"
    by (auto simp: ExtractHeightFromQuery_def)
  with h show ?thesis by (auto simp: sample_hstate_def)
qed

end
