(* ===== verification/Retry.thy ===== *)
theory Retry
  imports Handler
begin

text \<open>
  The retry path of \<open>internal/proxy/handler.go\<close> against an abstract plan: the list of endpoints worth
  asking, in order, and the first good answer among theirs. The exchange is one whose answers depend
  on the request alone (\<open>stateless\<close>).
\<close>

definition first_or_last :: "('a \<Rightarrow> bool) \<Rightarrow> 'a list \<Rightarrow> 'a \<Rightarrow> 'a" where
  "first_or_last P xs d = (case find P xs of Some x \<Rightarrow> x | None \<Rightarrow> last (d # xs))"

text \<open>The list up to and with the first element that satisfies the predicate.\<close>

fun upto_first :: "('a \<Rightarrow> bool) \<Rightarrow> 'a list \<Rightarrow> 'a list" where
  "upto_first P [] = []"
| "upto_first P (x # xs) = (if P x then [x] else x # upto_first P xs)"

lemma upto_first_append:
  "upto_first P (xs @ ys) = (if list_ex P xs then upto_first P xs else xs @ upto_first P ys)"
  by (induction xs) auto

lemma find_append: "find P (xs @ ys) = (case find P xs of Some x \<Rightarrow> Some x | None \<Rightarrow> find P ys)"
  by (induction xs) auto

lemma find_None_ex: "find P xs = None \<longleftrightarrow> \<not> list_ex P xs"
  by (induction xs) auto

lemma upto_first_none: "\<not> list_ex P xs \<Longrightarrow> upto_first P xs = xs"
  by (induction xs) auto

lemma first_or_last_append:
  "\<not> list_ex P xs \<Longrightarrow> first_or_last P (xs @ ys) d = first_or_last P ys (first_or_last P xs d)"
  by (auto simp: first_or_last_def find_append find_None_ex [symmetric] split: option.split)

lemma list_ex_map_comp: "list_ex P (map f xs) = list_ex (P \<circ> f) xs"
  by (induction xs) auto

definition good_answer :: "upstream \<Rightarrow> bool" where
  "good_answer a \<longleftrightarrow> \<not> isPrunedError (us_Status a) (us_Body a)"

definition stateless :: "('c, 'w) deps \<Rightarrow> (out_request \<Rightarrow> upstream option) \<Rightarrow> bool" where
  "stateless dp ans \<longleftrightarrow> (\<forall>out w. fst (dp_exchange dp out w) = ans out)"

text \<open>What a buffered attempt at a target yields.\<close>

definition answer_of :: "(out_request \<Rightarrow> upstream option) \<Rightarrow> string \<Rightarrow> string \<Rightarrow> string option \<Rightarrow> ctx \<Rightarrow> target \<Rightarrow> upstream" where
  "answer_of ans path q body c t =
     (case ans (director t path q body c) of
        Some a \<Rightarrow> a | None \<Rightarrow> \<lparr>us_Status = 502, us_Header = Map.empty, us_Body = unavailable_body\<rparr>)"

text \<open>The targets of a pool: the endpoints that parse, without the one already tried.\<close>

definition pool_targets :: "('c, 'w) deps \<Rightarrow> string option \<Rightarrow> endpoints \<Rightarrow> target list" where
  "pool_targets dp tried pool = List.map_filter (dp_parse dp) (filter (\<lambda>ep. Some ep \<noteq> tried) pool)"

definition retry_plan :: "('c, 'w) deps \<Rightarrow> route_decision \<Rightarrow> target \<Rightarrow> router \<Rightarrow> (backend \<times> target) list" where
  "retry_plan dp d t r =
     (rd_Backend d, t)
     # map (Pair (rd_Backend d)) (pool_targets dp (Some (tg_String t)) (router_AllEndpoints (rd_Backend d) r))
     @ (if HasArchivalBackend (rd_Backend d) r
        then map (Pair (archivalBackend (rd_Backend d)))
               (pool_targets dp None (router_AllEndpoints (archivalBackend (rd_Backend d)) r))
        else [])"

lemma exchange_stateless:
  assumes "stateless dp ans" "exchange dp backend u out s = (resp, s')"
  shows "resp = ans out" "hs_sent s' = hs_sent s @ [out]" "same_pools s s'"
proof -
  show "resp = ans out" using assms(1) [unfolded stateless_def, rule_format, of out "hs_world s"] assms(2)
    by (simp add: exchange_def split: prod.splits)
  show "hs_sent s' = hs_sent s @ [out]" using assms(2) by (auto simp: exchange_def split: prod.splits)
  show "same_pools s s'" using assms(2) by (auto simp: exchange_def same_pools_def split: prod.splits)
qed

lemma tryEndpoint_stateless:
  assumes "stateless dp ans" "tryEndpoint dp c t path q body backend u s = (buf, s')"
  shows "buf = answer_of ans path q body c t \<and> hs_sent s' = hs_sent s @ [director t path q body c] \<and> same_pools s s'"
proof -
  obtain resp s1 where x: "exchange dp backend u (director t path q body c) s = (resp, s1)" by (metis surj_pair)
  from exchange_stateless [OF assms(1) x] assms(2) x show ?thesis
    by (auto simp: tryEndpoint_def answer_of_def split: option.splits)
qed

lemma same_pools_trans: "same_pools s1 s2 \<Longrightarrow> same_pools s2 s3 \<Longrightarrow> same_pools s1 s3"
  by (simp add: same_pools_def)

lemma try_pool_stateless:
  assumes "stateless dp ans"
  shows "try_pool dp c path q body backend tried pool buf s = (found, buf', s') \<Longrightarrow>
    (let ts = pool_targets dp tried pool; a = answer_of ans path q body c
     in found = list_ex (good_answer \<circ> a) ts \<and> buf' = first_or_last good_answer (map a ts) buf
        \<and> hs_sent s' = hs_sent s @ map (\<lambda>t. director t path q body c) (upto_first (good_answer \<circ> a) ts)
        \<and> same_pools s s')"
proof (induction pool arbitrary: buf s)
  case Nil
  then show ?case by (simp add: pool_targets_def first_or_last_def List.map_filter_def)
next
  case (Cons ep pool)
  show ?case
  proof (cases "Some ep = tried \<or> dp_parse dp ep = None")
    case True
    with Cons.prems have "try_pool dp c path q body backend tried pool buf s = (found, buf', s')" by (auto split: if_splits)
    moreover have "pool_targets dp tried (ep # pool) = pool_targets dp tried pool"
      using True by (auto simp: pool_targets_def map_filter_simps)
    ultimately show ?thesis using Cons.IH by simp
  next
    case False
    then obtain t buf1 s1 where t: "dp_parse dp ep = Some t" "tryEndpoint dp c t path q body backend ep s = (buf1, s1)"
      by (metis not_Some_eq surj_pair)
    have p: "pool_targets dp tried (ep # pool) = t # pool_targets dp tried pool"
      using False t(1) by (auto simp: pool_targets_def map_filter_simps)
    note e = tryEndpoint_stateless [OF assms t(2)]
    show ?thesis
    proof (cases "good_answer buf1")
      case True
      with Cons.prems False t e show ?thesis
        by (auto simp: p good_answer_def first_or_last_def Let_def)
    next
      case bad: False
      with Cons.prems False t have "try_pool dp c path q body backend tried pool buf1 s1 = (found, buf', s')"
        by (auto simp: good_answer_def)
      from Cons.IH [OF this] bad e show ?thesis
        by (auto simp: p first_or_last_def Let_def same_pools_def split: option.split)
    qed
  qed
qed

lemma flush_written:
  assumes "flushBuffered dp buf backend m height rb sc s c = (err, c', s')" "\<not> rs_Committed c"
  shows "err = None" "rs_Status c' = us_Status buf" "rs_Body c' = rs_Body c @ us_Body buf"
    "hdr_get (rs_Header c') HeaderXDABackend = backend" "hs_sent s' = hs_sent s" "hs_router s' = hs_router s"
    "hs_world s' = hs_world s"
proof -
  have ne: "HeaderXDABackend \<noteq> HeaderXCacheStatus" by (simp add: HeaderXDABackend_def HeaderXCacheStatus_def)
  show "err = None" "rs_Status c' = us_Status buf" "rs_Body c' = rs_Body c @ us_Body buf"
    "hdr_get (rs_Header c') HeaderXDABackend = backend" "hs_sent s' = hs_sent s" "hs_router s' = hs_router s"
    "hs_world s' = hs_world s"
    using assms ne by (auto simp: flushBuffered_def Let_def write_body_def write_header_def set_resp_header_def)
qed

text \<open>The pieces of a retried request: the first endpoint, the rest of its pool, the archival pool.\<close>

lemma proxyWithRetry_plan:
  assumes "stateless dp ans" "\<not> rs_Committed c"
    "proxyWithRetry dp d t path q body height sc s c = (err, c', s')"
  defines "a \<equiv> answer_of ans path q body c" and "B \<equiv> rd_Backend d" and "A \<equiv> archivalBackend (rd_Backend d)"
  defines "ts \<equiv> pool_targets dp (Some (tg_String t)) (router_AllEndpoints B (hs_router s))"
    and "as \<equiv> (if HasArchivalBackend B (hs_router s) then pool_targets dp None (router_AllEndpoints A (hs_router s)) else [])"
  shows "\<exists>buf bk. err = None \<and> rs_Status c' = us_Status buf \<and> rs_Body c' = rs_Body c @ us_Body buf
    \<and> hdr_get (rs_Header c') HeaderXDABackend = bk
    \<and> (if good_answer (a t) then buf = a t \<and> bk = B \<and> hs_sent s' = hs_sent s @ [director t path q body c]
       else if list_ex (good_answer \<circ> a) ts then
         buf = first_or_last good_answer (map a ts) (a t) \<and> bk = B
         \<and> hs_sent s' = hs_sent s @ map (\<lambda>t. director t path q body c) (t # upto_first (good_answer \<circ> a) ts)
       else buf = first_or_last good_answer (map a (ts @ as)) (a t)
         \<and> bk = (if list_ex (good_answer \<circ> a) as then A else B)
         \<and> hs_sent s' = hs_sent s @ map (\<lambda>t. director t path q body c) (t # ts @ upto_first (good_answer \<circ> a) as))"
proof -
  obtain buf1 s1 where t1: "tryEndpoint dp c t path q body B (rd_TargetURL d) s = (buf1, s1)" by (metis surj_pair)
  note e1 = tryEndpoint_stateless [OF assms(1) t1, folded a_def]
  obtain f2 buf2 s2 where p2: "try_pool dp c path q body B (Some (tg_String t))
      (router_AllEndpoints B (hs_router s1)) buf1 s1 = (f2, buf2, s2)" by (metis surj_pair)
  have r1: "router_AllEndpoints b (hs_router s1) = router_AllEndpoints b (hs_router s)" for b
    using e1 by (simp add: same_pools_def)
  note e2 = try_pool_stateless [OF assms(1) p2, unfolded r1, folded a_def ts_def, unfolded Let_def, folded ts_def]
  have r2: "router_AllEndpoints b (hs_router s2) = router_AllEndpoints b (hs_router s)" for b
    using e1 e2 by (simp add: same_pools_def)
  have arch: "HasArchivalBackend B (hs_router s2) = HasArchivalBackend B (hs_router s)"
    by (simp add: HasArchival_iff r2)
  obtain f3 buf3 s3 where p3: "try_pool dp c path q body A None
      (router_AllEndpoints A (hs_router s2)) buf2 s2 = (f3, buf3, s3)" by (metis surj_pair)
  note e3 = try_pool_stateless [OF assms(1) p3, unfolded r2, folded a_def, unfolded Let_def]
  let ?b = "case body of Some b \<Rightarrow> b | None \<Rightarrow> []" and ?m = "rd_Method d"
  have eq: "proxyWithRetry dp d t path q body height sc s c =
     (if good_answer buf1 then flushBuffered dp buf1 B ?m height ?b sc s1 c
      else if f2 then flushBuffered dp buf2 B ?m height ?b sc s2 c
      else if HasArchivalBackend B (hs_router s) then
        (if f3 then flushBuffered dp buf3 A ?m height ?b sc s3 (c\<lparr>cv_Backend := Some A\<rparr>)
         else flushBuffered dp buf3 B ?m height ?b sc s3 c)
      else flushBuffered dp buf2 B ?m height ?b sc s2 c)"
    using t1 p2 p3 arch by (simp add: proxyWithRetry_def Let_def good_answer_def B_def A_def)
  note fl = flush_written [where dp = dp and m = ?m and height = height and rb = ?b and sc = sc]
  consider (first) "good_answer buf1" | (pool) "\<not> good_answer buf1" f2
    | (archival) "\<not> good_answer buf1" "\<not> f2" "HasArchivalBackend B (hs_router s)" f3
    | (failed) "\<not> good_answer buf1" "\<not> f2" "HasArchivalBackend B (hs_router s)" "\<not> f3"
    | (plain) "\<not> good_answer buf1" "\<not> f2" "\<not> HasArchivalBackend B (hs_router s)" by blast
  then show ?thesis
  proof cases
    case first
    then have "flushBuffered dp buf1 B ?m height ?b sc s1 c = (err, c', s')" using assms(3) eq by simp
    from fl [OF this assms(2)] first e1 show ?thesis by (intro exI [of _ buf1] exI [of _ B]) simp
  next
    case pool
    then have "flushBuffered dp buf2 B ?m height ?b sc s2 c = (err, c', s')" using assms(3) eq by simp
    from fl [OF this assms(2)] pool e1 e2 show ?thesis by (intro exI [of _ buf2] exI [of _ B]) simp
  next
    case archival
    then have "flushBuffered dp buf3 A ?m height ?b sc s3 (c\<lparr>cv_Backend := Some A\<rparr>) = (err, c', s')"
      using assms(3) eq by simp
    from fl [OF this] assms(2) archival e1 e2 e3 show ?thesis
      by (intro exI [of _ buf3] exI [of _ A])
        (simp add: as_def first_or_last_append list_ex_map_comp upto_first_none)
  next
    case failed
    then have "flushBuffered dp buf3 B ?m height ?b sc s3 c = (err, c', s')" using assms(3) eq by simp
    from fl [OF this assms(2)] failed e1 e2 e3 show ?thesis
      by (intro exI [of _ buf3] exI [of _ B]) (simp add: as_def first_or_last_append list_ex_map_comp upto_first_none)
  next
    case plain
    then have "flushBuffered dp buf2 B ?m height ?b sc s2 c = (err, c', s')" using assms(3) eq by simp
    from fl [OF this assms(2)] plain e1 e2 show ?thesis
      by (intro exI [of _ buf2] exI [of _ B]) (simp add: as_def upto_first_none)
  qed
qed

lemma find_map: "find P (map f xs) = map_option f (find (P \<circ> f) xs)"
  by (induction xs) auto

lemma upto_first_map: "upto_first P (map f xs) = map f (upto_first (P \<circ> f) xs)"
  by (induction xs) auto

lemma first_or_last_map: "first_or_last P (map f xs) (f d) = f (first_or_last (P \<circ> f) xs d)"
  by (induction xs arbitrary: d) (auto simp: first_or_last_def find_map split: option.split)

definition served_plan :: "(target \<Rightarrow> upstream) \<Rightarrow> backend \<Rightarrow> (backend \<times> target) list \<Rightarrow> backend \<times> upstream" where
  "served_plan a B plan =
     (case find (\<lambda>(bk, t). good_answer (a t)) plan of
        Some (bk, t) \<Rightarrow> (bk, a t) | None \<Rightarrow> (B, a (snd (last plan))))"

lemma served_plan_cases:
  fixes B A :: backend and t :: target and ts as :: "target list" and a :: "target \<Rightarrow> upstream"
  defines "plan \<equiv> (B, t) # map (Pair B) ts @ map (Pair A) as" and "g \<equiv> good_answer \<circ> a"
  shows "served_plan a B plan =
     (if g t then (B, a t)
      else if list_ex g ts then (B, first_or_last good_answer (map a ts) (a t))
      else (if list_ex g as then A else B, first_or_last good_answer (map a (ts @ as)) (a t)))"
    "map snd (upto_first (\<lambda>(bk, t). good_answer (a t)) plan) =
     (if g t then [t] else if list_ex g ts then t # upto_first g ts else t # ts @ upto_first g as)"
proof -
  let ?G = "\<lambda>(bk :: backend, t). good_answer (a t)"
  have P: "?G \<circ> Pair b = g" for b by (auto simp: g_def)
  have ga: "?G (b, x) = g x" for b x by (simp add: g_def)
  have fd: "find ?G (map (Pair b) xs) = map_option (Pair b) (find g xs)" for b xs by (simp add: find_map P)
  have ex: "list_ex ?G (map (Pair b) xs) = list_ex g xs" for b xs by (simp add: list_ex_map_comp P)
  have up: "map snd (upto_first ?G (map (Pair b) xs)) = upto_first g xs" for b xs
    by (simp only: upto_first_map P) (simp add: comp_def)
  have lst: "a (snd (last plan)) = last (a t # map a (ts @ as))"
    using last_map [of plan "a \<circ> snd"] by (simp add: plan_def comp_def del: last.simps)
  have fl: "first_or_last good_answer (map a xs) (a t) =
      (case find g xs of Some x \<Rightarrow> a x | None \<Rightarrow> last (a t # map a xs))" for xs
    by (simp add: first_or_last_def find_map g_def split: option.split)
  have find_plan: "find ?G plan = (if g t then Some (B, t) else case find g ts of Some x \<Rightarrow> Some (B, x) | None \<Rightarrow> map_option (Pair A) (find g as))"
    unfolding plan_def find.simps ga find_append fd by (simp split: option.split)
  have some: "list_ex g xs \<longleftrightarrow> (\<exists>x. find g xs = Some x)" for xs
    using find_None_ex [of g xs] by (cases "find g xs") simp_all
  show "served_plan a B plan =
     (if g t then (B, a t)
      else if list_ex g ts then (B, first_or_last good_answer (map a ts) (a t))
      else (if list_ex g as then A else B, first_or_last good_answer (map a (ts @ as)) (a t)))"
    unfolding served_plan_def find_plan lst fl find_append some by (simp split: option.split)
  show "map snd (upto_first ?G plan) =
     (if g t then [t] else if list_ex g ts then t # upto_first g ts else t # ts @ upto_first g as)"
    unfolding plan_def upto_first.simps ga upto_first_append ex by (simp add: up comp_def)
qed


text \<open>A node that pruned the block and an archival node that has it.\<close>

definition block_not_found :: string where
  "block_not_found = render (VObj ([] @ (''error'', VStr ''Block not found'') # []))"

definition pruned_node :: "out_request \<Rightarrow> upstream option" where
  "pruned_node out =
     (if or_Host out = ''http://node'' then Some \<lparr>us_Status = 200, us_Header = Map.empty, us_Body = block_not_found\<rparr>
      else Some \<lparr>us_Status = 200, us_Header = Map.empty, us_Body = []\<rparr>)"

definition retry_deps :: "(unit, unit) deps" where
  "retry_deps = sample_deps\<lparr>dp_exchange := \<lambda>out w. (pruned_node out, 5000000, w)\<rparr>"

lemma block_not_found_pruned: "isPrunedError 200 block_not_found"
proof -
  have "plain_val 0 (VObj ([] @ (''error'', VStr ''Block not found'') # []))"
    by (simp add: max_nesting_def plain_simps)
  moreover have "to_lower (render (VStr ''Block not found'')) = CHR 0x22 # ''block not found'' @ [CHR 0x22]"
    by code_simp
  moreover have "sublist ''block not found'' (CHR 0x22 # ''block not found'' @ [CHR 0x22])"
    by (metis append_Cons append_Nil sublist_appendI)
  ultimately show ?thesis unfolding block_not_found_def
    by (subst isPruned_document) (auto simp: pruned_phrases_def quoted_def)
qed


end
