(* ===== verification/Spec2Isabelle.thy ===== *)
theory Spec2Isabelle
  imports Interleaving Streaming CachedServing MethodGate Retry
begin

text \<open>
  da-proxy is an authenticating reverse proxy for Celestia nodes, written in Go (\<open>cmd/da-proxy\<close>,
  \<open>internal/\<close>). An HTTP request carries its token as the first element of its path. The proxy server
  gives it an id, may trace it, checks the token, charges the token's rate limit, logs and counts it, and
  hands it to one of two handlers: a WebSocket upgrade is joined to a backend connection, anything else
  is read as JSON-RPC, routed by its method and block height to one of four pools, checked against the
  token's scope and allowlist, answered from the cache if it can be, and forwarded otherwise. gRPC and
  P2P connections have their own unauthenticated proxies. A health checker probes all endpoints and
  follows the chain's head; an administration API shows logs and backends and manages the tokens.

  \<^bold>\<open>Theories and code\<close>

  Shared ground.
  \<^item> \<open>Prelude\<close>: byte strings with the functions of Go's \<open>strings\<close> and \<open>strconv\<close> in use, \<open>int64\<close> wrap-around,
    association lists.
  \<^item> \<open>Json\<close>: the part of \<open>encoding/json\<close> in use: the strict scanner, raw messages, struct decoding with
    case-folded keys, and a printer to state results over documents. \<open>Utf8\<close>: valid UTF-8, and that every string
    the decoder yields is valid.
  \<^item> \<open>Float64\<close>: binary64 rounding to nearest even on rationals.
  \<^item> \<open>Http\<close>: headers, echo's context as the record \<open>ctx\<close>, response writing, and handlers as functions
    \<open>'s \<Rightarrow> ctx \<Rightarrow> error \<times> ctx \<times> 's\<close> over a state \<open>'s\<close>.

  Components, each named after its file under \<open>internal/\<close>.
  \<^item> \<open>Config\<close> (\<open>config/config.go\<close>), \<open>Latency\<close>, \<open>Balancer\<close>, \<open>Height\<close>, \<open>Router\<close> (\<open>proxy/latency.go\<close>,
    \<open>balancer.go\<close>, \<open>height.go\<close>, \<open>router.go\<close>): a router is a record of balancers by backend and the head tracker.
  \<^item> \<open>Token\<close>, \<open>TokenStore\<close> (\<open>auth/token.go\<close>, \<open>store.go\<close>): the table is a list of rows, the store a table with a
    cache and its time stamp; each operation takes an \<open>env\<close> saying which statements fail.
  \<^item> \<open>RingBuffer\<close>, \<open>LogStore\<close>, \<open>BatchWriter\<close>, \<open>LogSinks\<close> (\<open>logging/\<close>): recent logs, queries, and the asynchronous
    writer as runs of events into three sinks.
  \<^item> \<open>Middleware\<close> (\<open>middleware/\<close>), \<open>Cache\<close> (\<open>cache/\<close>).
  \<^item> \<open>Handler\<close> (\<open>proxy/handler.go\<close>), with \<open>Retry\<close>, \<open>MethodGate\<close> and \<open>CachedServing\<close> proving what its retry
    path, its method check and its cache mean. \<open>Streaming\<close>: the same handler writing to an
    \<open>http.ResponseWriter\<close> piece by piece, with backends that break off and clients that hang up.
  \<^item> \<open>WebSocket\<close>, \<open>GrpcProxy\<close>, \<open>TcpProxy\<close> (\<open>proxy/websocket.go\<close>, \<open>grpc_proxy.go\<close>, \<open>tcp_proxy.go\<close>): goroutines that
    copy in both directions are interleavings of their rounds.
  \<^item> \<open>Health\<close> (\<open>proxy/health.go\<close>), \<open>Admin\<close> (\<open>admin/\<close>).
  \<^item> \<open>Prometheus\<close> (\<open>metrics/prometheus.go\<close>, \<open>cache/metrics.go\<close>), \<open>MetricUse\<close>: the metric vectors with their labels, and
    every use of one.
  \<^item> \<open>ProxyServer\<close> (\<open>cmd/da-proxy/main.go\<close>, \<open>tracing/middleware.go\<close>): the server put together over one record \<open>sys\<close>
    of all the components' states.
  \<^item> \<open>Process\<close> (\<open>cmd/da-proxy/main.go\<close>): what is built at startup, and the running process as a step
    relation of requests, log writer turns, token operations and head updates.
  \<^item> \<open>Startup\<close> (\<open>cmd/da-proxy/main.go\<close>, \<open>logging/zap.go\<close>, \<open>tracing/tracing.go\<close>, \<open>metrics/server.go\<close>): \<open>main\<close> from the
    flag to the running servers. \<open>Shutdown\<close>: \<open>main\<close> after the signal, with its deferred calls.
  \<^item> \<open>Interleaving\<close>: the same process one locked operation at a time, so that requests and token operations
    interleave anywhere. SQL statements are \<open>sql_stmt\<close>, a cache reload is its query and its installation.

  \<^bold>\<open>Interfaces\<close>

  What one component relies on in another is a locale, interpreted on the code's model where it is
  provided: \<open>token_lookup\<close> (the lookups \<open>Auth\<close> uses; by the memory and the SQLite store),
  \<open>endpoint_router\<close> (what forwarding needs of a router), \<open>response_cache\<close> (a hit was stored; by the
  Redis, the no-op and the instrumented cache) and \<open>log_sink\<close> (a healthy save keeps a batch; by SQLite,
  PostgreSQL and Loki), \<open>response_writer\<close> (what the reverse proxy relies on; by the buffer and echo's response).

  \<^bold>\<open>What is shown\<close>

  \<^item> Requests: an unauthenticated or throttled request has no effect behind the gate; an admitted one is
    logged and counted once; what reaches a backend is the request without its token, at a
    configured endpoint; a deleted token stays out (\<open>Process\<close>, \<open>Handler\<close>, \<open>MethodGate\<close>).
  \<^item> The invariant of the running process under every interleaving of whole requests, token operations and
    writer turns (\<open>Process\<close>), and of their locked operations; the first runs are among the second
    (\<open>Interleaving\<close>).
  \<^item> Routing by method and height, selection by latency, statistics as a function of the history,
    the moving average under concurrent updates (\<open>Router\<close>, \<open>Height\<close>, \<open>Balancer\<close>, \<open>Latency\<close>).
  \<^item> The retry path refines \<open>first good answer of a plan\<close>; cached answers were given to the same
    question (\<open>Retry\<close>, \<open>CachedServing\<close>). With whole answers the streaming handler is the plain one; what an aborted
    request leaves (\<open>Streaming\<close>).
  \<^item> The token cache agrees with the table; each operation's effect on every later lookup (\<open>TokenStore\<close>).
  \<^item> No accepted log entry is lost by healthy sinks; rows are the accepted entries in order; both SQL
    builders select the same rows; the ring shows the newest entries (\<open>LogSinks\<close>, \<open>LogStore\<close>, \<open>RingBuffer\<close>).
  \<^item> The stream proxies copy each direction in order and without loss, and how a call or a
    connection ends (\<open>WebSocket\<close>, \<open>GrpcProxy\<close>, \<open>TcpProxy\<close>).
  \<^item> A health round reports each endpoint, its log lines follow the state; the head moves as reported;
    the administration API's answers, pages, CSV and password check (\<open>Health\<close>, \<open>Admin\<close>).
  \<^item> A loaded configuration leaves \<open>main\<close> only its environment to fail on; the order of the shutdown keeps
    calls from logging into a closed store, and what the store loses is what its writer had left
    (\<open>Startup\<close>, \<open>Shutdown\<close>). Metric vectors are used as declared (\<open>MetricUse\<close>).
  \<^item> Some properties state defects, as they are in the code: a batch or a WebSocket passes the
    method check, a late send turns a successful gRPC call into an error, a method name that is not UTF-8 ends the
    process, tracing exports the token, a reload or an update that overtakes another undoes it, an aborted request is not logged.

  \<^bold>\<open>Bounds\<close>

  Recursion is structural or has a measure. The only fuel is the JSON parser's \<open>2 * length + 2\<close>, which
  \<open>json_fuel_enough\<close> shows never to be what makes it fail. \<open>int64\<close> values are integers with \<open>wrap64\<close> where
  the code can overflow; counters that wrap are words. Loops that end only with their peers
  (\<open>forwardClientToBackend\<close>, \<open>io.Copy\<close>, the accept loop, the log writer) are step relations or runs of
  events.

  \<^bold>\<open>Parameters\<close>

  Clocks, random numbers, SHA-256, bcrypt, URL parsing, \<open>ParseFloat\<close>, the token bucket library, Redis, the
  databases' failures, and what backends, peers and dials answer are arguments. Where a result
  needs something of them it is an assumption of the theorem.

  \<^bold>\<open>Not modelled\<close>

  \<^item> What the libraries do inside: zap, OpenTelemetry, the Prometheus registry, echo, grpc-go, the SQL
    drivers. Files, listeners and connections open or do not as the environment says.
  \<^item> The text of zap's log lines.
  \<^item> A gRPC call, a TCP connection and a health round share the router and the sinks with the requests,
    by operations that are steps of \<open>Interleaving\<close>; that each of them as a whole is a run of such steps is not
    proved. The update of the moving average, which the code does without a lock, is modelled step by step in
    \<open>Latency\<close>.
\<close>

end
